(* ===== verification/Prelude.thy ===== *)
theory Prelude
  imports Complex_Main "HOL-Library.AList"
begin

section \<open>Prelude: exceptions, results, instants and shared lemmas\<close>

text \<open>
  What every component of the development shares: the Python exceptions the services
  distinguish, results that are a value or an exception, the loop that stops at the first
  exception, instants of time, and lemmas on association lists and on tables (lists of rows
  with a key).
\<close>

named_theorems res_simps \<open>evaluation of results\<close>
named_theorems table_simps \<open>tables with a primary key\<close>

subsection \<open>Exceptions and results\<close>

text \<open>
  One constructor per exception class that some \<open>except\<close> clause of the services tells
  apart. \<open>SQLAlchemyError\<close> is the root class of SQLAlchemy (integrity, data and
  operational errors of the related service are subclasses), \<open>DatabaseError\<close> the one of
  Django and psycopg, \<open>KafkaError\<close> the one of kafka-python, \<open>PyJWTError\<close> the one of PyJWT, with
  its text. \<open>AuthenticationFailed\<close>, \<open>Http404\<close>, \<open>ValidationError\<close>,
  \<open>NotAuthenticated\<close> and \<open>MethodNotAllowed\<close> are those of Django and its REST framework.
  \<open>OtherError\<close> is any exception outside these classes.
\<close>

datatype exc = KeyError | TypeError | ValueError | AttributeError | ZeroDivisionError
  | UnicodeDecodeError | RuntimeError | SQLAlchemyError | DatabaseError | KafkaError
  | PyJWTError string | AuthenticationFailed string | Http404 | ValidationError
  | NotAuthenticated | MethodNotAllowed | OtherError

type_synonym 'a res = "exc + 'a"

definition try_then :: "'a res \<Rightarrow> ('a \<Rightarrow> 'b res) \<Rightarrow> 'b res" where
  "try_then r f = (case r of Inl e \<Rightarrow> Inl e | Inr x \<Rightarrow> f x)"

lemma try_then_simps [simp, res_simps]:
  "try_then (Inl e) f = Inl e"
  "try_then (Inr x) f = f x"
  by (simp_all add: try_then_def)

lemma try_then_eq_Inr_iff: "try_then r f = Inr y \<longleftrightarrow> (\<exists>x. r = Inr x \<and> f x = Inr y)"
  by (cases r) auto

lemma try_then_eq_Inl_iff:
  "try_then r f = Inl e \<longleftrightarrow> r = Inl e \<or> (\<exists>x. r = Inr x \<and> f x = Inl e)"
  by (cases r) auto

lemma try_then_assoc: "try_then (try_then r f) g = try_then r (\<lambda>x. try_then (f x) g)"
  by (cases r) auto

definition as_option :: "'a res \<Rightarrow> 'a option" where
  "as_option r = (case r of Inl _ \<Rightarrow> None | Inr x \<Rightarrow> Some x)"

lemma as_option_simps [simp]: "as_option (Inl e) = None" "as_option (Inr x) = Some x"
  by (simp_all add: as_option_def)

text \<open>An HTTP response: the status and the body.\<close>

datatype 'b response = Response (resp_status: nat) (resp_body: 'b)

subsection \<open>Loops that stop at the first exception\<close>

fun each :: "('a \<Rightarrow> 'b res) \<Rightarrow> 'a list \<Rightarrow> 'b list res" where
  "each f [] = Inr []"
| "each f (x # xs) = try_then (f x) (\<lambda>y. try_then (each f xs) (\<lambda>ys. Inr (y # ys)))"

lemma each_pure: "(\<And>x. x \<in> set xs \<Longrightarrow> f x = Inr (g x)) \<Longrightarrow> each f xs = Inr (map g xs)"
  by (induction xs) auto

lemma each_length: "each f xs = Inr ys \<Longrightarrow> length ys = length xs"
  by (induction xs arbitrary: ys) (auto simp: try_then_eq_Inr_iff)

lemma each_exc:
  assumes "each f xs = Inl e" shows "\<exists>x\<in>set xs. f x = Inl e"
  using assms by (induction xs) (auto simp: try_then_eq_Inl_iff)

subsection \<open>Instants\<close>

text \<open>
  An instant, in microseconds; the resolution of Python's \<open>datetime\<close> and of a Postgres
  timestamp. Only their order matters to the services.
\<close>

datatype timestamp = Timestamp (micros: int)

instantiation timestamp :: linorder
begin

definition less_eq_timestamp :: "timestamp \<Rightarrow> timestamp \<Rightarrow> bool" where
  "less_eq_timestamp a b \<longleftrightarrow> micros a \<le> micros b"

definition less_timestamp :: "timestamp \<Rightarrow> timestamp \<Rightarrow> bool" where
  "less_timestamp a b \<longleftrightarrow> micros a < micros b"

instance
  by standard
    (auto simp: less_eq_timestamp_def less_timestamp_def intro: timestamp.expand)

end

lemma Timestamp_order [simp]:
  "Timestamp a \<le> Timestamp b \<longleftrightarrow> a \<le> b"
  "Timestamp a < Timestamp b \<longleftrightarrow> a < b"
  by (simp_all add: less_eq_timestamp_def less_timestamp_def)

subsection \<open>Association lists\<close>

lemma map_of_update: "map_of (AList.update k v al) = (map_of al)(k \<mapsto> v)"
  by (rule update_conv')

lemma map_of_filter_key:
  "map_of (filter (\<lambda>(k, v). k \<noteq> s) al) = (map_of al)(s := None)"
  by (induction al) (auto simp: fun_eq_iff)

lemma map_of_rev_snoc: "map_of (rev (al @ [(k, v)])) = (map_of (rev al))(k \<mapsto> v)"
  by simp

subsection \<open>Tables\<close>

text \<open>
  A table is a list of rows; \<open>row_at key k\<close> is the first row with the key, as
  \<open>query.filter_by(...).first()\<close> reads it.
\<close>

definition row_at :: "('r \<Rightarrow> 'k) \<Rightarrow> 'k \<Rightarrow> 'r list \<Rightarrow> 'r option" where
  "row_at key k rows = find (\<lambda>r. key r = k) rows"

lemma row_at_Nil [simp]: "row_at key k [] = None"
  by (simp add: row_at_def)

lemma row_at_Cons [simp]:
  "row_at key k (r # rows) = (if key r = k then Some r else row_at key k rows)"
  by (simp add: row_at_def)

lemma row_at_None_iff: "row_at key k rows = None \<longleftrightarrow> k \<notin> key ` set rows"
  by (auto simp: row_at_def find_None_iff)

lemma row_at_SomeD: "row_at key k rows = Some r \<Longrightarrow> r \<in> set rows \<and> key r = k"
  by (auto simp: row_at_def find_Some_iff)

lemma row_at_append:
  "row_at key k (xs @ ys) = (case row_at key k xs of None \<Rightarrow> row_at key k ys | Some r \<Rightarrow> Some r)"
  by (induction xs) auto

lemma row_at_distinct:
  assumes "distinct (map key rows)" "r \<in> set rows"
  shows "row_at key (key r) rows = Some r"
  using assms by (induction rows) (auto simp: image_iff)

lemma row_at_iff:
  "distinct (map key rows) \<Longrightarrow> row_at key k rows = Some r \<longleftrightarrow> r \<in> set rows \<and> key r = k"
  using row_at_distinct row_at_SomeD by metis

lemma row_at_map_on:
  "(\<And>r. r \<in> set rows \<Longrightarrow> key (f r) = key r) \<Longrightarrow>
   row_at key k (map f rows) = map_option f (row_at key k rows)"
  by (induction rows) auto

lemma row_at_map:
  "(\<And>r. key (f r) = key r) \<Longrightarrow> row_at key k (map f rows) = map_option f (row_at key k rows)"
  by (induction rows) auto

lemma row_at_filter:
  assumes "distinct (map key rows)"
  shows "row_at key k (filter P rows)
    = (case row_at key k rows of None \<Rightarrow> None | Some r \<Rightarrow> if P r then Some r else None)"
  using assms
proof (induction rows)
  case (Cons a rows)
  show ?case
  proof (cases "key a = k")
    case True
    with Cons.prems have "k \<notin> key ` set rows" by auto
    then have "row_at key k (filter P rows) = None" "row_at key k rows = None"
      by (auto simp: row_at_None_iff)
    with True show ?thesis by simp
  next
    case False
    with Cons show ?thesis by simp
  qed
qed simp

lemma distinct_map_filter_key: "distinct (map f xs) \<Longrightarrow> distinct (map f (filter P xs))"
  by (induction xs) auto

lemma distinct_map_inj_on_set:
  "distinct (map f xs) \<Longrightarrow> x \<in> set xs \<Longrightarrow> y \<in> set xs \<Longrightarrow> f x = f y \<Longrightarrow> x = y"
  by (meson distinct_map inj_onD)

lemmas row_at_simps [table_simps] = row_at_Nil row_at_Cons row_at_append row_at_None_iff

subsection \<open>The database under a client\<close>

text \<open>
  What becomes of a statement or transaction: it is carried out, it fails and is rolled back, or it is
  carried out and the answer is lost, so that the caller sees an error.
\<close>

datatype db_fate = Works | Fails | Unanswered

end
