(* ===== verification/PyStrings.thy ===== *)
theory PyStrings
  imports Prelude
begin

section \<open>Python strings\<close>

text \<open>
  A Python \<open>str\<close> is a HOL \<open>string\<close>, each character read as the code point U+0000 to
  U+00FF of its number. On these strings \<open>str.lower\<close>, \<open>str.split\<close> and \<open>str.strip\<close> are
  modelled exactly (their white space is that of \<open>str.isspace\<close>: U+0009 to U+000D, U+001C to
  U+001F, U+0020, U+0085 and U+00A0; upper case letters are A to Z and U+00C0 to U+00DE
  without U+00D7). Strings with code points above U+00FF are outside the model.
\<close>

definition code :: "char \<Rightarrow> nat" where
  "code c = of_char c"

definition is_space :: "char \<Rightarrow> bool" where
  "is_space c \<longleftrightarrow> (9 \<le> code c \<and> code c \<le> 13) \<or> (28 \<le> code c \<and> code c \<le> 32)
     \<or> code c = 133 \<or> code c = 160"

definition is_upper :: "char \<Rightarrow> bool" where
  "is_upper c \<longleftrightarrow> (65 \<le> code c \<and> code c \<le> 90)
     \<or> (192 \<le> code c \<and> code c \<le> 222 \<and> code c \<noteq> 215)"

definition lower_char :: "char \<Rightarrow> char" where
  "lower_char c = (if is_upper c then char_of (code c + 32) else c)"

definition py_lower :: "string \<Rightarrow> string" where
  "py_lower s = map lower_char s"

definition py_strip :: "string \<Rightarrow> string" where
  "py_strip s = rev (dropWhile is_space (rev (dropWhile is_space s)))"

text \<open>\<open>str.split()\<close>: the maximal runs of characters that are not white space.\<close>

fun split_words :: "string \<Rightarrow> string \<Rightarrow> string list" where
  "split_words acc [] = (if acc = [] then [] else [acc])"
| "split_words acc (c # cs) =
     (if is_space c then (if acc = [] then split_words [] cs else acc # split_words [] cs)
      else split_words (acc @ [c]) cs)"

definition py_split :: "string \<Rightarrow> string list" where
  "py_split s = split_words [] s"

text \<open>\<open>" ".join(words)\<close>\<close>

fun join_words :: "string list \<Rightarrow> string" where
  "join_words [] = []"
| "join_words [w] = w"
| "join_words (w # ws) = w @ CHR '' '' # join_words ws"

text \<open>\<open>s.split(sep)\<close> for a separator of one character: never empty, empty parts kept.\<close>

fun split_on :: "char \<Rightarrow> string \<Rightarrow> string list" where
  "split_on d [] = [[]]"
| "split_on d (c # cs) =
     (if c = d then [] # split_on d cs
      else (case split_on d cs of [] \<Rightarrow> [[c]] | w # ws \<Rightarrow> (c # w) # ws))"

text \<open>\<open>s.replace(old, new)\<close> for an old string of one character.\<close>

definition replace_char :: "char \<Rightarrow> string \<Rightarrow> string \<Rightarrow> string" where
  "replace_char d new s = concat (map (\<lambda>c. if c = d then new else [c]) s)"

definition starts_with :: "string \<Rightarrow> string \<Rightarrow> bool" where
  "starts_with p s \<longleftrightarrow> take (length p) s = p"

text \<open>\<open>string.punctuation\<close>\<close>

definition string_punctuation :: string where
  "string_punctuation =
     map char_of ([33..<48] @ [58..<65] @ [91..<97] @ [123..<127] :: nat list)"

text \<open>\<open>x in s\<close> for strings: x occurs in s as a contiguous part.\<close>

fun is_part :: "string \<Rightarrow> string \<Rightarrow> bool" where
  "is_part x [] \<longleftrightarrow> x = []"
| "is_part x (c # cs) \<longleftrightarrow> starts_with x (c # cs) \<or> is_part x cs"

text \<open>\<open>str(n)\<close> of an integer.\<close>

definition digit :: "nat \<Rightarrow> char" where
  "digit d = char_of (48 + d)"

fun show_nat :: "nat \<Rightarrow> string" where
  "show_nat n = (if n < 10 then [digit n] else show_nat (n div 10) @ [digit (n mod 10)])"

declare show_nat.simps [simp del]

definition show_int :: "int \<Rightarrow> string" where
  "show_int n = (if n < 0 then CHR ''-'' # show_nat (nat (- n)) else show_nat (nat n))"

text \<open>
  \<open>int(s)\<close>: white space around, an optional sign, decimal digits with single underscores
  between them; anything else is a ValueError.
\<close>

definition is_digit :: "char \<Rightarrow> bool" where
  "is_digit c \<longleftrightarrow> 48 \<le> code c \<and> code c \<le> 57"

fun digits_value :: "bool \<Rightarrow> nat \<Rightarrow> string \<Rightarrow> nat option" where
  "digits_value after_digit n [] = (if after_digit then Some n else None)"
| "digits_value after_digit n (c # cs) =
     (if is_digit c then digits_value True (10 * n + (code c - 48)) cs
      else if c = CHR ''_'' \<and> after_digit then digits_value False n cs
      else None)"

definition py_int :: "string \<Rightarrow> int res" where
  "py_int s =
     (case py_strip s of
        [] \<Rightarrow> Inl ValueError
      | c # cs \<Rightarrow>
          (case digits_value False 0 (if c = CHR ''+'' \<or> c = CHR ''-'' then cs else c # cs) of
             None \<Rightarrow> Inl ValueError
           | Some n \<Rightarrow> Inr (if c = CHR ''-'' then - int n else int n)))"

subsection \<open>Characters\<close>

lemma code_char_of [simp]: "code (char_of n) = n mod 256"
  by (simp add: code_def)

lemma code_bound: "code c < 256"
  using range_nat_of_char by (auto simp: code_def)

lemma code_inj: "code c = code d \<longleftrightarrow> c = d"
  by (simp add: code_def)

lemma lower_char_not_upper [simp]: "\<not> is_upper (lower_char c)"
  using code_bound[of c] by (auto simp: lower_char_def is_upper_def)

lemma lower_char_idem [simp]: "lower_char (lower_char c) = lower_char c"
  using lower_char_not_upper[of c] by (simp add: lower_char_def)

lemma is_space_lower [simp]: "is_space (lower_char c) = is_space c"
  using code_bound[of c] by (auto simp: lower_char_def is_upper_def is_space_def)

lemma punctuation_iff:
  "c \<in> set string_punctuation \<longleftrightarrow> (33 \<le> code c \<and> code c \<le> 47) \<or> (58 \<le> code c \<and> code c \<le> 64)
     \<or> (91 \<le> code c \<and> code c \<le> 96) \<or> (123 \<le> code c \<and> code c \<le> 126)"
proof -
  have img: "c \<in> char_of ` A \<longleftrightarrow> code c \<in> A" if "A \<subseteq> {..<256}" for A :: "nat set"
  proof
    assume "c \<in> char_of ` A"
    then obtain n where n: "n \<in> A" "c = char_of n" by blast
    with that have "n < 256" by auto
    with n show "code c \<in> A" by simp
  next
    assume "code c \<in> A"
    moreover have "char_of (code c) = c" by (simp add: code_def)
    ultimately show "c \<in> char_of ` A" by (metis imageI)
  qed
  have eq: "set string_punctuation
      = char_of ` ({33..<48} \<union> {58..<65} \<union> {91..<97} \<union> {123..<127} :: nat set)"
    unfolding string_punctuation_def set_map set_append set_upt by (simp add: Un_assoc)
  have mem: "c \<in> char_of ` ({33..<48} \<union> {58..<65} \<union> {91..<97} \<union> {123..<127} :: nat set)
      \<longleftrightarrow> code c \<in> ({33..<48} \<union> {58..<65} \<union> {91..<97} \<union> {123..<127} :: nat set)"
    by (rule img) auto
  show ?thesis unfolding eq mem by auto
qed

lemma punctuation_lower [simp]:
  "c \<notin> set string_punctuation \<Longrightarrow> lower_char c \<notin> set string_punctuation"
  using code_bound[of c] by (auto simp: punctuation_iff lower_char_def is_upper_def)

lemma punctuation_not_space: "c \<in> set string_punctuation \<Longrightarrow> \<not> is_space c"
  by (auto simp: punctuation_iff is_space_def)

lemma blank_is_space [simp]: "is_space (CHR '' '')"
  by (simp add: is_space_def code_def)

lemma is_part_single: "is_part [c] s \<longleftrightarrow> c \<in> set s"
  by (induction s) (auto simp: starts_with_def)

subsection \<open>Splitting and stripping\<close>

definition is_word :: "string \<Rightarrow> bool" where
  "is_word w \<longleftrightarrow> w \<noteq> [] \<and> (\<forall>c\<in>set w. \<not> is_space c)"

lemma split_words_are_words:
  "(\<forall>c\<in>set acc. \<not> is_space c) \<Longrightarrow> w \<in> set (split_words acc s) \<Longrightarrow> is_word w"
proof (induction acc s rule: split_words.induct)
  case (1 acc)
  then show ?case by (cases "acc = []") (simp_all add: is_word_def)
next
  case (2 acc c cs)
  show ?case
  proof (cases "is_space c")
    case True
    with 2 show ?thesis by (cases "acc = []") (auto simp: is_word_def)
  next
    case False
    with 2 show ?thesis by simp
  qed
qed

lemma py_split_words: "w \<in> set (py_split s) \<Longrightarrow> is_word w"
  using split_words_are_words[of "[]"] by (simp add: py_split_def)

lemma split_words_run:
  "(\<forall>c\<in>set w. \<not> is_space c) \<Longrightarrow> split_words acc (w @ s) = split_words (acc @ w) s"
  by (induction w arbitrary: acc) auto

lemma split_words_blank: "is_space c \<Longrightarrow> acc \<noteq> [] \<Longrightarrow>
    split_words acc (c # s) = acc # split_words [] s"
  by simp

lemma py_split_join: "(\<forall>w\<in>set ws. is_word w) \<Longrightarrow> py_split (join_words ws) = ws"
proof (induction ws rule: join_words.induct)
  case (2 w)
  then show ?case using split_words_run[of w "[]" "[]"] by (simp add: py_split_def is_word_def)
next
  case (3 w v ws)
  then have w: "w \<noteq> []" "\<forall>c\<in>set w. \<not> is_space c" by (auto simp: is_word_def)
  from 3 have IH: "split_words [] (join_words (v # ws)) = v # ws" by (simp add: py_split_def)
  have "split_words [] (w @ CHR '' '' # join_words (v # ws))
      = split_words w (CHR '' '' # join_words (v # ws))"
    using split_words_run[OF w(2), of "[]"] by simp
  also have "\<dots> = w # split_words [] (join_words (v # ws))"
    using w(1) by simp
  finally show ?case using IH by (simp add: py_split_def)
qed (simp add: py_split_def)

lemma split_words_dropWhile: "split_words [] (dropWhile is_space s) = split_words [] s"
  by (induction s) auto

lemma split_words_spaces_after:
  "(\<forall>c\<in>set t. is_space c) \<Longrightarrow> split_words acc (s @ t) = split_words acc s"
proof (induction acc s rule: split_words.induct)
  case (1 acc)
  then show ?case
  proof (induction t)
    case (Cons c t)
    have "split_words [] t = []" if "\<forall>c\<in>set t. is_space c" for t using that by (induction t) auto
    with Cons show ?case by simp
  qed simp
qed auto

lemma rev_dropWhile_spaces:
  "\<exists>t. s = rev (dropWhile is_space (rev s)) @ t \<and> (\<forall>c\<in>set t. is_space c)"
proof (intro exI conjI)
  show "s = rev (dropWhile is_space (rev s)) @ rev (takeWhile is_space (rev s))"
    by (metis rev_append rev_rev_ident takeWhile_dropWhile_id)
qed (auto dest: set_takeWhileD)

lemma py_strip_idem [simp]: "py_strip (py_strip s) = py_strip s"
proof -
  let ?t = "dropWhile is_space s"
  obtain rest where t: "?t = py_strip s @ rest"
    using rev_dropWhile_spaces[of ?t] by (auto simp: py_strip_def)
  have "dropWhile is_space (py_strip s) = py_strip s"
  proof (cases "py_strip s")
    case (Cons c cs)
    with t have "?t = c # cs @ rest" by simp
    then have "\<not> is_space c" by (metis dropWhile_eq_Cons_conv)
    with Cons show ?thesis by simp
  qed simp
  then show ?thesis by (simp add: py_strip_def)
qed

text \<open>The parts are the same whether or not the string was stripped first.\<close>

lemma py_split_strip: "py_split (py_strip s) = py_split s"
proof -
  let ?d = "dropWhile is_space s"
  obtain t where t: "?d = rev (dropWhile is_space (rev ?d)) @ t" "\<forall>c\<in>set t. is_space c"
    using rev_dropWhile_spaces by blast
  have "split_words [] s = split_words [] ?d" by (simp add: split_words_dropWhile)
  also have "\<dots> = split_words [] (py_strip s)"
    using split_words_spaces_after[OF t(2)] t(1) by (metis py_strip_def)
  finally show ?thesis by (simp add: py_split_def)
qed

lemma set_join_words: "set (join_words ws) \<subseteq> insert (CHR '' '') (\<Union> (set ` set ws))"
  by (induction ws rule: join_words.induct) auto

lemma py_lower_simps [simp]: "py_lower [] = []" "py_lower (c # s) = lower_char c # py_lower s"
  "py_lower (s @ t) = py_lower s @ py_lower t" "length (py_lower s) = length s"
  by (simp_all add: py_lower_def)

subsection \<open>Decimal numbers\<close>

lemma code_digit: "d < 10 \<Longrightarrow> code (digit d) = 48 + d"
  by (simp add: digit_def)

lemma show_nat_digits: "c \<in> set (show_nat n) \<Longrightarrow> is_digit c"
proof (induction n rule: show_nat.induct)
  case (1 n)
  show ?case
  proof (cases "n < 10")
    case True
    with "1.prems" show ?thesis by (simp add: show_nat.simps is_digit_def code_digit)
  next
    case False
    with "1.prems" consider "c \<in> set (show_nat (n div 10))" | "c = digit (n mod 10)"
      by (auto simp: show_nat.simps[of n])
    then show ?thesis
      using "1.IH" False by cases (auto simp: is_digit_def code_digit)
  qed
qed

lemma show_nat_value: "foldl (\<lambda>a c. 10 * a + (code c - 48)) 0 (show_nat n) = n"
proof (induction n rule: show_nat.induct)
  case (1 n)
  show ?case
    using 1 by (cases "n < 10") (simp_all add: show_nat.simps[of n] code_digit)
qed

lemma show_nat_inj: "show_nat m = show_nat n \<longleftrightarrow> m = n"
  using show_nat_value by metis

lemma colon_not_digit: "\<not> is_digit (CHR '':'')"
  by (simp add: is_digit_def code_def)

lemma colon_not_in_show_nat: "CHR '':'' \<notin> set (show_nat n)"
  using show_nat_digits colon_not_digit by blast

lemma append_sep_inj:
  assumes "c \<notin> set xs" "c \<notin> set xs'"
  shows "xs @ c # ys = xs' @ c # ys' \<longleftrightarrow> xs = xs' \<and> ys = ys'"
  using assms
proof (induction xs arbitrary: xs')
  case Nil
  then show ?case by (cases xs') auto
next
  case (Cons x xs)
  then show ?case by (cases xs') auto
qed

end
