(* ===== verification/Json.thy ===== *)
theory Json
  imports PyStrings
begin

section \<open>JSON values as the Python code handles them\<close>

text \<open>
  What \<open>json.loads\<close> returns and \<open>json.dumps\<close> takes. An object is a dictionary: a list of
  pairs with distinct keys, in insertion order. Numbers are integers: no field that the
  services read from an event is a fraction and no producer sends one.
\<close>

datatype json = JNull | JBool bool | JInt int | JStr string | JArr "json list"
  | JObj "(string \<times> json) list"

text \<open>\<open>value[key]\<close>: a missing key is a KeyError, and indexing any other JSON value with a string is a
  TypeError.\<close>

fun getitem :: "json \<Rightarrow> string \<Rightarrow> json res" where
  "getitem (JObj kvs) k = (case map_of kvs k of None \<Rightarrow> Inl KeyError | Some v \<Rightarrow> Inr v)"
| "getitem _ k = Inl TypeError"

text \<open>\<open>value.get(key)\<close>: None when the key is missing; only dictionaries have the method.\<close>

fun get_method :: "json \<Rightarrow> string \<Rightarrow> json res" where
  "get_method (JObj kvs) k = Inr (case map_of kvs k of None \<Rightarrow> JNull | Some v \<Rightarrow> v)"
| "get_method _ k = Inl AttributeError"

text \<open>\<open>value.get(key, default)\<close>\<close>

fun get_or :: "json \<Rightarrow> string \<Rightarrow> json \<Rightarrow> json res" where
  "get_or (JObj kvs) k d = Inr (case map_of kvs k of None \<Rightarrow> d | Some v \<Rightarrow> v)"
| "get_or _ k d = Inl AttributeError"

text \<open>The text of a value in a text column: a string itself, anything else as its \<open>str(...)\<close>.\<close>

definition text_value :: "(json \<Rightarrow> string) \<Rightarrow> json \<Rightarrow> string" where
  "text_value py_str j = (case j of JStr s \<Rightarrow> s | _ \<Rightarrow> py_str j)"

lemma text_value_JStr [simp]: "text_value py_str (JStr s) = s"
  by (simp add: text_value_def)

text \<open>The truth value of a Python object.\<close>

fun truthy :: "json \<Rightarrow> bool" where
  "truthy JNull = False"
| "truthy (JBool b) = b"
| "truthy (JInt n) = (n \<noteq> 0)"
| "truthy (JStr s) = (s \<noteq> [])"
| "truthy (JArr xs) = (xs \<noteq> [])"
| "truthy (JObj kvs) = (kvs \<noteq> [])"

text \<open>\<open>for x in value\<close>: characters of a string, elements of a list, keys of a dictionary.\<close>

fun iterate :: "json \<Rightarrow> json list res" where
  "iterate (JStr s) = Inr (map (\<lambda>c. JStr [c]) s)"
| "iterate (JArr xs) = Inr xs"
| "iterate (JObj kvs) = Inr (map (\<lambda>(k, _). JStr k) kvs)"
| "iterate _ = Inl TypeError"

text \<open>A method of \<open>str\<close> called on any object: only strings have it.\<close>

fun as_str :: "json \<Rightarrow> string res" where
  "as_str (JStr s) = Inr s"
| "as_str _ = Inl AttributeError"

text \<open>
  The JSON text of a dictionary key: \<open>json.dumps\<close> writes None, Booleans and integers as
  text; lists and dictionaries cannot be keys (unhashable, a TypeError).
\<close>

fun dict_key :: "json \<Rightarrow> string res" where
  "dict_key (JStr s) = Inr s"
| "dict_key JNull = Inr ''null''"
| "dict_key (JBool b) = Inr (if b then ''true'' else ''false'')"
| "dict_key (JInt n) = Inr (show_int n)"
| "dict_key _ = Inl TypeError"

fun_cases as_str_InrE: "as_str j = Inr s"

lemma as_str_Inr: "as_str j = Inr s \<longleftrightarrow> j = JStr s"
  by (auto elim: as_str_InrE)

lemma getitem_exc: "getitem j k = Inl e \<Longrightarrow> e = KeyError \<or> e = TypeError"
  by (cases j) (auto split: option.splits)

lemma getitem_InrD: "getitem j k = Inr v \<Longrightarrow> \<exists>kvs. j = JObj kvs \<and> map_of kvs k = Some v"
  by (cases j) (auto split: option.splits)

lemma dict_key_exc: "dict_key j = Inl e \<Longrightarrow> e = TypeError"
  by (cases j) auto

lemma iterate_exc: "iterate j = Inl e \<Longrightarrow> e = TypeError"
  by (cases j) auto

end
