(* ===== verification/Similarity.thy ===== *)
theory Similarity
  imports Json
begin

section \<open>Title similarity (services/related/consumer.py)\<close>

text \<open>
  \<open>STOPWORDS\<close>, \<open>clean\<close> and \<open>similarity\<close>. The cosine over character 2-grams is the strsimpy
  package: \<open>Cosine(2).get_profile\<close> and \<open>Cosine(2).similarity_profiles\<close> are parameters, and a
  call that raises (the norm of an empty profile is zero) is the value None.
\<close>

record cosine =
  get_profile :: "string \<Rightarrow> (string \<times> nat) list"
  similarity_profiles :: "(string \<times> nat) list \<Rightarrow> (string \<times> nat) list \<Rightarrow> real option"

definition STOPWORDS :: "string list" where
  "STOPWORDS = [''a'', ''an'', ''and'', ''are'', ''as'', ''at'', ''be'', ''but'', ''by'', ''for'', ''if'', ''in'',
    ''into'', ''is'', ''it'', ''no'', ''not'', ''of'', ''on'', ''or'', ''such'', ''that'', ''the'',
    ''their'', ''then'', ''there'', ''these'', ''they'', ''this'', ''to'', ''was'', ''will'',
    ''with'', ''from'', ''how'', ''what'', ''when'', ''where'', ''who'', ''why'']"

text \<open>
  \<open>"".join(ch for ch in (text or "") if ch not in string.punctuation)\<close> of any object: the test
  \<open>ch not in string.punctuation\<close> is a substring test and raises TypeError when \<open>ch\<close> is not a
  string.
\<close>

fun keep_unpunctuated :: "json list \<Rightarrow> string res" where
  "keep_unpunctuated [] = Inr []"
| "keep_unpunctuated (JStr ch # xs) =
     try_then (keep_unpunctuated xs)
       (\<lambda>rest. Inr (if is_part ch string_punctuation then rest else ch @ rest))"
| "keep_unpunctuated (_ # xs) = Inl TypeError"

definition clean :: "json \<Rightarrow> string res" where
  "clean text =
     try_then (iterate (if truthy text then text else JStr []))
       (\<lambda>chars. try_then (keep_unpunctuated chars)
         (\<lambda>kept. Inr (join_words (filter (\<lambda>word. word \<notin> set STOPWORDS) (py_split (py_lower kept))))))"

definition cosine_similarity :: "cosine \<Rightarrow> string \<Rightarrow> string \<Rightarrow> real res" where
  "cosine_similarity C left right =
     (case similarity_profiles C (get_profile C left) (get_profile C right) of
        None \<Rightarrow> Inl ZeroDivisionError | Some score \<Rightarrow> Inr score)"

definition similarity :: "cosine \<Rightarrow> json \<Rightarrow> json \<Rightarrow> real res" where
  "similarity C left right =
     try_then (clean left) (\<lambda>left. try_then (clean right) (\<lambda>right.
       if length left < 2 \<or> length right < 2 then Inr 0
       else cosine_similarity C left right))"

subsection \<open>Cleaning a string\<close>

text \<open>What \<open>clean\<close> computes on a string, in one line.\<close>

definition clean_text :: "string \<Rightarrow> string" where
  "clean_text s = join_words (filter (\<lambda>word. word \<notin> set STOPWORDS)
     (py_split (py_lower (filter (\<lambda>ch. ch \<notin> set string_punctuation) s))))"

lemma keep_unpunctuated_chars:
  "keep_unpunctuated (map (\<lambda>c. JStr [c]) s) = Inr (filter (\<lambda>ch. ch \<notin> set string_punctuation) s)"
  by (induction s) (auto simp: is_part_single)

lemma clean_JStr [simp]: "clean (JStr s) = Inr (clean_text s)"
proof -
  have "(if truthy (JStr s) then JStr s else JStr []) = JStr s" by simp
  then show ?thesis by (simp add: clean_def clean_text_def keep_unpunctuated_chars)
qed

lemma clean_JNull [simp]: "clean JNull = Inr []"
  by (simp add: clean_def py_split_def py_lower_def)

lemma keep_unpunctuated_exc: "keep_unpunctuated xs = Inl e \<Longrightarrow> e = TypeError"
  by (induction xs rule: keep_unpunctuated.induct) (auto simp: try_then_eq_Inl_iff)

lemma clean_exc: "clean j = Inl e \<Longrightarrow> e = TypeError"
  by (auto simp: clean_def try_then_eq_Inl_iff dest: iterate_exc keep_unpunctuated_exc)

lemma filter_punctuation_join:
  assumes "\<forall>w\<in>set ws. \<forall>c\<in>set w. c \<notin> set string_punctuation"
  shows "filter (\<lambda>ch. ch \<notin> set string_punctuation) (join_words ws) = join_words ws"
proof (rule filter_True, rule ballI)
  fix c assume "c \<in> set (join_words ws)"
  then consider "c = CHR '' ''" | w where "w \<in> set ws" "c \<in> set w"
    using set_join_words by fastforce
  then show "c \<notin> set string_punctuation"
    using assms by cases (auto dest: punctuation_not_space)
qed

lemma py_lower_join:
  "(\<forall>w\<in>set ws. \<forall>c\<in>set w. lower_char c = c) \<Longrightarrow> py_lower (join_words ws) = join_words ws"
proof -
  assume a: "\<forall>w\<in>set ws. \<forall>c\<in>set w. lower_char c = c"
  have blank: "lower_char (CHR '' '') = CHR '' ''"
    by (simp add: lower_char_def is_upper_def code_def)
  have "lower_char c = c" if "c \<in> set (join_words ws)" for c
    using that a blank set_join_words[of ws] by fastforce
  then show ?thesis unfolding py_lower_def by (simp add: map_idI)
qed

lemma split_words_chars:
  "w \<in> set (split_words acc s) \<Longrightarrow> set w \<subseteq> set acc \<union> set s"
proof (induction acc s rule: split_words.induct)
  case (1 acc)
  then show ?case by (cases "acc = []") auto
next
  case (2 acc c cs)
  then show ?case by (cases "is_space c"; cases "acc = []") auto
qed

lemma py_split_chars: "w \<in> set (py_split s) \<Longrightarrow> set w \<subseteq> set s"
  using split_words_chars[of w "[]" s] by (simp add: py_split_def)

lemma clean_words:
  assumes "w \<in> set (filter P (py_split (py_lower (filter (\<lambda>ch. ch \<notin> set string_punctuation) s))))"
  shows "is_word w" and "\<forall>c\<in>set w. c \<notin> set string_punctuation" and "\<forall>c\<in>set w. lower_char c = c"
proof -
  let ?s = "py_lower (filter (\<lambda>ch. ch \<notin> set string_punctuation) s)"
  from assms have w: "w \<in> set (py_split ?s)" by simp
  then show "is_word w" by (rule py_split_words)
  from w have sub: "set w \<subseteq> set ?s" by (rule py_split_chars)
  show "\<forall>c\<in>set w. c \<notin> set string_punctuation"
    using sub by (auto simp: py_lower_def)
  show "\<forall>c\<in>set w. lower_char c = c"
    using sub by (auto simp: py_lower_def)
qed

text \<open>Cleaning a cleaned title changes nothing.\<close>

lemma clean_text_idem: "clean_text (clean_text s) = clean_text s"
proof -
  define ws where "ws = filter (\<lambda>word. word \<notin> set STOPWORDS)
     (py_split (py_lower (filter (\<lambda>ch. ch \<notin> set string_punctuation) s)))"
  have ct: "clean_text s = join_words ws" by (simp add: clean_text_def ws_def)
  have w: "is_word w" "\<forall>c\<in>set w. c \<notin> set string_punctuation" "\<forall>c\<in>set w. lower_char c = c"
    if "w \<in> set ws" for w
    using that clean_words unfolding ws_def by blast+
  have "clean_text (join_words ws) = join_words (filter (\<lambda>word. word \<notin> set STOPWORDS) ws)"
    using w by (simp add: clean_text_def filter_punctuation_join py_lower_join py_split_join)
  also have "filter (\<lambda>word. word \<notin> set STOPWORDS) ws = ws"
    by (simp add: ws_def)
  finally show ?thesis by (simp add: ct)
qed

lemma filter_dropWhile_spaces:
  "\<forall>c. is_space c \<longrightarrow> P c \<Longrightarrow>
     dropWhile is_space (filter P s) = dropWhile is_space (filter P (dropWhile is_space s))"
  by (induction s) auto

text \<open>
  White space around a title does not reach its words: this is what makes it right for
  \<open>apply_updated\<close> to compare stripped titles before it recomputes scores.
\<close>

lemma split_filter_lower_strip:
  "py_split (py_lower (filter (\<lambda>ch. ch \<notin> set string_punctuation) (py_strip s)))
   = py_split (py_lower (filter (\<lambda>ch. ch \<notin> set string_punctuation) s))"
proof -
  let ?f = "\<lambda>s. py_lower (filter (\<lambda>ch. ch \<notin> set string_punctuation) s)"
  have spaces: "\<forall>c\<in>set (?f t). is_space c" if "\<forall>c\<in>set t. is_space c" for t
    using that by (auto simp: py_lower_def)
  have front: "split_words [] (?f (dropWhile is_space s)) = split_words [] (?f s)" for s
  proof (induction s)
    case (Cons c s)
    then show ?case by (auto dest: punctuation_not_space)
  qed simp
  let ?d = "dropWhile is_space s"
  obtain t where t: "?d = py_strip s @ t" "\<forall>c\<in>set t. is_space c"
    using rev_dropWhile_spaces[of ?d] by (auto simp: py_strip_def)
  have "split_words [] (?f s) = split_words [] (?f ?d)" by (simp only: front)
  also have "?f ?d = ?f (py_strip s) @ ?f t" by (subst t(1)) simp
  also have "split_words [] (?f (py_strip s) @ ?f t) = split_words [] (?f (py_strip s))"
    by (rule split_words_spaces_after) (rule spaces[OF t(2)])
  finally show ?thesis by (simp add: py_split_def)
qed

lemma clean_text_strip: "clean_text (py_strip s) = clean_text s"
  by (simp add: clean_text_def split_filter_lower_strip)

lemma clean_text_strip_cong: "py_strip s = py_strip t \<Longrightarrow> clean_text s = clean_text t"
  using clean_text_strip by metis

subsection \<open>The score\<close>

lemma similarity_JStr:
  "similarity C (JStr s) (JStr t) =
     (if length (clean_text s) < 2 \<or> length (clean_text t) < 2 then Inr 0
      else cosine_similarity C (clean_text s) (clean_text t))"
  by (simp add: similarity_def)

text \<open>
  What the package documents of its two calls: the 2-grams of a string of two or more characters are
  not empty, and two profiles that are not empty have a similarity. It is assumed of cleaned strings
  only, because the package first makes one blank of a run of white space, which they do not have.
\<close>

definition cosine_law :: "cosine \<Rightarrow> bool" where
  "cosine_law C \<longleftrightarrow>
     (\<forall>v s. clean v = Inr s \<longrightarrow> 2 \<le> length s \<longrightarrow> get_profile C s \<noteq> []) \<and>
     (\<forall>p q. p \<noteq> [] \<longrightarrow> q \<noteq> [] \<longrightarrow> similarity_profiles C p q \<noteq> None)"

lemma cosine_similarity_total:
  assumes "cosine_law C" "clean v = Inr s" "clean w = Inr t" "2 \<le> length s" "2 \<le> length t"
  shows "\<exists>x. cosine_similarity C s t = Inr x"
proof -
  have "get_profile C s \<noteq> []" "get_profile C t \<noteq> []" using assms unfolding cosine_law_def by blast+
  with assms(1) have "similarity_profiles C (get_profile C s) (get_profile C t) \<noteq> None"
    unfolding cosine_law_def by blast
  then show ?thesis by (auto simp: cosine_similarity_def)
qed

text \<open>The score of two titles, where the score exists.\<close>

definition score :: "cosine \<Rightarrow> string \<Rightarrow> string \<Rightarrow> real" where
  "score C s t = (case similarity C (JStr s) (JStr t) of Inl _ \<Rightarrow> 0 | Inr x \<Rightarrow> x)"

lemma similarity_total:
  assumes "cosine_law C" shows "similarity C (JStr s) (JStr t) = Inr (score C s t)"
  using cosine_similarity_total[OF assms clean_JStr clean_JStr, of s t]
  by (auto simp: score_def similarity_JStr not_less)

lemma similarity_exc:
  assumes "cosine_law C" "similarity C l r = Inl e" shows "e = TypeError"
  using assms cosine_similarity_total[OF assms(1)]
  by (fastforce simp: similarity_def try_then_eq_Inl_iff not_less split: if_splits dest: clean_exc)

lemma score_strip_cong:
  "py_strip s = py_strip s' \<Longrightarrow> py_strip t = py_strip t' \<Longrightarrow> score C s t = score C s' t'"
  using clean_text_strip_cong[of s s'] clean_text_strip_cong[of t t']
  by (simp add: score_def similarity_JStr)

text \<open>Cosine similarity does not depend on the order of the two profiles.\<close>

definition cosine_symmetric :: "cosine \<Rightarrow> bool" where
  "cosine_symmetric C \<longleftrightarrow> (\<forall>p q. similarity_profiles C p q = similarity_profiles C q p)"

lemma score_sym: "cosine_symmetric C \<Longrightarrow> score C s t = score C t s"
  by (simp add: score_def similarity_JStr cosine_similarity_def cosine_symmetric_def)

text \<open>A cosine to evaluate on: the set of 2-grams, and the share of the common ones.\<close>

fun bigrams :: "string \<Rightarrow> (string \<times> nat) list" where
  "bigrams (a # b # s) = ([a, b], 1) # bigrams (b # s)"
| "bigrams _ = []"

definition shared_bigrams :: "(string \<times> nat) list \<Rightarrow> (string \<times> nat) list \<Rightarrow> real option" where
  "shared_bigrams p q = (if p = [] \<or> q = [] then None
     else Some (2 * real (card (set p \<inter> set q)) / real (card (set p) + card (set q))))"

definition bigram_cosine :: cosine where
  "bigram_cosine = \<lparr>get_profile = bigrams, similarity_profiles = shared_bigrams\<rparr>"

lemma bigram_cosine_law: "cosine_law bigram_cosine"
proof -
  have "bigrams s \<noteq> []" if "2 \<le> length s" for s
    using that by (cases s rule: bigrams.cases) auto
  then show ?thesis by (simp add: cosine_law_def bigram_cosine_def shared_bigrams_def)
qed

lemma bigram_cosine_symmetric: "cosine_symmetric bigram_cosine"
  by (auto simp: cosine_symmetric_def bigram_cosine_def shared_bigrams_def Int_commute add.commute)

subsection \<open>What holds of titles\<close>

text \<open>
  \<open>clean\<close> is idempotent: cleaning the cleaned text of any string changes nothing, so the words
  that are compared are in a normal form.
\<close>

lemma clean_idempotent:
  "try_then (clean (JStr s)) (\<lambda>c. clean (JStr c)) = clean (JStr s)"
  by (simp add: clean_text_idem)

text \<open>
  \<open>similarity\<close> returns for any two strings, and it returns 0 when a cleaned title is shorter than
  two characters, where the package would raise.
\<close>

lemma similarity_returns:
  assumes "cosine_law C"
  shows "\<exists>x. similarity C (JStr s) (JStr t) = Inr x
    \<and> (length (clean_text s) < 2 \<or> length (clean_text t) < 2 \<longrightarrow> x = 0)"
  using cosine_similarity_total[OF assms clean_JStr clean_JStr, of s t]
  by (auto simp: similarity_JStr not_less)

lemma similarity_returns_witness:
  "\<exists>x. similarity bigram_cosine (JStr ''The a'') (JStr ''kafka'') = Inr x
    \<and> (length (clean_text ''The a'') < 2 \<or> length (clean_text ''kafka'') < 2 \<longrightarrow> x = 0)"
  by (rule similarity_returns) (rule bigram_cosine_law)

text \<open>
  White space around a title does not change its similarity to any other, which is why
  \<open>apply_updated\<close> recomputes the scores only when the stripped title changes.
\<close>

lemma similarity_ignores_outer_space:
  assumes "py_strip s = py_strip s'"
  shows "similarity C (JStr s) t = similarity C (JStr s') t \<and> similarity C t (JStr s) = similarity C t (JStr s')"
  using clean_text_strip_cong[OF assms] by (simp add: similarity_def)

lemma similarity_ignores_outer_space_witness:
  "\<forall>t. similarity bigram_cosine (JStr '' kafka '') t = similarity bigram_cosine (JStr ''kafka'') t
    \<and> similarity bigram_cosine t (JStr '' kafka '') = similarity bigram_cosine t (JStr ''kafka'')"
  by (rule allI, rule similarity_ignores_outer_space) (simp add: py_strip_def is_space_def code_def)

end
