(* ===== verification/RelatedApp.thy ===== *)
theory RelatedApp
  imports Similarity Settings
begin

section \<open>The related service: models and HTTP routes (services/related/app.py)\<close>

text \<open>
  The three tables of the related database, the constraints Postgres checks when the session
  is flushed, and the read-only routes \<open>/health\<close>, \<open>/posts\<close> and \<open>/posts/<slug>\<close>.
\<close>

subsection \<open>Tables\<close>

record related_post =
  rp_id :: int
  rp_title :: string
  rp_image :: "string option"
  rp_body :: "string option"
  rp_slug :: string
  rp_related :: "(string \<times> real) list"
  rp_add_date :: timestamp

record related_revoked =
  rt_token_id :: string
  rt_user_id :: string
  rt_expires_at :: timestamp
  rt_revoked_at :: timestamp

record processed_event =
  pe_event_id :: string
  pe_topic :: string
  pe_processed_at :: timestamp

record related_db =
  rdb_posts :: "related_post list"
  rdb_revoked :: "related_revoked list"
  rdb_processed :: "processed_event list"

definition empty_related_db :: related_db where
  "empty_related_db = \<lparr>rdb_posts = [], rdb_revoked = [], rdb_processed = []\<rparr>"

text \<open>
  Column widths and uniqueness, as the columns of the three models declare them. An Integer
  column holds 32 bits.
\<close>

definition int32 :: "int \<Rightarrow> bool" where
  "int32 n \<longleftrightarrow> - 2147483648 \<le> n \<and> n < 2147483648"

definition fits :: "nat \<Rightarrow> string option \<Rightarrow> bool" where
  "fits n t = (case t of None \<Rightarrow> True | Some s \<Rightarrow> length s \<le> n)"

definition post_ok :: "related_post \<Rightarrow> bool" where
  "post_ok r \<longleftrightarrow> int32 (rp_id r) \<and> length (rp_title r) \<le> 200 \<and> fits 250 (rp_image r)
     \<and> fits 1500 (rp_body r) \<and> length (rp_slug r) \<le> 250"

definition revoked_ok :: "related_revoked \<Rightarrow> bool" where
  "revoked_ok r \<longleftrightarrow> length (rt_token_id r) \<le> 64 \<and> length (rt_user_id r) \<le> 64"

definition processed_ok :: "processed_event \<Rightarrow> bool" where
  "processed_ok r \<longleftrightarrow> length (pe_event_id r) \<le> 64 \<and> length (pe_topic r) \<le> 100"

definition related_db_ok :: "related_db \<Rightarrow> bool" where
  "related_db_ok db \<longleftrightarrow>
     list_all post_ok (rdb_posts db)
     \<and> distinct (map rp_id (rdb_posts db)) \<and> distinct (map rp_slug (rdb_posts db))
     \<and> list_all revoked_ok (rdb_revoked db) \<and> distinct (map rt_token_id (rdb_revoked db))
     \<and> list_all processed_ok (rdb_processed db) \<and> distinct (map pe_event_id (rdb_processed db))"

text \<open>
  \<open>session.flush\<close>: the pending rows are sent, and a violated constraint is raised as a
  SQLAlchemyError (IntegrityError or DataError).
\<close>

definition flush :: "related_db \<Rightarrow> related_db res" where
  "flush db = (if related_db_ok db then Inr db else Inl SQLAlchemyError)"

lemma flush_eq_Inr_iff: "flush db = Inr db' \<longleftrightarrow> db' = db \<and> related_db_ok db"
  by (auto simp: flush_def)

lemma flush_exc: "flush db = Inl e \<Longrightarrow> e = SQLAlchemyError"
  by (auto simp: flush_def split: if_splits)

lemma empty_related_db_ok [simp]: "related_db_ok empty_related_db"
  by (simp add: related_db_ok_def empty_related_db_def)

lemma related_db_ok_distinct:
  "related_db_ok db \<Longrightarrow> distinct (map rp_id (rdb_posts db))"
  "related_db_ok db \<Longrightarrow> distinct (map rp_slug (rdb_posts db))"
  "related_db_ok db \<Longrightarrow> distinct (map rt_token_id (rdb_revoked db))"
  "related_db_ok db \<Longrightarrow> distinct (map pe_event_id (rdb_processed db))"
  by (simp_all add: related_db_ok_def)

subsection \<open>Routes\<close>

text \<open>\<open>to_dict\<close> is the dictionary of a row, field by field.\<close>

datatype field = FInt int | FText "string option" | FRelated "(string \<times> real) list"
  | FDate "timestamp option"

definition to_dict :: "related_post \<Rightarrow> (string \<times> field) list" where
  "to_dict r =
     [(''id'', FInt (rp_id r)), (''title'', FText (Some (rp_title r))), (''image'', FText (rp_image r)),
      (''body'', FText (rp_body r)), (''slug'', FText (Some (rp_slug r))),
      (''related'', FRelated (rp_related r)), (''add_date'', FDate (Some (rp_add_date r)))]"

definition health :: "(string \<times> string) list response" where
  "health = Response 200 [(''status'', ''ok'')]"

definition page_limit :: "(string \<rightharpoonup> string) \<Rightarrow> int res" where
  "page_limit env = try_then (py_int (getenv env ''PAGE_SIZE'' ''100'')) (\<lambda>n. Inr (min n 500))"

text \<open>\<open>LIMIT\<close> with a negative number is an error of the database.\<close>

definition list_related_posts ::
    "(string \<rightharpoonup> string) \<Rightarrow> related_db \<Rightarrow> (string \<times> field) list list response res" where
  "list_related_posts env db =
     try_then (page_limit env) (\<lambda>limit.
       if limit < 0 then Inl SQLAlchemyError
       else Inr (Response 200 (map to_dict (take (nat limit) (rev (sort_key rp_id (rdb_posts db)))))))"

definition post_detail :: "related_db \<Rightarrow> string \<Rightarrow> (string \<times> field) list response" where
  "post_detail db slug =
     (case row_at rp_slug slug (rdb_posts db) of
        None \<Rightarrow> Response 404 [(''error'', FText (Some ''not found''))]
      | Some row \<Rightarrow> Response 200 (to_dict row))"

lemma to_dict_inj: "to_dict r = to_dict r' \<Longrightarrow> r = r'"
  by (simp add: to_dict_def)

lemma page_limit_le: "page_limit env = Inr n \<Longrightarrow> n \<le> 500"
  by (auto simp: page_limit_def try_then_eq_Inr_iff)

subsection \<open>What holds of the routes\<close>

text \<open>
  The list of posts is bounded: whatever \<open>PAGE_SIZE\<close> says, a response has at most 500 entries,
  each the dictionary of a stored post, with descending ids.
\<close>

lemma list_related_posts_bounded:
  assumes "list_related_posts env db = Inr r"
  shows "resp_status r = 200 \<and> length (resp_body r) \<le> 500 \<and>
    (\<exists>rows. resp_body r = map to_dict rows \<and> set rows \<subseteq> set (rdb_posts db)
       \<and> sorted_wrt (\<lambda>p q. rp_id p \<ge> rp_id q) rows)"
proof -
  obtain n where n: "page_limit env = Inr n"
    and r: "r = Response 200 (map to_dict (take (nat n) (rev (sort_key rp_id (rdb_posts db)))))"
    using assms by (auto simp: list_related_posts_def try_then_eq_Inr_iff split: if_splits)
  have "sorted_wrt (\<lambda>p q. rp_id p \<ge> rp_id q) (rev (sort_key rp_id (rdb_posts db)))"
    using sorted_sort_key[of rp_id "rdb_posts db"] by (simp add: sorted_wrt_rev sorted_wrt_map)
  then have "sorted_wrt (\<lambda>p q. rp_id p \<ge> rp_id q) (take (nat n) (rev (sort_key rp_id (rdb_posts db))))"
    by (rule sorted_wrt_take)
  moreover have "nat n \<le> 500" using page_limit_le[OF n] by simp
  moreover have "set (take (nat n) (rev (sort_key rp_id (rdb_posts db)))) \<subseteq> set (rdb_posts db)"
    by (metis set_rev set_sort set_take_subset)
  ultimately show ?thesis unfolding r by (intro conjI exI) simp_all
qed

lemma list_related_posts_bounded_witness:
  "list_related_posts [''PAGE_SIZE'' \<mapsto> ''9''] empty_related_db = Inr (Response 200 [])
   \<and> length (resp_body (Response 200 [] :: (string \<times> field) list list response)) \<le> 500"
proof -
  have "py_strip ''9'' = ''9''" by (simp add: py_strip_def is_space_def code_def)
  then have "py_int ''9'' = Inr 9" by (simp add: py_int_def is_digit_def code_def)
  then have "list_related_posts [''PAGE_SIZE'' \<mapsto> ''9''] empty_related_db = Inr (Response 200 [])"
    by (simp add: list_related_posts_def page_limit_def getenv_def empty_related_db_def)
  then show ?thesis using list_related_posts_bounded by blast
qed

text \<open>
  \<open>/posts/<slug>\<close> answers 200 with the fields of a stored post exactly if one has the slug, and
  404 otherwise.
\<close>

lemma post_detail_found:
  "case row_at rp_slug slug (rdb_posts db) of
     Some p \<Rightarrow> p \<in> set (rdb_posts db) \<and> rp_slug p = slug \<and> post_detail db slug = Response 200 (to_dict p)
   | None \<Rightarrow> slug \<notin> rp_slug ` set (rdb_posts db) \<and> resp_status (post_detail db slug) = 404"
  by (auto simp: post_detail_def row_at_None_iff split: option.splits dest: row_at_SomeD)

end
