(* ===== verification/IsoTime.thy ===== *)
theory IsoTime
  imports PyStrings
begin

section \<open>Reading ISO 8601 instants\<close>

text \<open>
  \<open>datetime.fromisoformat\<close> on the format the events carry: the auth service writes
  \<open>expires_at\<close> as RFC 3339 with seconds (\<open>YYYY-MM-DDTHH:MM:SSZ\<close>), and the consumer replaces
  the Z by \<open>+00:00\<close> before it parses. Strings of the shape
  \<open>YYYY-MM-DDTHH:MM:SS+HH:MM\<close> (or a minus sign) are read here; what \<open>fromisoformat\<close> makes of
  a string of any other shape (other ISO forms, or no ISO form at all) is a parameter.
  A datetime is its wall clock reading, in microseconds since the start of year 1, and its
  offset from UTC, if it has one.
\<close>

record datetime =
  wall :: timestamp
  utcoffset :: "int option"

definition is_leap :: "nat \<Rightarrow> bool" where
  "is_leap y \<longleftrightarrow> y mod 4 = 0 \<and> (y mod 100 \<noteq> 0 \<or> y mod 400 = 0)"

definition days_in_month :: "nat \<Rightarrow> nat \<Rightarrow> nat" where
  "days_in_month y m =
     (if m = 2 then (if is_leap y then 29 else 28)
      else if m = 4 \<or> m = 6 \<or> m = 9 \<or> m = 11 then 30 else 31)"

definition days_before_month :: "nat \<Rightarrow> nat \<Rightarrow> nat" where
  "days_before_month y m = sum_list (map (days_in_month y) [1..<m])"

definition days_before_year :: "nat \<Rightarrow> nat" where
  "days_before_year y = (let p = y - 1 in p * 365 + p div 4 - p div 100 + p div 400)"

definition valid_date :: "nat \<Rightarrow> nat \<Rightarrow> nat \<Rightarrow> bool" where
  "valid_date y m d \<longleftrightarrow> 1 \<le> y \<and> y \<le> 9999 \<and> 1 \<le> m \<and> m \<le> 12 \<and> 1 \<le> d \<and> d \<le> days_in_month y m"

definition wall_clock :: "nat \<Rightarrow> nat \<Rightarrow> nat \<Rightarrow> nat \<Rightarrow> nat \<Rightarrow> nat \<Rightarrow> timestamp" where
  "wall_clock y mo d h mi s =
     Timestamp (int (((days_before_year y + days_before_month y mo + (d - 1)) * 86400
       + h * 3600 + mi * 60 + s) * 1000000))"

definition digits_at :: "string \<Rightarrow> nat \<Rightarrow> nat \<Rightarrow> nat" where
  "digits_at s i n = foldl (\<lambda>a c. 10 * a + (code c - 48)) 0 (take n (drop i s))"

text \<open>The shape, with an offset that has an hour below 24 and a minute below 60.\<close>

definition rfc3339_shape :: "string \<Rightarrow> bool" where
  "rfc3339_shape s \<longleftrightarrow> length s = 25
     \<and> list_all (\<lambda>i. is_digit (s ! i)) [0,1,2,3, 5,6, 8,9, 11,12, 14,15, 17,18, 20,21, 23,24]
     \<and> s ! 4 = CHR ''-'' \<and> s ! 7 = CHR ''-'' \<and> s ! 10 = CHR ''T'' \<and> s ! 13 = CHR '':''
     \<and> s ! 16 = CHR '':'' \<and> (s ! 19 = CHR ''+'' \<or> s ! 19 = CHR ''-'') \<and> s ! 22 = CHR '':''
     \<and> digits_at s 20 2 < 24 \<and> digits_at s 23 2 < 60"

definition read_rfc3339 :: "string \<Rightarrow> datetime res" where
  "read_rfc3339 s =
     (let y = digits_at s 0 4; mo = digits_at s 5 2; d = digits_at s 8 2;
          h = digits_at s 11 2; mi = digits_at s 14 2; sec = digits_at s 17 2;
          offset = (int (digits_at s 20 2) * 60 + int (digits_at s 23 2)) * 60000000
      in if valid_date y mo d \<and> h < 24 \<and> mi < 60 \<and> sec < 60
         then Inr \<lparr>wall = wall_clock y mo d h mi sec,
                   utcoffset = Some (if s ! 19 = CHR ''-'' then - offset else offset)\<rparr>
         else Inl ValueError)"

definition fromisoformat :: "(string \<Rightarrow> datetime option) \<Rightarrow> string \<Rightarrow> datetime res" where
  "fromisoformat other s =
     (if rfc3339_shape s then read_rfc3339 s
      else (case other s of None \<Rightarrow> Inl ValueError | Some d \<Rightarrow> Inr d))"

lemma fromisoformat_exc: "fromisoformat other s = Inl e \<Longrightarrow> e = ValueError"
  by (auto simp: fromisoformat_def read_rfc3339_def Let_def split: if_splits option.splits)

text \<open>\<open>expires_at.replace("Z", "+00:00")\<close> of what the auth service writes has the shape.\<close>

lemma fromisoformat_example:
  "fromisoformat other (replace_char (CHR ''Z'') ''+00:00'' ''2026-07-22T11:31:31Z'')
   = Inr \<lparr>wall = wall_clock 2026 7 22 11 31 31, utcoffset = Some 0\<rparr>"
  by (simp add: fromisoformat_def rfc3339_shape_def read_rfc3339_def replace_char_def
      digits_at_def is_digit_def code_def valid_date_def days_in_month_def)

end
