(* ===== verification/Handlers.thy ===== *)
theory Handlers
  imports RelatedApp IsoTime
begin

section \<open>Event handlers of the related service (services/related/consumer.py)\<close>

text \<open>
  \<open>apply_created\<close>, \<open>apply_updated\<close>, \<open>apply_deleted\<close>, \<open>apply_token_revoked\<close> and the table
  \<open>HANDLERS\<close>. A handler takes the JSON payload of a message and the database as the session
  sees it, and returns the database with its pending changes, or the exception it raises. The
  session belongs to one message: \<open>handle\<close> commits what a handler returns or rolls it back,
  so a handler that raises leaves no trace.

  The libraries are parameters, collected in one record: the cosine; what \<open>session.get\<close>
  makes of a primary key that is neither an integer nor null; what the database driver makes
  of a value of another JSON type in an integer or a text column (None where it raises a
  SQLAlchemyError); \<open>fromisoformat\<close> on strings that are not RFC 3339; and the decoding of UTF-8
  bytes that are not ASCII.
\<close>

record related_lib =
  lib_cosine :: cosine
  session_ident :: "json \<Rightarrow> int option"
  adapt_int :: "json \<Rightarrow> int option"
  adapt_text :: "json \<Rightarrow> string option"
  iso_other :: "string \<Rightarrow> datetime option"
  utf8_other :: "string \<Rightarrow> string option"

subsection \<open>Values on their way to the database\<close>

definition or_db_error :: "'a option \<Rightarrow> 'a res" where
  "or_db_error x = (case x of None \<Rightarrow> Inl SQLAlchemyError | Some y \<Rightarrow> Inr y)"

definition bind_int :: "related_lib \<Rightarrow> json \<Rightarrow> int option res" where
  "bind_int L j =
     (case j of
        JNull \<Rightarrow> Inr None
      | JInt n \<Rightarrow> if int32 n then Inr (Some n) else Inl SQLAlchemyError
      | _ \<Rightarrow> try_then (or_db_error (adapt_int L j)) (\<lambda>n. Inr (Some n)))"

definition bind_text :: "related_lib \<Rightarrow> json \<Rightarrow> string option res" where
  "bind_text L j =
     (case j of
        JNull \<Rightarrow> Inr None
      | JStr s \<Rightarrow> Inr (Some s)
      | _ \<Rightarrow> try_then (or_db_error (adapt_text L j)) (\<lambda>s. Inr (Some s)))"

text \<open>\<open>db.session.get(Post, key)\<close>; a null key identifies no row.\<close>

definition get_post :: "related_lib \<Rightarrow> related_db \<Rightarrow> json \<Rightarrow> related_post option res" where
  "get_post L db key =
     (case key of
        JNull \<Rightarrow> Inr None
      | JInt n \<Rightarrow> if int32 n then Inr (row_at rp_id n (rdb_posts db)) else Inl SQLAlchemyError
      | _ \<Rightarrow> try_then (or_db_error (session_ident L key))
              (\<lambda>n. Inr (row_at rp_id n (rdb_posts db))))"

subsection \<open>The loop over the other posts\<close>

text \<open>
  The body of the loop in \<open>apply_created\<close> and \<open>apply_updated\<close>: score the other post, remember the
  score under its slug, and give it the score under this post's slug. \<open>title\<close> and \<open>slug\<close> are
  the expressions the loop evaluates in every round (\<open>payload["title"]\<close> raises KeyError there
  when it is missing); \<open>selected\<close> is the filter of the query. Returns the rows and the
  dictionary \<open>related\<close>.
\<close>

fun relate_rows :: "cosine \<Rightarrow> json res \<Rightarrow> json res \<Rightarrow> (related_post \<Rightarrow> bool)
    \<Rightarrow> related_post list \<Rightarrow> (string \<times> real) list
    \<Rightarrow> (related_post list \<times> (string \<times> real) list) res" where
  "relate_rows C title slug selected [] related = Inr ([], related)"
| "relate_rows C title slug selected (other # rest) related =
     (if selected other then
        try_then title (\<lambda>t.
        try_then (similarity C (JStr (rp_title other)) t) (\<lambda>score.
        try_then slug (\<lambda>s.
        try_then (dict_key s) (\<lambda>k.
        try_then (relate_rows C title slug selected rest (AList.update (rp_slug other) score related))
          (\<lambda>(rows, related').
             Inr (other\<lparr>rp_related := AList.update k score (rp_related other)\<rparr> # rows, related'))))))
      else
        try_then (relate_rows C title slug selected rest related)
          (\<lambda>(rows, related'). Inr (other # rows, related')))"

subsection \<open>The handlers\<close>

definition new_post :: "related_lib \<Rightarrow> timestamp \<Rightarrow> json \<Rightarrow> json \<Rightarrow> json \<Rightarrow> json \<Rightarrow> json
    \<Rightarrow> (string \<times> real) list \<Rightarrow> related_post res" where
  "new_post L now pid title img body slug related =
     try_then (try_then (bind_int L pid) or_db_error) (\<lambda>pid.
     try_then (try_then (bind_text L title) or_db_error) (\<lambda>title.
     try_then (bind_text L img) (\<lambda>img.
     try_then (bind_text L body) (\<lambda>body.
     try_then (try_then (bind_text L slug) or_db_error) (\<lambda>slug.
       Inr \<lparr>rp_id = pid, rp_title = title, rp_image = img, rp_body = body, rp_slug = slug,
            rp_related = related, rp_add_date = now\<rparr>)))))"

definition apply_created :: "related_lib \<Rightarrow> timestamp \<Rightarrow> json \<Rightarrow> related_db \<Rightarrow> related_db res" where
  "apply_created L now payload db =
     try_then (getitem payload ''id'') (\<lambda>pid.
     try_then (get_post L db pid) (\<lambda>found.
       case found of
         Some _ \<Rightarrow> Inr db
       | None \<Rightarrow>
           try_then (relate_rows (lib_cosine L) (getitem payload ''title'') (getitem payload ''slug'')
             (\<lambda>_. True) (rdb_posts db) []) (\<lambda>(rows, related).
           try_then (getitem payload ''title'') (\<lambda>title.
           try_then (get_method payload ''image'') (\<lambda>img.
           try_then (get_method payload ''body'') (\<lambda>body.
           try_then (getitem payload ''slug'') (\<lambda>slug.
           try_then (new_post L now pid title img body slug related) (\<lambda>post.
             Inr (db\<lparr>rdb_posts := rows @ [post]\<rparr>)))))))))"

definition set_post :: "related_post \<Rightarrow> related_post list \<Rightarrow> related_post list" where
  "set_post post rows = map (\<lambda>r. if rp_id r = rp_id post then post else r) rows"

text \<open>
  In \<open>apply_updated\<close> the query for the other posts flushes the assignments first (the session's
  autoflush), so a constraint they violate is raised there.
\<close>

definition apply_updated :: "related_lib \<Rightarrow> timestamp \<Rightarrow> json \<Rightarrow> related_db \<Rightarrow> related_db res" where
  "apply_updated L now payload db =
     try_then (getitem payload ''id'') (\<lambda>pid.
     try_then (get_post L db pid) (\<lambda>found.
       case found of
         None \<Rightarrow> apply_created L now payload db
       | Some post \<Rightarrow>
           try_then (getitem payload ''title'') (\<lambda>title.
           try_then (as_str title) (\<lambda>title_text.
           try_then (get_method payload ''image'') (\<lambda>img.
           try_then (get_method payload ''body'') (\<lambda>body.
           try_then (getitem payload ''slug'') (\<lambda>slug.
           try_then (bind_text L img) (\<lambda>img.
           try_then (bind_text L body) (\<lambda>body.
           try_then (try_then (bind_text L slug) or_db_error) (\<lambda>slug_text.
             let title_changed = (py_strip title_text \<noteq> py_strip (rp_title post));
                 post' = post\<lparr>rp_title := title_text, rp_image := img, rp_body := body,
                              rp_slug := slug_text\<rparr>;
                 db' = db\<lparr>rdb_posts := set_post post' (rdb_posts db)\<rparr>
             in if \<not> title_changed then Inr db'
                else
                  try_then (flush db') (\<lambda>db'.
                  try_then (relate_rows (lib_cosine L) (Inr title) (Inr slug)
                    (\<lambda>r. rp_id r \<noteq> rp_id post) (rdb_posts db') []) (\<lambda>(rows, related).
                    Inr (db'\<lparr>rdb_posts := set_post (post'\<lparr>rp_related := related\<rparr>) rows\<rparr>)))))))))))))"

text \<open>\<open>slug in current\<close>\<close>

fun in_dict :: "json \<Rightarrow> (string \<times> 'v) list \<Rightarrow> bool res" where
  "in_dict (JStr s) d = Inr (s \<in> fst ` set d)"
| "in_dict (JArr _) d = Inl TypeError"
| "in_dict (JObj _) d = Inl TypeError"
| "in_dict _ d = Inr False"

definition drop_reference :: "json \<Rightarrow> related_post \<Rightarrow> related_post res" where
  "drop_reference slug other =
     try_then (in_dict slug (rp_related other)) (\<lambda>present.
       Inr (if present
            then other\<lparr>rp_related := filter (\<lambda>(k, v). JStr k \<noteq> slug) (rp_related other)\<rparr>
            else other))"

definition apply_deleted :: "related_lib \<Rightarrow> json \<Rightarrow> related_db \<Rightarrow> related_db res" where
  "apply_deleted L payload db =
     try_then (getitem payload ''slug'') (\<lambda>slug.
     try_then (bind_text L slug) (\<lambda>text.
       let rows = (case text of
                     None \<Rightarrow> rdb_posts db
                   | Some s \<Rightarrow> (case row_at rp_slug s (rdb_posts db) of
                                  None \<Rightarrow> rdb_posts db
                                | Some post \<Rightarrow> remove1 post (rdb_posts db)))
       in try_then (each (\<lambda>other. if Some (rp_slug other) = text then Inr other
                              else drop_reference slug other) rows)
            (\<lambda>rows. Inr (db\<lparr>rdb_posts := rows\<rparr>))))"

text \<open>The bulk delete flushes the pending row first.\<close>

definition apply_token_revoked :: "related_lib \<Rightarrow> timestamp \<Rightarrow> json \<Rightarrow> related_db \<Rightarrow> related_db res" where
  "apply_token_revoked L now payload db =
     try_then (getitem payload ''expires_at'') (\<lambda>expires.
     try_then (as_str expires) (\<lambda>expires_text.
     try_then (fromisoformat (iso_other L) (replace_char (CHR ''Z'') ''+00:00'' expires_text))
       (\<lambda>expires_at.
     try_then (getitem payload ''token_id'') (\<lambda>token_id.
     try_then (bind_text L token_id) (\<lambda>token.
     try_then
       (case Option.bind token (\<lambda>t. row_at rt_token_id t (rdb_revoked db)) of
          Some _ \<Rightarrow> Inr db
        | None \<Rightarrow>
            try_then (getitem payload ''user_id'') (\<lambda>user_id.
            try_then (or_db_error token) (\<lambda>t.
            try_then (try_then (bind_text L user_id) or_db_error) (\<lambda>user.
              Inr (db\<lparr>rdb_revoked := rdb_revoked db @
                     [\<lparr>rt_token_id = t, rt_user_id = user, rt_expires_at = wall expires_at,
                       rt_revoked_at = now\<rparr>]\<rparr>)))))
       (\<lambda>db'.
     try_then (flush db') (\<lambda>db'.
       Inr (db'\<lparr>rdb_revoked := filter (\<lambda>r. \<not> rt_expires_at r \<le> now) (rdb_revoked db')\<rparr>))))))))"

definition HANDLERS :: "related_lib \<Rightarrow> timestamp \<Rightarrow> string \<Rightarrow> (json \<Rightarrow> related_db \<Rightarrow> related_db res) option" where
  "HANDLERS L now topic =
     (if topic = ''post_created'' then Some (apply_created L now)
      else if topic = ''post_updated'' then Some (apply_updated L now)
      else if topic = ''post_deleted'' then Some (apply_deleted L)
      else if topic = ''token_revoked'' then Some (apply_token_revoked L now)
      else None)"

subsection \<open>What the handlers leave alone\<close>

lemma apply_created_frame:
  "apply_created L now p db = Inr db' \<Longrightarrow>
   rdb_processed db' = rdb_processed db \<and> rdb_revoked db' = rdb_revoked db"
  by (auto simp: apply_created_def try_then_eq_Inr_iff split: option.splits prod.splits)

lemma apply_updated_frame:
  "apply_updated L now p db = Inr db' \<Longrightarrow>
   rdb_processed db' = rdb_processed db \<and> rdb_revoked db' = rdb_revoked db"
  by (auto simp: apply_updated_def Let_def try_then_eq_Inr_iff flush_eq_Inr_iff
      split: option.splits prod.splits if_splits dest!: apply_created_frame)

lemma apply_deleted_frame:
  "apply_deleted L p db = Inr db' \<Longrightarrow>
   rdb_processed db' = rdb_processed db \<and> rdb_revoked db' = rdb_revoked db"
  by (auto simp: apply_deleted_def Let_def try_then_eq_Inr_iff)

lemma apply_token_revoked_frame:
  "apply_token_revoked L now p db = Inr db' \<Longrightarrow>
   rdb_processed db' = rdb_processed db \<and> rdb_posts db' = rdb_posts db"
  by (auto simp: apply_token_revoked_def try_then_eq_Inr_iff flush_eq_Inr_iff split: option.splits)

lemma HANDLERS_frame:
  "HANDLERS L now topic = Some h \<Longrightarrow> h p db = Inr db' \<Longrightarrow> rdb_processed db' = rdb_processed db"
  by (auto simp: HANDLERS_def split: if_splits dest: apply_created_frame apply_updated_frame
      apply_deleted_frame apply_token_revoked_frame)

text \<open>A handler that returns was given a dictionary.\<close>

lemma handler_dict:
  "apply_created L now p db = Inr db' \<Longrightarrow> \<exists>kvs. p = JObj kvs"
  "apply_updated L now p db = Inr db' \<Longrightarrow> \<exists>kvs. p = JObj kvs"
  "apply_deleted L p db = Inr db' \<Longrightarrow> \<exists>kvs. p = JObj kvs"
  "apply_token_revoked L now p db = Inr db' \<Longrightarrow> \<exists>kvs. p = JObj kvs"
  unfolding apply_created_def apply_updated_def apply_deleted_def apply_token_revoked_def
  by (cases p; simp)+

lemma HANDLERS_dict: "HANDLERS L now topic = Some h \<Longrightarrow> h p db = Inr db' \<Longrightarrow> \<exists>kvs. p = JObj kvs"
  by (auto simp: HANDLERS_def split: if_splits dest: handler_dict)

end
