(* ===== verification/Relations.thy ===== *)
theory Relations
  imports Handlers
begin

section \<open>What the event handlers keep: scores between all pairs of posts\<close>

text \<open>
  The exceptions each handler can raise, what the handlers compute on the payloads that the
  posts service sends, and the contract of the \<open>related\<close> column: the dictionary of a post maps
  the slug of every other post, and nothing else, to the similarity of the two titles.
\<close>

subsection \<open>Exceptions\<close>

definition caught :: "exc set" where
  "caught = {SQLAlchemyError, KeyError, TypeError}"

lemma or_db_error_exc: "or_db_error x = Inl e \<Longrightarrow> e = SQLAlchemyError"
  by (auto simp: or_db_error_def split: option.splits)

lemma bind_int_exc: "bind_int L j = Inl e \<Longrightarrow> e = SQLAlchemyError"
  by (auto simp: bind_int_def try_then_eq_Inl_iff dest: or_db_error_exc split: json.splits if_splits)

lemma bind_text_exc: "bind_text L j = Inl e \<Longrightarrow> e = SQLAlchemyError"
  by (auto simp: bind_text_def try_then_eq_Inl_iff dest: or_db_error_exc split: json.splits)

lemma get_post_exc: "get_post L db j = Inl e \<Longrightarrow> e = SQLAlchemyError"
  by (auto simp: get_post_def try_then_eq_Inl_iff dest: or_db_error_exc split: json.splits if_splits)

lemma new_post_exc: "new_post L now pid title img body slug related = Inl e \<Longrightarrow> e = SQLAlchemyError"
  unfolding new_post_def
  by (fastforce simp: try_then_eq_Inl_iff dest: bind_int_exc bind_text_exc or_db_error_exc)

lemma in_dict_exc: "in_dict j d = Inl e \<Longrightarrow> e = TypeError"
  by (cases j) auto

lemma relate_rows_exc:
  assumes "cosine_law C" "relate_rows C title slug sel rows rel = Inl e"
  shows "title = Inl e \<or> slug = Inl e \<or> e = TypeError"
  using assms(2)
proof (induction rows arbitrary: rel)
  case (Cons other rest)
  then show ?case
    by (fastforce simp: try_then_eq_Inl_iff split: if_splits
        dest: similarity_exc[OF assms(1)] dict_key_exc)
qed simp

text \<open>\<open>.get\<close> raises only on a payload that \<open>payload["id"]\<close> already rejected.\<close>

lemma get_method_after_getitem: "getitem p k = Inr v \<Longrightarrow> get_method p k' \<noteq> Inl e"
  by (cases p) auto

lemma getitem_caught: "getitem p k = Inl e \<Longrightarrow> e \<in> caught"
  by (auto simp: caught_def dest: getitem_exc)

lemma relate_rows_getitem_caught:
  "cosine_law C \<Longrightarrow> relate_rows C (getitem p k) (getitem p k') sel rows rel = Inl e \<Longrightarrow> e \<in> caught"
  using relate_rows_exc getitem_caught by (fastforce simp: caught_def)

lemma relate_rows_Inr_caught:
  "cosine_law C \<Longrightarrow> relate_rows C (Inr t) (Inr s) sel rows rel = Inl e \<Longrightarrow> e \<in> caught"
  using relate_rows_exc by (fastforce simp: caught_def)

lemma db_errors_caught:
  "or_db_error x = Inl e \<Longrightarrow> e \<in> caught"
  "bind_int L j = Inl e \<Longrightarrow> e \<in> caught"
  "bind_text L j = Inl e \<Longrightarrow> e \<in> caught"
  "get_post L db j = Inl e \<Longrightarrow> e \<in> caught"
  "new_post L now pid title img body slug related = Inl e \<Longrightarrow> e \<in> caught"
  "flush db = Inl e \<Longrightarrow> e \<in> caught"
  "in_dict j d = Inl e \<Longrightarrow> e \<in> caught"
  by (auto simp: caught_def dest: or_db_error_exc bind_int_exc bind_text_exc get_post_exc
      new_post_exc flush_exc in_dict_exc)

lemmas caught_dests = getitem_caught db_errors_caught
lemmas loop_caught = relate_rows_getitem_caught relate_rows_Inr_caught

lemma apply_created_exc:
  assumes C: "cosine_law (lib_cosine L)" and r: "apply_created L now p db = Inl e"
  shows "e \<in> caught"
  using r unfolding apply_created_def
  by (auto simp: try_then_eq_Inl_iff split: option.splits prod.splits
      dest: get_method_after_getitem dest!: caught_dests loop_caught[OF C])

lemma drop_reference_caught: "drop_reference j other = Inl e \<Longrightarrow> e \<in> caught"
  by (auto simp: drop_reference_def try_then_eq_Inl_iff split: if_splits dest: caught_dests)

lemma apply_deleted_exc: "apply_deleted L p db = Inl e \<Longrightarrow> e \<in> caught"
  unfolding apply_deleted_def Let_def
  by (auto simp: try_then_eq_Inl_iff split: if_splits
      dest: caught_dests drop_reference_caught dest!: each_exc)

lemma as_str_eq_Inr: "as_str j = Inr s \<longleftrightarrow> j = JStr s"
  by (cases j) auto

lemma as_str_exc: "as_str j = Inl e \<Longrightarrow> e = AttributeError \<and> (\<forall>s. j \<noteq> JStr s)"
  by (cases j) auto

text \<open>An update raises an exception of another class only for a title that is not a string.\<close>

lemma apply_updated_exc:
  assumes C: "cosine_law (lib_cosine L)" and r: "apply_updated L now p db = Inl e"
  shows "e \<in> caught \<or> e = AttributeError \<and> (\<exists>t. getitem p ''title'' = Inr t \<and> (\<forall>s. t \<noteq> JStr s))"
  using r unfolding apply_updated_def Let_def
  by (auto simp: try_then_eq_Inl_iff split: option.splits if_splits prod.splits
      dest: get_method_after_getitem dest!: as_str_exc caught_dests loop_caught[OF C] apply_created_exc[OF C])

lemma apply_token_revoked_exc:
  assumes "apply_token_revoked L now p db = Inl e"
  shows "e \<in> caught
    \<or> e = AttributeError \<and> (\<exists>v. getitem p ''expires_at'' = Inr v \<and> (\<forall>s. v \<noteq> JStr s))
    \<or> e = ValueError \<and> (\<exists>s. getitem p ''expires_at'' = Inr (JStr s)
        \<and> fromisoformat (iso_other L) (replace_char (CHR ''Z'') ''+00:00'' s) = Inl e)"
  using assms unfolding apply_token_revoked_def
  by (auto simp: try_then_eq_Inl_iff as_str_eq_Inr split: option.splits
      dest!: as_str_exc caught_dests dest: fromisoformat_exc)

subsection \<open>The payloads of the posts service\<close>

text \<open>
  A payload with the five fields the handlers read, of the types the posts service gives them;
  \<open>extra\<close> is whatever else the event carries (\<open>created_at\<close> and \<open>updated_at\<close>).
\<close>

definition post_payload :: "int \<Rightarrow> string \<Rightarrow> string \<Rightarrow> string \<Rightarrow> string \<Rightarrow> (string \<times> json) list \<Rightarrow> json" where
  "post_payload pid title img body slug extra =
     JObj ([(''id'', JInt pid), (''title'', JStr title), (''image'', JStr img),
            (''body'', JStr body), (''slug'', JStr slug)] @ extra)"

lemma post_payload_fields [simp]:
  "getitem (post_payload pid title img body slug extra) ''id'' = Inr (JInt pid)"
  "getitem (post_payload pid title img body slug extra) ''title'' = Inr (JStr title)"
  "getitem (post_payload pid title img body slug extra) ''slug'' = Inr (JStr slug)"
  "get_method (post_payload pid title img body slug extra) ''image'' = Inr (JStr img)"
  "get_method (post_payload pid title img body slug extra) ''body'' = Inr (JStr body)"
  by (simp_all add: post_payload_def)

lemma bind_simps [simp]:
  "bind_text L (JStr s) = Inr (Some s)"
  "bind_int L (JInt n) = (if int32 n then Inr (Some n) else Inl SQLAlchemyError)"
  "or_db_error (Some x) = Inr x"
  "or_db_error None = Inl SQLAlchemyError"
  by (simp_all add: bind_text_def bind_int_def or_db_error_def)

lemma get_post_JInt [simp]:
  "get_post L db (JInt n) = (if int32 n then Inr (row_at rp_id n (rdb_posts db)) else Inl SQLAlchemyError)"
  by (simp add: get_post_def)

subsection \<open>The loop\<close>

definition with_score :: "cosine \<Rightarrow> string \<Rightarrow> string \<Rightarrow> related_post \<Rightarrow> related_post" where
  "with_score C slug title other =
     other\<lparr>rp_related := AList.update slug (score C (rp_title other) title) (rp_related other)\<rparr>"

definition scores :: "cosine \<Rightarrow> string \<Rightarrow> related_post list \<Rightarrow> (string \<times> real) list \<Rightarrow> (string \<times> real) list" where
  "scores C title rows related =
     fold (\<lambda>other. AList.update (rp_slug other) (score C (rp_title other) title)) rows related"

lemma with_score_fields [simp]:
  "rp_id (with_score C s t r) = rp_id r" "rp_title (with_score C s t r) = rp_title r"
  "rp_slug (with_score C s t r) = rp_slug r" "rp_image (with_score C s t r) = rp_image r"
  "rp_body (with_score C s t r) = rp_body r" "rp_add_date (with_score C s t r) = rp_add_date r"
  "map_of (rp_related (with_score C s t r)) = (map_of (rp_related r))(s \<mapsto> score C (rp_title r) t)"
  by (simp_all add: with_score_def map_of_update)

lemma relate_rows_eval:
  assumes "cosine_law C"
  shows "relate_rows C (Inr (JStr t)) (Inr (JStr s)) sel rows related
    = Inr (map (\<lambda>r. if sel r then with_score C s t r else r) rows, scores C t (filter sel rows) related)"
  by (induction rows arbitrary: related)
    (auto simp: similarity_total[OF assms] with_score_def scores_def)

lemma map_of_scores:
  "distinct (map rp_slug rows) \<Longrightarrow>
   map_of (scores C t rows related) s =
     (case row_at rp_slug s rows of None \<Rightarrow> map_of related s | Some q \<Rightarrow> Some (score C (rp_title q) t))"
proof (induction rows arbitrary: related)
  case (Cons q rows)
  have "map_of (scores C t (q # rows) related) s
      = (case row_at rp_slug s rows of
           None \<Rightarrow> map_of (AList.update (rp_slug q) (score C (rp_title q) t) related) s
         | Some q \<Rightarrow> Some (score C (rp_title q) t))"
    using Cons by (simp add: scores_def)
  moreover have "row_at rp_slug (rp_slug q) rows = None"
    using Cons.prems by (simp add: row_at_None_iff)
  ultimately show ?case
    by (cases "row_at rp_slug s rows") (auto simp: map_of_update)
qed (simp add: scores_def)

subsection \<open>The handlers on these payloads\<close>

definition created_row :: "cosine \<Rightarrow> timestamp \<Rightarrow> int \<Rightarrow> string \<Rightarrow> string \<Rightarrow> string \<Rightarrow> string
    \<Rightarrow> related_post list \<Rightarrow> related_post" where
  "created_row C now pid title img body slug rows =
     \<lparr>rp_id = pid, rp_title = title, rp_image = Some img, rp_body = Some body, rp_slug = slug,
      rp_related = scores C title rows [], rp_add_date = now\<rparr>"

lemma created_row_fields [simp]:
  "rp_id (created_row C now pid title img body slug rows) = pid"
  "rp_title (created_row C now pid title img body slug rows) = title"
  "rp_image (created_row C now pid title img body slug rows) = Some img"
  "rp_body (created_row C now pid title img body slug rows) = Some body"
  "rp_slug (created_row C now pid title img body slug rows) = slug"
  "rp_related (created_row C now pid title img body slug rows) = scores C title rows []"
  by (simp_all add: created_row_def)

lemma apply_created_eval:
  assumes "cosine_law (lib_cosine L)" "int32 pid" "row_at rp_id pid (rdb_posts db) = None"
  shows "apply_created L now (post_payload pid title img body slug extra) db =
    Inr (db\<lparr>rdb_posts := map (with_score (lib_cosine L) slug title) (rdb_posts db)
              @ [created_row (lib_cosine L) now pid title img body slug (rdb_posts db)]\<rparr>)"
  using assms by (simp add: apply_created_def relate_rows_eval new_post_def created_row_def)

lemma apply_created_known:
  assumes "int32 pid" "row_at rp_id pid (rdb_posts db) = Some r"
  shows "apply_created L now (post_payload pid title img body slug extra) db = Inr db"
  using assms by (simp add: apply_created_def)

definition updated_row :: "related_post \<Rightarrow> string \<Rightarrow> string \<Rightarrow> string \<Rightarrow> string \<Rightarrow> related_post" where
  "updated_row post title img body slug =
     post\<lparr>rp_title := title, rp_image := Some img, rp_body := Some body, rp_slug := slug\<rparr>"

lemma apply_updated_unknown:
  assumes "int32 pid" "row_at rp_id pid (rdb_posts db) = None"
  shows "apply_updated L now (post_payload pid title img body slug extra) db
    = apply_created L now (post_payload pid title img body slug extra) db"
  using assms by (simp add: apply_updated_def)

lemma apply_updated_same_title:
  assumes "int32 pid" "row_at rp_id pid (rdb_posts db) = Some post"
    and "py_strip title = py_strip (rp_title post)"
  shows "apply_updated L now (post_payload pid title img body slug extra) db
    = Inr (db\<lparr>rdb_posts := set_post (updated_row post title img body slug) (rdb_posts db)\<rparr>)"
  using assms by (simp add: apply_updated_def updated_row_def)

lemma set_post_map:
  assumes "\<And>r. rp_id (f r) = rp_id r"
  shows "set_post post (map f rows) = map (\<lambda>r. if rp_id r = rp_id post then post else f r) rows"
  using assms by (simp add: set_post_def)

lemma filter_set_post:
  "filter (\<lambda>r. rp_id r \<noteq> rp_id post) (set_post post rows) = filter (\<lambda>r. rp_id r \<noteq> rp_id post) rows"
  by (induction rows) (auto simp: set_post_def)

lemma apply_updated_new_title:
  assumes C: "cosine_law (lib_cosine L)" and "int32 pid"
    and at: "row_at rp_id pid (rdb_posts db) = Some post"
    and "py_strip title \<noteq> py_strip (rp_title post)"
    and ok: "related_db_ok (db\<lparr>rdb_posts := set_post (updated_row post title img body slug) (rdb_posts db)\<rparr>)"
  shows "apply_updated L now (post_payload pid title img body slug extra) db
    = Inr (db\<lparr>rdb_posts :=
        map (\<lambda>r. if rp_id r = pid
                 then (updated_row post title img body slug)
                        \<lparr>rp_related := scores (lib_cosine L) title (filter (\<lambda>r. rp_id r \<noteq> pid) (rdb_posts db)) []\<rparr>
                 else with_score (lib_cosine L) slug title r) (rdb_posts db)\<rparr>)"
proof -
  let ?u = "updated_row post title img body slug"
  have pid: "rp_id post = pid" using row_at_SomeD[OF at] by simp
  then have uid: "rp_id ?u = pid" by (simp add: updated_row_def)
  have filt: "filter (\<lambda>r. rp_id r \<noteq> pid) (set_post ?u (rdb_posts db)) = filter (\<lambda>r. rp_id r \<noteq> pid) (rdb_posts db)"
    using filter_set_post[of ?u] by (simp add: uid)
  have rows: "set_post (?u\<lparr>rp_related := R\<rparr>)
        (map (\<lambda>r. if rp_id r \<noteq> pid then with_score (lib_cosine L) slug title r else r) (set_post ?u (rdb_posts db)))
      = map (\<lambda>r. if rp_id r = pid then ?u\<lparr>rp_related := R\<rparr>
                 else with_score (lib_cosine L) slug title r) (rdb_posts db)" for R
    by (simp add: set_post_def uid)
  show ?thesis
    using assms(2-) pid
    unfolding apply_updated_def
    by (simp add: updated_row_def[symmetric] flush_def relate_rows_eval[OF C] filt rows)
qed

lemma drop_reference_JStr:
  "drop_reference (JStr s) other
    = Inr (other\<lparr>rp_related := filter (\<lambda>(k, v). k \<noteq> s) (rp_related other)\<rparr>)"
proof (cases "s \<in> fst ` set (rp_related other)")
  case False
  then have "filter (\<lambda>(k, v). k \<noteq> s) (rp_related other) = rp_related other"
    by (intro filter_True) (auto simp: image_iff)
  with False show ?thesis by (simp add: drop_reference_def)
qed (simp add: drop_reference_def case_prod_beta)

definition without_reference :: "string \<Rightarrow> related_post \<Rightarrow> related_post" where
  "without_reference s r = r\<lparr>rp_related := filter (\<lambda>(k, v). k \<noteq> s) (rp_related r)\<rparr>"

lemma without_reference_fields [simp]:
  "rp_id (without_reference s r) = rp_id r" "rp_title (without_reference s r) = rp_title r"
  "rp_slug (without_reference s r) = rp_slug r" "rp_image (without_reference s r) = rp_image r"
  "rp_body (without_reference s r) = rp_body r" "rp_add_date (without_reference s r) = rp_add_date r"
  "map_of (rp_related (without_reference s r)) = (map_of (rp_related r))(s := None)"
  by (simp_all add: without_reference_def map_of_filter_key)

lemma remove_slug:
  assumes "distinct (map rp_slug rows)"
  shows "(case row_at rp_slug s rows of None \<Rightarrow> rows | Some post \<Rightarrow> remove1 post rows)
    = filter (\<lambda>r. rp_slug r \<noteq> s) rows"
  using assms
proof (induction rows)
  case (Cons r rows)
  show ?case
  proof (cases "rp_slug r = s")
    case True
    with Cons.prems have "\<forall>q\<in>set rows. rp_slug q \<noteq> s" by (auto simp: image_iff)
    with True show ?thesis by (simp add: filter_True)
  next
    case False
    then have "row_at rp_slug s rows \<noteq> Some r" by (auto dest: row_at_SomeD)
    with Cons False show ?thesis by (cases "row_at rp_slug s rows") auto
  qed
qed simp

lemma apply_deleted_eval:
  assumes p: "getitem p ''slug'' = Inr (JStr s)" and d: "distinct (map rp_slug (rdb_posts db))"
  shows "apply_deleted L p db =
    Inr (db\<lparr>rdb_posts := map (without_reference s) (filter (\<lambda>r. rp_slug r \<noteq> s) (rdb_posts db))\<rparr>)"
proof -
  have "each (\<lambda>other. if rp_slug other = s then Inr other else drop_reference (JStr s) other)
        (filter (\<lambda>r. rp_slug r \<noteq> s) (rdb_posts db))
      = Inr (map (without_reference s) (filter (\<lambda>r. rp_slug r \<noteq> s) (rdb_posts db)))"
    by (rule each_pure) (auto simp: drop_reference_JStr without_reference_def)
  then show ?thesis using p d by (simp add: apply_deleted_def remove_slug)
qed

subsection \<open>The contract of the related column\<close>

definition relation_entry :: "cosine \<Rightarrow> related_post list \<Rightarrow> related_post \<Rightarrow> string \<Rightarrow> real option" where
  "relation_entry C rows p s =
     (case row_at rp_slug s rows of
        None \<Rightarrow> None
      | Some q \<Rightarrow> if rp_id q = rp_id p then None else Some (score C (rp_title p) (rp_title q)))"

definition relations_ok :: "cosine \<Rightarrow> related_post list \<Rightarrow> bool" where
  "relations_ok C rows \<longleftrightarrow> (\<forall>p\<in>set rows. \<forall>s. map_of (rp_related p) s = relation_entry C rows p s)"

lemma relations_ok_Nil [simp]: "relations_ok C []"
  by (simp add: relations_ok_def)

lemma relations_okD: "relations_ok C rows \<Longrightarrow> p \<in> set rows \<Longrightarrow>
    map_of (rp_related p) s = relation_entry C rows p s"
  by (simp add: relations_ok_def)

lemma relations_ok_map: "relations_ok C (map f rows) \<longleftrightarrow>
    (\<forall>p\<in>set rows. \<forall>s. map_of (rp_related (f p)) s = relation_entry C (map f rows) (f p) s)"
  by (simp add: relations_ok_def)

lemma relations_ok_created:
  assumes sym: "cosine_symmetric C" and ok: "relations_ok C rows"
    and d: "distinct (map rp_slug rows)"
    and new_id: "row_at rp_id pid rows = None" and new_slug: "row_at rp_slug slug rows = None"
  shows "relations_ok C (map (with_score C slug title) rows @ [created_row C now pid title img body slug rows])"
    (is "relations_ok C ?rows")
proof -
  let ?new = "created_row C now pid title img body slug rows"
  have at: "row_at rp_slug s ?rows = (case row_at rp_slug s rows of
      None \<Rightarrow> if s = slug then Some ?new else None | Some q \<Rightarrow> Some (with_score C slug title q))" for s
    by (cases "row_at rp_slug s rows") (simp_all add: row_at_append row_at_map)
  have other: "rp_id r \<noteq> pid" if "r \<in> set rows" for r
    using new_id that by (auto simp: row_at_None_iff)
  have olds: "map_of (rp_related (with_score C slug title p)) s = relation_entry C ?rows (with_score C slug title p) s"
    if p: "p \<in> set rows" for p s
    using relations_okD[OF ok p, of s] other[OF p] new_slug
    by (auto simp: relation_entry_def at split: option.splits)
  have news: "map_of (rp_related ?new) s = relation_entry C ?rows ?new s" for s
  proof (cases "row_at rp_slug s rows")
    case None
    then show ?thesis
      using map_of_scores[OF d, of C title "[]" s] by (simp add: relation_entry_def at)
  next
    case (Some q)
    then have "rp_id q \<noteq> pid" using other row_at_SomeD[OF Some] by simp
    with Some show ?thesis
      using map_of_scores[OF d, of C title "[]" s]
      by (simp add: relation_entry_def at score_sym[OF sym, of title])
  qed
  from olds news show ?thesis by (auto simp: relations_ok_def)
qed

text \<open>
  Replacing a post by one with the same id and slug keeps the contract when the dictionaries
  follow the new title.
\<close>

lemma relations_ok_same_title:
  assumes ok: "relations_ok C rows"
    and d: "distinct (map rp_id rows)"
    and post: "post \<in> set rows" and t: "py_strip title = py_strip (rp_title post)"
  shows "relations_ok C (set_post (updated_row post title img body (rp_slug post)) rows)"
proof -
  let ?u = "updated_row post title img body (rp_slug post)"
  let ?f = "\<lambda>r. if rp_id r = rp_id post then ?u else r"
  have same: "r = post" if "r \<in> set rows" "rp_id r = rp_id post" for r
    using distinct_map_inj_on_set[OF d that(1) post that(2)] .
  have set_post: "set_post ?u rows = map ?f rows"
    by (simp add: set_post_def updated_row_def)
  have slug: "rp_slug (?f r) = rp_slug r" if "r \<in> set rows" for r
    using same[OF that] by (auto simp: updated_row_def)
  have fid: "rp_id (?f r) = rp_id r" for r by (simp add: updated_row_def)
  have at: "row_at rp_slug s (map ?f rows) = map_option ?f (row_at rp_slug s rows)" for s
    by (rule row_at_map_on) (rule slug)
  have title: "py_strip (rp_title (?f r)) = py_strip (rp_title r)" if "r \<in> set rows" for r
    using same[OF that] t by (auto simp: updated_row_def)
  have "map_of (rp_related (?f p)) s = relation_entry C (map ?f rows) (?f p) s" if p: "p \<in> set rows" for p s
  proof -
    have "rp_related (?f p) = rp_related p" using same[OF p] by (auto simp: updated_row_def)
    moreover have "relation_entry C (map ?f rows) (?f p) s = relation_entry C rows p s"
    proof (cases "row_at rp_slug s rows")
      case (Some q)
      then have q: "q \<in> set rows" by (auto dest: row_at_SomeD)
      show ?thesis
        using Some score_strip_cong[OF title[OF p] title[OF q], of C]
        by (simp add: relation_entry_def at fid)
    qed (simp add: relation_entry_def at)
    ultimately show ?thesis using relations_okD[OF ok p, of s] by simp
  qed
  then show ?thesis unfolding set_post relations_ok_map by blast
qed

lemma relations_ok_new_title:
  assumes sym: "cosine_symmetric C" and ok: "relations_ok C rows"
    and d: "distinct (map rp_id rows)" and ds: "distinct (map rp_slug rows)"
    and post: "post \<in> set rows"
  shows "relations_ok C (map (\<lambda>r. if rp_id r = rp_id post
        then (updated_row post title img body (rp_slug post))
               \<lparr>rp_related := scores C title (filter (\<lambda>r. rp_id r \<noteq> rp_id post) rows) []\<rparr>
        else with_score C (rp_slug post) title r) rows)"
proof -
  let ?rest = "filter (\<lambda>r. rp_id r \<noteq> rp_id post) rows"
  let ?u = "(updated_row post title img body (rp_slug post))\<lparr>rp_related := scores C title ?rest []\<rparr>"
  let ?f = "\<lambda>r. if rp_id r = rp_id post then ?u else with_score C (rp_slug post) title r"
  have same: "r = post" if "r \<in> set rows" "rp_id r = rp_id post" for r
    using distinct_map_inj_on_set[OF d that(1) post that(2)] .
  have same_slug: "r = post" if "r \<in> set rows" "rp_slug r = rp_slug post" for r
    using distinct_map_inj_on_set[OF ds that(1) post that(2)] .
  have fid: "rp_id (?f r) = rp_id r" for r by (simp add: updated_row_def)
  have slug: "rp_slug (?f r) = rp_slug r" if "r \<in> set rows" for r
    using same[OF that] by (auto simp: updated_row_def)
  have at: "row_at rp_slug s (map ?f rows) = map_option ?f (row_at rp_slug s rows)" for s
    by (rule row_at_map_on) (rule slug)
  have rest: "row_at rp_slug s ?rest = (case row_at rp_slug s rows of None \<Rightarrow> None
      | Some r \<Rightarrow> if rp_id r \<noteq> rp_id post then Some r else None)" for s
    by (rule row_at_filter[OF ds])
  have drest: "distinct (map rp_slug ?rest)" by (rule distinct_map_filter_key[OF ds])
  have "map_of (rp_related (?f p)) s = relation_entry C (map ?f rows) (?f p) s" if p: "p \<in> set rows" for p s
  proof (cases "rp_id p = rp_id post")
    case True
    then show ?thesis
      using map_of_scores[OF drest, of C title "[]" s]
      by (auto simp: relation_entry_def at fid rest score_sym[OF sym] updated_row_def split: option.splits)
  next
    case False
    show ?thesis
    proof (cases "s = rp_slug post")
      case True
      have "row_at rp_slug s rows = Some post"
        unfolding True by (rule row_at_distinct[OF ds post])
      with True False show ?thesis by (simp add: relation_entry_def at fid updated_row_def)
    next
      case sl: False
      then have "rp_id q \<noteq> rp_id post" if "row_at rp_slug s rows = Some q" for q
        using row_at_SomeD[OF that] same by auto
      with sl False relations_okD[OF ok p, of s] show ?thesis
        by (auto simp: relation_entry_def at fid split: option.splits)
    qed
  qed
  then show ?thesis unfolding relations_ok_map by blast
qed

lemma relations_ok_deleted:
  assumes ok: "relations_ok C rows" and d: "distinct (map rp_slug rows)"
  shows "relations_ok C (map (without_reference s) (filter (\<lambda>r. rp_slug r \<noteq> s) rows))"
proof -
  let ?rows = "map (without_reference s) (filter (\<lambda>r. rp_slug r \<noteq> s) rows)"
  have at: "row_at rp_slug t ?rows = (case row_at rp_slug t rows of None \<Rightarrow> None
      | Some r \<Rightarrow> if t \<noteq> s then Some (without_reference s r) else None)" for t
    by (auto simp: row_at_map row_at_filter[OF d] split: option.splits dest: row_at_SomeD)
  have "map_of (rp_related (without_reference s p)) t = relation_entry C ?rows (without_reference s p) t"
    if "p \<in> set rows" for p t
    using relations_okD[OF ok that, of t]
    by (auto simp: relation_entry_def at split: option.splits)
  then show ?thesis unfolding relations_ok_map by auto
qed

subsection \<open>What holds of the related column\<close>

lemma apply_created_InrD:
  assumes C: "cosine_law (lib_cosine L)"
    and r: "apply_created L now (post_payload pid title img body slug extra) db = Inr db'"
  shows "db' = db \<and> row_at rp_id pid (rdb_posts db) \<noteq> None \<or>
    row_at rp_id pid (rdb_posts db) = None \<and>
    db' = db\<lparr>rdb_posts := map (with_score (lib_cosine L) slug title) (rdb_posts db)
              @ [created_row (lib_cosine L) now pid title img body slug (rdb_posts db)]\<rparr>"
proof -
  have i: "int32 pid" using r by (auto simp: apply_created_def split: if_splits)
  show ?thesis
  proof (cases "row_at rp_id pid (rdb_posts db)")
    case None
    with apply_created_eval[OF C i None] r show ?thesis by auto
  next
    case (Some q)
    with apply_created_known[OF i Some] r show ?thesis by auto
  qed
qed

lemma apply_updated_InrD:
  assumes C: "cosine_law (lib_cosine L)" and at: "row_at rp_id pid (rdb_posts db) = Some post"
    and r: "apply_updated L now (post_payload pid title img body slug extra) db = Inr db'"
  shows "rdb_posts db' =
    (if py_strip title = py_strip (rp_title post)
     then set_post (updated_row post title img body slug) (rdb_posts db)
     else map (\<lambda>r. if rp_id r = pid
                   then (updated_row post title img body slug)
                          \<lparr>rp_related := scores (lib_cosine L) title (filter (\<lambda>r. rp_id r \<noteq> pid) (rdb_posts db)) []\<rparr>
                   else with_score (lib_cosine L) slug title r) (rdb_posts db))"
proof -
  have i: "int32 pid" using r by (auto simp: apply_updated_def split: if_splits)
  show ?thesis
  proof (cases "py_strip title = py_strip (rp_title post)")
    case True
    with apply_updated_same_title[OF i at True] r show ?thesis by auto
  next
    case False
    have "related_db_ok (db\<lparr>rdb_posts := set_post (updated_row post title img body slug) (rdb_posts db)\<rparr>)"
      using r False at i
      by (auto simp: apply_updated_def updated_row_def[symmetric] flush_def Let_def split: if_splits)
    from apply_updated_new_title[OF C i at False this] r False show ?thesis by auto
  qed
qed

text \<open>A library to evaluate on: the share of common 2-grams, and no conversions.\<close>

definition plain_related_lib :: related_lib where
  "plain_related_lib = \<lparr>lib_cosine = bigram_cosine, session_ident = (\<lambda>_. None), adapt_int = (\<lambda>_. None),
     adapt_text = (\<lambda>_. None), iso_other = (\<lambda>_. None), utf8_other = (\<lambda>_. None)\<rparr>"

lemma plain_related_lib_laws [simp]:
  "cosine_law (lib_cosine plain_related_lib)" "cosine_symmetric (lib_cosine plain_related_lib)"
  by (simp_all add: plain_related_lib_def bigram_cosine_law bigram_cosine_symmetric)

text \<open>Two posts, the second created after the first.\<close>

definition one_post :: related_db where
  "one_post = empty_related_db\<lparr>rdb_posts :=
     [created_row bigram_cosine (Timestamp 0) 1 ''kafka basics'' ''i'' ''b'' ''s1'' []]\<rparr>"

definition two_posts :: related_db where
  "two_posts = one_post\<lparr>rdb_posts := map (with_score bigram_cosine ''s2'' ''kafka streams'') (rdb_posts one_post)
     @ [created_row bigram_cosine (Timestamp 0) 2 ''kafka streams'' ''i'' ''b'' ''s2'' (rdb_posts one_post)]\<rparr>"

lemma one_post_ok [simp]: "related_db_ok one_post" "relations_ok bigram_cosine (rdb_posts one_post)"
  by (simp_all add: one_post_def related_db_ok_def empty_related_db_def post_ok_def int32_def fits_def
      relations_ok_def relation_entry_def scores_def)

lemma two_posts_ok [simp]: "related_db_ok two_posts" "relations_ok bigram_cosine (rdb_posts two_posts)"
proof -
  show "related_db_ok two_posts"
    by (simp add: two_posts_def one_post_def related_db_ok_def empty_related_db_def post_ok_def int32_def fits_def)
  show "relations_ok bigram_cosine (rdb_posts two_posts)"
    unfolding two_posts_def using relations_ok_created[OF bigram_cosine_symmetric one_post_ok(2)]
    by (simp add: one_post_def)
qed

lemma second_created: "apply_created plain_related_lib (Timestamp 0) (post_payload 2 ''kafka streams'' ''i'' ''b'' ''s2'' []) one_post
    = Inr two_posts"
  using apply_created_eval[OF plain_related_lib_laws(1), of 2 one_post]
  by (simp add: two_posts_def plain_related_lib_def int32_def one_post_def)

definition renamed :: related_db where
  "renamed = two_posts\<lparr>rdb_posts :=
     set_post (updated_row (with_score bigram_cosine ''s2'' ''kafka streams'' (hd (rdb_posts one_post))) ''kafka basics'' ''i'' ''new'' ''s9'')
       (rdb_posts two_posts)\<rparr>"

lemma two_posts_at: "row_at rp_id 1 (rdb_posts two_posts) = Some (with_score bigram_cosine ''s2'' ''kafka streams'' (hd (rdb_posts one_post)))"
  by (simp add: two_posts_def one_post_def)

lemma first_renamed: "apply_updated plain_related_lib (Timestamp 0) (post_payload 1 ''kafka basics'' ''i'' ''new'' ''s9'' []) two_posts
    = Inr renamed"
  using apply_updated_same_title[OF _ two_posts_at]
  by (simp add: renamed_def int32_def one_post_def)

lemma created_keeps_relations:
  assumes "cosine_law (lib_cosine L)" "cosine_symmetric (lib_cosine L)"
    and "related_db_ok db" "relations_ok (lib_cosine L) (rdb_posts db)"
    and "apply_created L now (post_payload pid title img body slug extra) db = Inr db'" "related_db_ok db'"
  shows "relations_ok (lib_cosine L) (rdb_posts db')"
  using apply_created_InrD[OF assms(1,5)]
proof
  assume *: "row_at rp_id pid (rdb_posts db) = None \<and>
    db' = db\<lparr>rdb_posts := map (with_score (lib_cosine L) slug title) (rdb_posts db)
              @ [created_row (lib_cosine L) now pid title img body slug (rdb_posts db)]\<rparr>"
  then have "row_at rp_slug slug (rdb_posts db) = None"
    using related_db_ok_distinct(2)[OF assms(6)] by (simp add: row_at_None_iff comp_def)
  with * show ?thesis
    using relations_ok_created[OF assms(2,4) related_db_ok_distinct(2)[OF assms(3)]] by simp
qed (use assms(4) in simp)

text \<open>
  After \<open>apply_created\<close> every post scores every other post, in both directions: if the related
  column was right before, it is right afterwards.
\<close>

lemma relations_after_create:
  assumes "cosine_law (lib_cosine L)" "cosine_symmetric (lib_cosine L)"
    and "related_db_ok db" "relations_ok (lib_cosine L) (rdb_posts db)"
    and "apply_created L now (post_payload pid title img body slug extra) db = Inr db'" "related_db_ok db'"
  shows "relations_ok (lib_cosine L) (rdb_posts db')"
  by (rule created_keeps_relations[OF assms])

lemma relations_after_create_witness:
  "related_db_ok one_post \<and> apply_created plain_related_lib (Timestamp 0) (post_payload 2 ''kafka streams'' ''i'' ''b'' ''s2'' []) one_post = Inr two_posts
    \<and> relations_ok (lib_cosine plain_related_lib) (rdb_posts two_posts)"
  using relations_after_create[OF plain_related_lib_laws one_post_ok(1) _ second_created two_posts_ok(1)] second_created
  by (simp add: plain_related_lib_def)

lemma updated_keeps_relations:
  assumes "cosine_law (lib_cosine L)" "cosine_symmetric (lib_cosine L)"
    and "related_db_ok db" "relations_ok (lib_cosine L) (rdb_posts db)"
    and "apply_updated L now (post_payload pid title img body slug extra) db = Inr db'" "related_db_ok db'"
    and "\<forall>post. row_at rp_id pid (rdb_posts db) = Some post \<longrightarrow> rp_slug post = slug"
  shows "relations_ok (lib_cosine L) (rdb_posts db')"
proof (cases "row_at rp_id pid (rdb_posts db)")
  case None
  have i: "int32 pid" using assms(5) by (auto simp: apply_updated_def split: if_splits)
  have created: "apply_created L now (post_payload pid title img body slug extra) db = Inr db'"
    using assms(5) apply_updated_unknown[OF i None] by simp
  have "db' = db\<lparr>rdb_posts := map (with_score (lib_cosine L) slug title) (rdb_posts db)
              @ [created_row (lib_cosine L) now pid title img body slug (rdb_posts db)]\<rparr>"
    using apply_created_InrD[OF assms(1) created] None by auto
  moreover from this have "row_at rp_slug slug (rdb_posts db) = None"
    using related_db_ok_distinct(2)[OF assms(6)] by (simp add: row_at_None_iff comp_def)
  ultimately show ?thesis
    using relations_ok_created[OF assms(2,4) related_db_ok_distinct(2)[OF assms(3)] None] by simp
next
  case (Some post)
  note d = related_db_ok_distinct(1,2)[OF assms(3)]
  have post: "post \<in> set (rdb_posts db)" "rp_id post = pid" "rp_slug post = slug"
    using row_at_SomeD[OF Some] assms(7) Some by auto
  note same = relations_ok_same_title[OF assms(4) d(1) post(1), of title img body, unfolded post(3)]
  note new = relations_ok_new_title[OF assms(2,4) d post(1), of title img body, unfolded post(2,3)]
  show ?thesis
    unfolding apply_updated_InrD[OF assms(1) Some assms(5)] using same new by simp
qed

text \<open>
  After \<open>apply_updated\<close> for a post that keeps its slug (or a post that is not known yet) the related
  column is right, whether the title changed or not.
\<close>

lemma relations_after_update:
  assumes "cosine_law (lib_cosine L)" "cosine_symmetric (lib_cosine L)"
    and "related_db_ok db" "relations_ok (lib_cosine L) (rdb_posts db)"
    and "apply_updated L now (post_payload pid title img body slug extra) db = Inr db'" "related_db_ok db'"
    and "\<forall>post. row_at rp_id pid (rdb_posts db) = Some post \<longrightarrow> rp_slug post = slug"
  shows "relations_ok (lib_cosine L) (rdb_posts db')"
  by (rule updated_keeps_relations[OF assms])

definition same_slug_updated :: related_db where
  "same_slug_updated = two_posts\<lparr>rdb_posts :=
     set_post (updated_row (with_score bigram_cosine ''s2'' ''kafka streams'' (hd (rdb_posts one_post))) '' kafka basics'' ''i'' ''new'' ''s1'')
       (rdb_posts two_posts)\<rparr>"

lemma relations_after_update_witness:
  "relations_ok (lib_cosine plain_related_lib) (rdb_posts same_slug_updated)"
proof (rule relations_after_update[OF plain_related_lib_laws two_posts_ok(1)])
  show "relations_ok (lib_cosine plain_related_lib) (rdb_posts two_posts)"
    by (simp add: plain_related_lib_def)
  show "apply_updated plain_related_lib (Timestamp 0) (post_payload 1 '' kafka basics'' ''i'' ''new'' ''s1'' []) two_posts = Inr same_slug_updated"
    using apply_updated_same_title[OF _ two_posts_at]
    by (simp add: same_slug_updated_def int32_def one_post_def py_strip_def is_space_def code_def)
  show "related_db_ok same_slug_updated"
    by (simp add: same_slug_updated_def two_posts_def one_post_def related_db_ok_def empty_related_db_def post_ok_def
        int32_def fits_def set_post_def updated_row_def)
  show "\<forall>post. row_at rp_id 1 (rdb_posts two_posts) = Some post \<longrightarrow> rp_slug post = ''s1''"
    by (simp add: two_posts_at one_post_def)
qed

lemma deleted_keeps_relations:
  assumes "related_db_ok db" "relations_ok C (rdb_posts db)" "getitem payload ''slug'' = Inr (JStr slug)"
  shows "\<exists>db'. apply_deleted L payload db = Inr db' \<and> relations_ok C (rdb_posts db')
    \<and> (\<forall>r\<in>set (rdb_posts db'). rp_slug r \<noteq> slug \<and> map_of (rp_related r) slug = None)"
  using apply_deleted_eval[OF assms(3) related_db_ok_distinct(2)[OF assms(1)]]
    relations_ok_deleted[OF assms(2) related_db_ok_distinct(2)[OF assms(1)]]
  by auto

text \<open>
  After \<open>apply_deleted\<close> no post with the slug is left and no other post refers to it; the related
  column is right.
\<close>

lemma relations_after_delete:
  assumes "related_db_ok db" "relations_ok C (rdb_posts db)" "getitem payload ''slug'' = Inr (JStr slug)"
  shows "\<exists>db'. apply_deleted L payload db = Inr db' \<and> relations_ok C (rdb_posts db')
    \<and> (\<forall>r\<in>set (rdb_posts db'). rp_slug r \<noteq> slug \<and> map_of (rp_related r) slug = None)"
  by (rule deleted_keeps_relations[OF assms])

lemma relations_after_delete_witness:
  "\<exists>db'. apply_deleted plain_related_lib (JObj [(''slug'', JStr ''s1'')]) two_posts = Inr db' \<and> relations_ok bigram_cosine (rdb_posts db')
    \<and> (\<forall>r\<in>set (rdb_posts db'). rp_slug r \<noteq> ''s1'' \<and> map_of (rp_related r) ''s1'' = None)"
  by (rule relations_after_delete[OF two_posts_ok]) simp

text \<open>
  Renaming leaves stale entries. When an update changes the slug of a post and there is another
  post, the other one keeps its entry under the old slug, and the related column is wrong.
\<close>

lemma rename_leaves_stale_entries:
  assumes "cosine_law (lib_cosine L)" "related_db_ok db" "relations_ok (lib_cosine L) (rdb_posts db)"
    and "row_at rp_id pid (rdb_posts db) = Some post" "rp_slug post \<noteq> slug"
    and "q \<in> set (rdb_posts db)" "rp_id q \<noteq> pid"
    and "apply_updated L now (post_payload pid title img body slug extra) db = Inr db'"
  shows "\<exists>q'\<in>set (rdb_posts db'). rp_id q' = rp_id q \<and> map_of (rp_related q') (rp_slug post) \<noteq> None
    \<and> rp_slug post \<notin> rp_slug ` set (rdb_posts db')"
proof -
  let ?rows = "rdb_posts db"
  have post: "post \<in> set ?rows" "rp_id post = pid" using row_at_SomeD[OF assms(4)] by auto
  have "row_at rp_slug (rp_slug post) ?rows = Some post"
    by (rule row_at_distinct[OF related_db_ok_distinct(2)[OF assms(2)] post(1)])
  then have q: "map_of (rp_related q) (rp_slug post) \<noteq> None"
    using relations_okD[OF assms(3,6), of "rp_slug post"] post(2) assms(7) by (simp add: relation_entry_def)
  have others: "rp_slug r \<noteq> rp_slug post" if "r \<in> set ?rows" "rp_id r \<noteq> pid" for r
    using distinct_map_inj_on_set[OF related_db_ok_distinct(2)[OF assms(2)] that(1) post(1)] that(2) post(2) by auto
  show ?thesis
  proof (cases "py_strip title = py_strip (rp_title post)")
    case True
    have rows': "rdb_posts db' = set_post (updated_row post title img body slug) ?rows"
      using apply_updated_InrD[OF assms(1,4,8)] True by simp
    have ids: "rp_id (updated_row post title img body slug) = pid" "rp_slug (updated_row post title img body slug) = slug"
      using post(2) by (simp_all add: updated_row_def)
    have "q \<in> set (rdb_posts db')"
      unfolding rows' set_post_def set_map ids using assms(6,7) by (intro image_eqI[of _ _ q]) simp_all
    moreover have "rp_slug post \<notin> rp_slug ` set (rdb_posts db')"
      using others assms(5) by (auto simp: rows' set_post_def ids image_iff) metis
    ultimately show ?thesis using q by blast
  next
    case False
    let ?f = "\<lambda>r. if rp_id r = pid then (updated_row post title img body slug)
        \<lparr>rp_related := scores (lib_cosine L) title (filter (\<lambda>r. rp_id r \<noteq> pid) ?rows) []\<rparr>
        else with_score (lib_cosine L) slug title r"
    have rows': "rdb_posts db' = map ?f ?rows"
      using apply_updated_InrD[OF assms(1,4,8)] False by simp
    have "with_score (lib_cosine L) slug title q \<in> set (rdb_posts db')"
      unfolding rows' set_map using assms(6,7) by (intro image_eqI[of _ _ q]) simp_all
    moreover have "rp_slug post \<notin> rp_slug ` set (rdb_posts db')"
      using others assms(5) by (auto simp: rows' updated_row_def image_iff) metis
    moreover have "map_of (rp_related (with_score (lib_cosine L) slug title q)) (rp_slug post) \<noteq> None"
      using q by simp
    ultimately show ?thesis by (intro bexI) auto
  qed
qed

lemma rename_leaves_stale_entries_witness:
  "\<exists>q'\<in>set (rdb_posts renamed). rp_id q' = 2 \<and> map_of (rp_related q') ''s1'' \<noteq> None
    \<and> ''s1'' \<notin> rp_slug ` set (rdb_posts renamed)"
proof -
  let ?q = "created_row bigram_cosine (Timestamp 0) 2 ''kafka streams'' ''i'' ''b'' ''s2'' (rdb_posts one_post)"
  have "?q \<in> set (rdb_posts two_posts)" by (simp add: two_posts_def)
  then show ?thesis
    using rename_leaves_stale_entries[OF plain_related_lib_laws(1) two_posts_ok(1) _ two_posts_at _ _ _ first_renamed, of ?q]
    by (simp add: plain_related_lib_def one_post_def)
qed

end
