(* ===== verification/Consumer.thy ===== *)
theory Consumer
  imports Relations
begin

section \<open>The consumer of the related service (services/related/consumer.py)\<close>

text \<open>
  \<open>event_id_for\<close>, \<open>handle\<close> and the loop of \<open>main\<close>. kafka-python is not under src: what the loop
  relies on is that iterating over the consumer returns the record at the current position of
  some partition and moves that position one further, that \<open>commit()\<close> without arguments
  stores the current positions of all partitions, and that a process that starts again begins
  at the stored positions.
\<close>

record message =
  m_topic :: string
  m_partition :: nat
  m_offset :: nat
  m_headers :: "(string \<times> string option) list"
  m_value :: json

subsection \<open>Identity of a delivery\<close>

text \<open>
  \<open>bytes.decode()\<close>: ASCII bytes are their characters; other byte strings are decoded by the
  parameter, which is None where Python raises UnicodeDecodeError.
\<close>

definition decode_bytes :: "related_lib \<Rightarrow> string \<Rightarrow> string res" where
  "decode_bytes L raw =
     (if list_all (\<lambda>c. code c < 128) raw then Inr raw
      else (case utf8_other L raw of None \<Rightarrow> Inl UnicodeDecodeError | Some s \<Rightarrow> Inr s))"

text \<open>\<open>dict(headers)\<close> keeps the last value of a repeated header; an absent, null or empty
  \<open>event_id\<close> falls back to the place of the record.\<close>

definition event_id_for :: "related_lib \<Rightarrow> message \<Rightarrow> string res" where
  "event_id_for L m =
     (case map_of (rev (m_headers m)) ''event_id'' of
        Some (Some (c # cs)) \<Rightarrow> decode_bytes L (c # cs)
      | _ \<Rightarrow> Inr (m_topic m @ '':'' @ show_nat (m_partition m) @ '':'' @ show_nat (m_offset m)))"

subsection \<open>Applying one message\<close>

text \<open>The transaction: the handler of the topic, the row of processed_events, the commit.\<close>

definition run_handler :: "related_lib \<Rightarrow> timestamp \<Rightarrow> string \<Rightarrow> message \<Rightarrow> related_db \<Rightarrow> related_db res" where
  "run_handler L now event_id m db =
     (case HANDLERS L now (m_topic m) of
        None \<Rightarrow> Inl KeyError
      | Some h \<Rightarrow>
          try_then (h (m_value m) db) (\<lambda>db'.
            flush (db'\<lparr>rdb_processed := rdb_processed db' @
                      [\<lparr>pe_event_id = event_id, pe_topic = m_topic m, pe_processed_at = now\<rparr>]\<rparr>)))"

text \<open>
  \<open>handle\<close>: its result (True when the offset may be committed, or the exception that leaves it)
  and the committed database. \<open>fate\<close> says how the database serves the call. Fails: it cannot be
  reached, and the first query raises a SQLAlchemyError. Unanswered: the queries are answered, and a
  COMMIT that is sent is carried out, but the connection breaks before the answer, so that
  \<open>db.session.commit()\<close> raises a SQLAlchemyError, which is caught: False, with the database changed.
  The line that logs the slug runs after the commit. An exception that is caught rolls the session back,
  and one that is not ends it with the application context: what was not committed is gone.
\<close>

definition handle :: "related_lib \<Rightarrow> timestamp \<Rightarrow> db_fate \<Rightarrow> message \<Rightarrow> related_db \<Rightarrow> bool res \<times> related_db" where
  "handle L now fate m db =
     (case event_id_for L m of
        Inl e \<Rightarrow> (Inl e, db)
      | Inr event_id \<Rightarrow>
          if fate = Fails then (Inr False, db)
          else if row_at pe_event_id event_id (rdb_processed db) \<noteq> None then (Inr True, db)
          else
            (case run_handler L now event_id m db of
               Inr db' \<Rightarrow>
                 if fate = Unanswered then (Inr False, db')
                 else
                   (case get_method (m_value m) ''slug'' of
                      Inl e \<Rightarrow> (Inl e, db')
                    | Inr _ \<Rightarrow> (Inr True, db'))
             | Inl e \<Rightarrow> if e \<in> caught then (Inr False, db) else (Inl e, db)))"

text \<open>A message has been applied when its identity is in processed_events.\<close>

definition applied :: "related_lib \<Rightarrow> related_db \<Rightarrow> message \<Rightarrow> bool" where
  "applied L db m =
     (case event_id_for L m of
        Inl _ \<Rightarrow> False
      | Inr event_id \<Rightarrow> row_at pe_event_id event_id (rdb_processed db) \<noteq> None)"

subsection \<open>The loop of main\<close>

text \<open>
  The consumer process: the records of each partition (a topic and a number), the position it
  reads next, the offset it has committed, the database, the errors it has logged
  (\<open>failed to apply\<close>) and the flag \<open>_running\<close>. \<open>consume_one\<close> is one round of the inner loop; an
  exception ends the process, and the container starts again from the committed offsets.
\<close>

type_synonym partition = "string \<times> nat"

record consumer =
  c_log :: "partition \<Rightarrow> message list"
  c_position :: "partition \<Rightarrow> nat"
  c_committed :: "partition \<Rightarrow> nat"
  c_db :: related_db
  c_failures :: "(partition \<times> nat) list"
  c_running :: bool

definition new_consumer :: "related_db \<Rightarrow> consumer" where
  "new_consumer db = \<lparr>c_log = (\<lambda>_. []), c_position = (\<lambda>_. 0), c_committed = (\<lambda>_. 0),
     c_db = db, c_failures = [], c_running = True\<rparr>"

definition stop :: "consumer \<Rightarrow> consumer" where
  "stop c = c\<lparr>c_running := False\<rparr>"

definition restart :: "consumer \<Rightarrow> consumer" where
  "restart c = c\<lparr>c_position := c_committed c, c_running := True\<rparr>"

definition consume_one :: "related_lib \<Rightarrow> timestamp \<Rightarrow> db_fate \<Rightarrow> partition \<Rightarrow> consumer \<Rightarrow> consumer" where
  "consume_one L now up tp c =
     (let offset = c_position c tp in
      if length (c_log c tp) \<le> offset then c
      else
        (let (r, db') = handle L now up (c_log c tp ! offset) (c_db c);
             c' = c\<lparr>c_position := (c_position c)(tp := Suc offset), c_db := db'\<rparr>
         in case r of
              Inl _ \<Rightarrow> restart c'
            | Inr commit \<Rightarrow>
                if commit then c'\<lparr>c_committed := c_position c'\<rparr>
                else c'\<lparr>c_failures := c_failures c' @ [(tp, offset)]\<rparr>))"

text \<open>
  Everything that can happen to the process: a round of the loop, a signal, leaving the loop, a
  record appended by a producer, a crash between the database commit and the offset commit, a crash
  elsewhere.
\<close>

inductive consumer_step :: "related_lib \<Rightarrow> consumer \<Rightarrow> consumer \<Rightarrow> bool" for L where
  round: "c_running c \<Longrightarrow> consumer_step L c (consume_one L now up tp c)"
| signal: "consumer_step L c (stop c)"
| leave: "\<not> c_running c \<Longrightarrow> consumer_step L c (restart c)"
| append: "consumer_step L c (c\<lparr>c_log := (c_log c)(tp := c_log c tp @ [m])\<rparr>)"
| crash_before_commit: "c_position c tp < length (c_log c tp) \<Longrightarrow>
    handle L now up (c_log c tp ! c_position c tp) (c_db c) = (Inr True, db') \<Longrightarrow>
    consumer_step L c (restart (c\<lparr>c_db := db'\<rparr>))"
| crash: "consumer_step L c (restart c)"

inductive consumer_reachable :: "related_lib \<Rightarrow> consumer \<Rightarrow> bool" for L where
  start: "consumer_reachable L (new_consumer db)"
| step: "consumer_reachable L c \<Longrightarrow> consumer_step L c c' \<Longrightarrow> consumer_reachable L c'"

subsection \<open>A consumer that deduplicates\<close>

text \<open>
  \<open>redelivers seen ms ds\<close>: the deliveries \<open>ds\<close> bring the messages \<open>ms\<close> in order, each at least
  once, and anything delivered again was delivered before (as a record with the same identity).
\<close>

inductive redelivers :: "('s \<Rightarrow> 'm \<Rightarrow> bool) \<Rightarrow> 'm list \<Rightarrow> 'm list \<Rightarrow> bool" for seen where
  redelivers_Nil: "redelivers seen [] []"
| redelivers_new: "redelivers seen ms ds \<Longrightarrow> redelivers seen (ms @ [m]) (ds @ [m])"
| redelivers_again: "redelivers seen ms ds \<Longrightarrow> m \<in> set ms \<Longrightarrow> (\<And>s. seen s m \<Longrightarrow> seen s m') \<Longrightarrow>
    redelivers seen ms (ds @ [m'])"

text \<open>Delivered once each, every message is applied.\<close>

fun applies_all :: "('s \<Rightarrow> 'm \<Rightarrow> bool) \<Rightarrow> ('m \<Rightarrow> 's \<Rightarrow> 's) \<Rightarrow> 'm list \<Rightarrow> 's \<Rightarrow> bool" where
  "applies_all seen process [] s = True"
| "applies_all seen process (m # ms) s =
     (seen (process m s) m \<and> applies_all seen process ms (process m s))"

lemma applies_all_append: "applies_all seen process (xs @ ys) s =
    (applies_all seen process xs s \<and> applies_all seen process ys (fold process xs s))"
  by (induction xs arbitrary: s) auto

text \<open>
  The contract of a consumer that remembers what it has applied: a message seen before changes
  nothing, what was seen stays seen, and a message that is not seen afterwards has changed
  nothing.
\<close>

locale deduplicating =
  fixes seen :: "'s \<Rightarrow> 'm \<Rightarrow> bool"
    and process :: "'m \<Rightarrow> 's \<Rightarrow> 's"
  assumes skip: "seen s m \<Longrightarrow> process m s = s"
    and stays: "seen s m \<Longrightarrow> seen (process m' s) m"
    and all_or_nothing: "\<not> seen (process m s) m \<Longrightarrow> process m s = s"
begin

lemma stays_fold: "seen s m \<Longrightarrow> seen (fold process ms s) m"
  by (induction ms arbitrary: s) (auto intro: stays)

lemma replay_seen: "(\<forall>m\<in>set ms. seen s m) \<Longrightarrow> fold process ms s = s"
  by (induction ms arbitrary: s) (auto simp: skip)

lemma redelivery:
  assumes "seen (process m (fold process xs s)) m"
  shows "fold process (xs @ m # ys @ m # zs) s = fold process (xs @ m # ys @ zs) s"
  using stays_fold[OF assms, of ys] by (simp add: skip)

lemma rewind:
  assumes "\<forall>m\<in>set ms. seen (fold process ms s) m" "set ns \<subseteq> set ms"
  shows "fold process ns (fold process ms s) = fold process ms s"
  using assms by (intro replay_seen) auto

text \<open>
  Delivery at least once and in order has the effect of delivery exactly once, if every message
  was applied when it was delivered once.
\<close>

lemma exactly_once:
  assumes "redelivers seen ms ds" "applies_all seen process ms s"
  shows "fold process ds s = fold process ms s"
  using assms
proof (induction rule: redelivers.induct)
  case (redelivers_new ms ds m)
  then show ?case by (simp add: applies_all_append)
next
  case (redelivers_again ms ds m m')
  obtain xs ys where ms: "ms = xs @ m # ys"
    using redelivers_again.hyps(2) by (auto simp: in_set_conv_decomp)
  have "seen (process m (fold process xs s)) m"
    using redelivers_again.prems by (simp add: ms applies_all_append)
  then have "seen (fold process ms s) m" by (simp add: ms stays_fold)
  then have "seen (fold process ms s) m'" by (rule redelivers_again.hyps(3))
  with redelivers_again show ?case by (simp add: skip)
qed simp

text \<open>Delivering a message again and again until it is seen applies it once.\<close>

lemma retry_until_seen:
  assumes "seen (process m s) m"
  shows "fold process (replicate (Suc n) m) s = process m s"
  using assms by (induction n) (auto simp: skip)

end

subsection \<open>The handler keeps the contract\<close>

lemma applied_iff: "applied L db m \<longleftrightarrow>
    (\<exists>event_id. event_id_for L m = Inr event_id \<and> event_id \<in> pe_event_id ` set (rdb_processed db))"
  by (auto simp: applied_def row_at_None_iff split: sum.splits)

lemma run_handler_InrD:
  assumes "run_handler L now event_id m db = Inr db'"
  shows "related_db_ok db'"
    and "\<exists>row. pe_event_id row = event_id \<and> rdb_processed db' = rdb_processed db @ [row]"
proof -
  from assms obtain h db1 where h: "HANDLERS L now (m_topic m) = Some h" "h (m_value m) db = Inr db1"
    and f: "flush (db1\<lparr>rdb_processed := rdb_processed db1 @
      [\<lparr>pe_event_id = event_id, pe_topic = m_topic m, pe_processed_at = now\<rparr>]\<rparr>) = Inr db'"
    by (auto simp: run_handler_def try_then_eq_Inr_iff split: option.splits)
  from f show "related_db_ok db'" by (simp add: flush_eq_Inr_iff)
  from f HANDLERS_frame[OF h]
  show "\<exists>row. pe_event_id row = event_id \<and> rdb_processed db' = rdb_processed db @ [row]"
    by (auto simp: flush_eq_Inr_iff)
qed

lemma run_handler_getitem:
  assumes "run_handler L now event_id m db = Inr db'"
  shows "\<exists>kvs. m_value m = JObj kvs"
proof -
  from assms obtain h db1 where h: "HANDLERS L now (m_topic m) = Some h" "h (m_value m) db = Inr db1"
    by (auto simp: run_handler_def try_then_eq_Inr_iff split: option.splits)
  then show ?thesis by (rule HANDLERS_dict)
qed

lemma run_handler_effect:
  assumes "run_handler L now event_id m db = Inr db'"
  shows "related_db_ok db' \<and> (\<exists>h dbh. HANDLERS L now (m_topic m) = Some h \<and> h (m_value m) db = Inr dbh
    \<and> db' = dbh\<lparr>rdb_processed := rdb_processed db @
        [\<lparr>pe_event_id = event_id, pe_topic = m_topic m, pe_processed_at = now\<rparr>]\<rparr>)"
proof -
  from assms obtain h dbh where h: "HANDLERS L now (m_topic m) = Some h" "h (m_value m) db = Inr dbh"
    and f: "flush (dbh\<lparr>rdb_processed := rdb_processed dbh @
      [\<lparr>pe_event_id = event_id, pe_topic = m_topic m, pe_processed_at = now\<rparr>]\<rparr>) = Inr db'"
    by (auto simp: run_handler_def try_then_eq_Inr_iff split: option.splits)
  have "rdb_processed dbh = rdb_processed db" by (rule HANDLERS_frame[OF h])
  with h f show ?thesis by (auto simp: flush_eq_Inr_iff)
qed

text \<open>The log line after the commit cannot raise: a handler that returned has indexed the payload.\<close>

lemma run_handler_log_line:
  "run_handler L now event_id m db = Inr db' \<Longrightarrow> \<exists>v. get_method (m_value m) ''slug'' = Inr v"
  using run_handler_getitem by fastforce

text \<open>The outcomes of \<open>handle\<close>, one rule per way out.\<close>

lemma handle_cases:
  obtains
    (undecodable) e where "event_id_for L m = Inl e" "handle L now fate m db = (Inl e, db)"
  | (down) event_id where "event_id_for L m = Inr event_id" "fate = Fails" "handle L now fate m db = (Inr False, db)"
  | (skipped) "applied L db m" "fate \<noteq> Fails" "handle L now fate m db = (Inr True, db)"
  | (success) event_id db' where "event_id_for L m = Inr event_id" "fate = Works" "\<not> applied L db m"
      "run_handler L now event_id m db = Inr db'" "handle L now fate m db = (Inr True, db')"
  | (unanswered) event_id db' where "event_id_for L m = Inr event_id" "fate = Unanswered" "\<not> applied L db m"
      "run_handler L now event_id m db = Inr db'" "handle L now fate m db = (Inr False, db')"
  | (rejected) event_id e where "event_id_for L m = Inr event_id" "fate \<noteq> Fails" "\<not> applied L db m"
      "run_handler L now event_id m db = Inl e" "e \<in> caught" "handle L now fate m db = (Inr False, db)"
  | (raised) event_id e where "event_id_for L m = Inr event_id" "fate \<noteq> Fails" "\<not> applied L db m"
      "run_handler L now event_id m db = Inl e" "e \<notin> caught" "handle L now fate m db = (Inl e, db)"
proof (cases "event_id_for L m")
  case (Inl e)
  then show ?thesis by (intro undecodable) (auto simp: handle_def)
next
  case (Inr event_id)
  note ev = this
  show ?thesis
  proof (cases "fate \<noteq> Fails \<and> \<not> applied L db m")
    case False
    with ev show ?thesis
      by (cases "fate = Fails") (auto simp: handle_def applied_def intro: down skipped)
  next
    case True
    with ev have seen: "row_at pe_event_id event_id (rdb_processed db) = None"
      by (simp add: applied_def)
    show ?thesis
    proof (cases "run_handler L now event_id m db")
      case (Inl e)
      with ev True seen show ?thesis
        by (cases "e \<in> caught") (auto simp: handle_def intro: rejected raised)
    next
      case (Inr db')
      note run = this
      obtain v where "get_method (m_value m) ''slug'' = Inr v" using run_handler_log_line[OF Inr] by blast
      with ev True seen run have "handle L now fate m db = (Inr (fate = Works), db')"
        by (cases fate) (simp_all add: handle_def)
      with ev True run show ?thesis by (cases fate) (auto intro: success unanswered)
    qed
  qed
qed

text \<open>An answer lost changes what the caller hears, not what happens to the database.\<close>

lemma handle_effect:
  "snd (handle L now fate m db) = db \<or> handle L now Works m db = (Inr True, snd (handle L now fate m db))"
proof (cases rule: handle_cases[of L m now fate db])
  case (unanswered event_id db')
  then show ?thesis
    by (cases rule: handle_cases[of L m now Works db]) auto
qed auto

lemma handle_skip: "applied L db m \<Longrightarrow> snd (handle L now up m db) = db"
  by (cases rule: handle_cases[of L m now up db]) auto

lemma handle_processed_mono:
  "set (rdb_processed db) \<subseteq> set (rdb_processed (snd (handle L now up m db)))"
  by (cases rule: handle_cases[of L m now up db]) (auto dest!: run_handler_InrD(2))

lemma handle_stays: "applied L db m \<Longrightarrow> applied L (snd (handle L now up m' db)) m"
  using handle_processed_mono[of db L now up m'] by (auto simp: applied_iff)

lemma handle_True_applied:
  "handle L now up m db = (Inr True, db') \<Longrightarrow> applied L db' m"
  by (cases rule: handle_cases[of L m now up db]) (auto simp: applied_iff dest!: run_handler_InrD(2))

lemma handle_raised: "handle L now up m db = (Inl e, db') \<Longrightarrow> db' = db"
  by (cases rule: handle_cases[of L m now up db]) auto

lemma handle_all_or_nothing:
  "\<not> applied L (snd (handle L now up m db)) m \<Longrightarrow> snd (handle L now up m db) = db"
  using handle_effect[of L now up m db] handle_True_applied by blast

text \<open>Handling a message adds no identity but its own.\<close>

lemma handle_new_ids:
  assumes "applied L (snd (handle L now fate m db)) m'"
  shows "applied L db m' \<or> event_id_for L m' = event_id_for L m"
proof (cases rule: handle_cases[of L m now fate db])
  case (success event_id db')
  with assms show ?thesis by (auto simp: applied_iff dest!: run_handler_InrD(2))
next
  case (unanswered event_id db')
  with assms show ?thesis by (auto simp: applied_iff dest!: run_handler_InrD(2))
qed (use assms in auto)

lemma handle_db_ok: "related_db_ok db \<Longrightarrow> related_db_ok (snd (handle L now up m db))"
  by (cases rule: handle_cases[of L m now up db]) (auto dest: run_handler_InrD(1))

text \<open>A delivery: the clock, what becomes of the transaction, the message.\<close>

type_synonym delivery = "timestamp \<times> db_fate \<times> message"

definition deliver :: "related_lib \<Rightarrow> delivery \<Rightarrow> related_db \<Rightarrow> related_db" where
  "deliver L d db = (case d of (now, up, m) \<Rightarrow> snd (handle L now up m db))"

definition delivered :: "related_lib \<Rightarrow> related_db \<Rightarrow> delivery \<Rightarrow> bool" where
  "delivered L db d = (case d of (now, up, m) \<Rightarrow> applied L db m)"

interpretation consumer: deduplicating "delivered L" "deliver L" for L
  by unfold_locales
    (auto simp: delivered_def deliver_def handle_skip handle_stays
      dest: handle_all_or_nothing split: prod.splits)

subsection \<open>The invariant of the loop\<close>

text \<open>
  Every record below the position has been applied or its failure has been logged; the committed
  offset is never ahead of the position.
\<close>

definition settled :: "related_lib \<Rightarrow> consumer \<Rightarrow> partition \<Rightarrow> nat \<Rightarrow> bool" where
  "settled L c tp offset \<longleftrightarrow> applied L (c_db c) (c_log c tp ! offset) \<or> (tp, offset) \<in> set (c_failures c)"

definition consumer_inv :: "related_lib \<Rightarrow> consumer \<Rightarrow> bool" where
  "consumer_inv L c \<longleftrightarrow> (\<forall>tp. c_committed c tp \<le> c_position c tp \<and> c_position c tp \<le> length (c_log c tp)
     \<and> (\<forall>offset < c_position c tp. settled L c tp offset))"

lemma consumer_invD:
  assumes "consumer_inv L c"
  shows "c_committed c tp \<le> c_position c tp" "c_position c tp \<le> length (c_log c tp)"
    "offset < c_position c tp \<Longrightarrow> settled L c tp offset"
  using assms[unfolded consumer_inv_def, THEN spec, of tp] by blast+

lemma consumer_inv_restart: "consumer_inv L c \<Longrightarrow> consumer_inv L (restart c)"
proof -
  assume "consumer_inv L c"
  note inv = consumer_invD[OF this]
  have "c_committed c tp \<le> length (c_log c tp)" for tp using inv(1,2) by (rule le_trans)
  moreover have "settled L c tp offset" if "offset < c_committed c tp" for tp offset
    by (rule inv(3)) (rule order_less_le_trans[OF that inv(1)])
  ultimately show ?thesis by (simp add: consumer_inv_def restart_def settled_def)
qed

lemma consumer_inv_db:
  assumes "consumer_inv L c" "\<And>m. applied L (c_db c) m \<Longrightarrow> applied L db' m"
  shows "consumer_inv L (c\<lparr>c_db := db'\<rparr>)"
  using assms by (fastforce simp: consumer_inv_def settled_def)

lemma consumer_inv_append:
  assumes "consumer_inv L c"
  shows "consumer_inv L (c\<lparr>c_log := (c_log c)(tp := c_log c tp @ [m])\<rparr>)"
proof -
  have "off < length (c_log c tp)" if "off < c_position c tp" for off
    using assms that by (meson consumer_inv_def order_less_le_trans)
  with assms show ?thesis
    by (auto simp: consumer_inv_def settled_def nth_append intro: le_SucI)
qed

lemma consumer_inv_advance:
  assumes inv: "consumer_inv L c" and off: "c_position c tp < length (c_log c tp)"
    and mono: "\<And>m. applied L (c_db c) m \<Longrightarrow> applied L db' m"
    and now_settled: "applied L db' (c_log c tp ! c_position c tp) \<or> (tp, c_position c tp) \<in> set fs"
    and fs: "set (c_failures c) \<subseteq> set fs"
  shows "consumer_inv L (c\<lparr>c_position := (c_position c)(tp := Suc (c_position c tp)), c_db := db', c_failures := fs\<rparr>)"
  unfolding consumer_inv_def settled_def
proof (intro allI conjI impI)
  let ?c = "c\<lparr>c_position := (c_position c)(tp := Suc (c_position c tp)), c_db := db', c_failures := fs\<rparr>"
  fix tp'
  show "c_committed ?c tp' \<le> c_position ?c tp'"
    using inv[unfolded consumer_inv_def, THEN spec, of tp'] by auto
  show "c_position ?c tp' \<le> length (c_log ?c tp')"
    using inv[unfolded consumer_inv_def, THEN spec, of tp'] off by auto
  fix offset assume "offset < c_position ?c tp'"
  then consider "offset < c_position c tp'" | "tp' = tp" "offset = c_position c tp"
    by (cases "tp' = tp") (auto simp: less_Suc_eq)
  then show "applied L (c_db ?c) (c_log ?c tp' ! offset) \<or> (tp', offset) \<in> set (c_failures ?c)"
  proof cases
    case 1
    then have "settled L c tp' offset" by (rule consumer_invD(3)[OF inv])
    then show ?thesis using mono fs by (auto simp: settled_def)
  next
    case 2
    then show ?thesis using now_settled by simp
  qed
qed

lemma consumer_inv_commit: "consumer_inv L c \<Longrightarrow> consumer_inv L (c\<lparr>c_committed := c_position c\<rparr>)"
  by (auto simp: consumer_inv_def settled_def)

lemma consume_one_inv:
  assumes inv: "consumer_inv L c" shows "consumer_inv L (consume_one L now up tp c)"
proof (cases "length (c_log c tp) \<le> c_position c tp")
  case True
  with inv show ?thesis by (simp add: consume_one_def)
next
  case False
  then have off: "c_position c tp < length (c_log c tp)" by simp
  let ?m = "c_log c tp ! c_position c tp"
  obtain r db' where h: "handle L now up ?m (c_db c) = (r, db')" by fastforce
  have mono: "applied L db' m" if "applied L (c_db c) m" for m
    using handle_stays[OF that, of now up ?m] h by simp
  have same: "c\<lparr>c_failures := c_failures c\<rparr> = c" by simp
  show ?thesis
  proof (cases "\<exists>b. r = Inr b")
    case False
    then obtain e where r: "r = Inl e" by (cases r) auto
    have "db' = c_db c" using handle_raised h r by blast
    then have "consume_one L now up tp c = restart c"
      using h r off by (simp add: consume_one_def restart_def)
    then show ?thesis using consumer_inv_restart[OF inv] by simp
  next
    case True
    then obtain b where r: "r = Inr b" by blast
    show ?thesis
    proof (cases b)
      case True
      with h r have "handle L now up ?m (c_db c) = (Inr True, db')" by simp
      then have "applied L db' ?m" by (rule handle_True_applied)
      then have "consumer_inv L (c\<lparr>c_position := (c_position c)(tp := Suc (c_position c tp)), c_db := db',
          c_failures := c_failures c\<rparr>)"
        by (intro consumer_inv_advance[OF inv off]) (auto intro: mono)
      from consumer_inv_commit[OF this] show ?thesis
        using h r True off by (simp add: consume_one_def Let_def)
    next
      case False
      have "consumer_inv L (c\<lparr>c_position := (c_position c)(tp := Suc (c_position c tp)), c_db := db',
          c_failures := c_failures c @ [(tp, c_position c tp)]\<rparr>)"
        by (intro consumer_inv_advance[OF inv off]) (auto intro: mono)
      then show ?thesis using h r False off by (simp add: consume_one_def Let_def)
    qed
  qed
qed

lemma consumer_step_inv: "consumer_step L c c' \<Longrightarrow> consumer_inv L c \<Longrightarrow> consumer_inv L c'"
proof (induction rule: consumer_step.induct)
  case (crash_before_commit c tp now up db')
  have "applied L db' m" if "applied L (c_db c) m" for m
    using handle_stays[OF that] crash_before_commit.hyps(2) by (metis snd_conv)
  then show ?case
    using consumer_inv_db[OF crash_before_commit.prems] consumer_inv_restart by blast
next
  case (signal c)
  then show ?case by (simp add: consumer_inv_def stop_def settled_def)
qed (auto intro: consume_one_inv consumer_inv_restart consumer_inv_append)

lemma consumer_reachable_inv: "consumer_reachable L c \<Longrightarrow> consumer_inv L c"
proof (induction rule: consumer_reachable.induct)
  case (start db)
  show ?case by (simp add: consumer_inv_def new_consumer_def)
next
  case (step c c')
  then show ?case by (blast intro: consumer_step_inv)
qed

text \<open>
  Whatever happens to the process, the constraints of its database hold, no committed offset goes
  back, and the database changes only by applying a record.
\<close>

inductive_cases consumer_stepE: "consumer_step L c c'"

lemma consume_one_db:
  "c_db (consume_one L now up tp c) = c_db c \<or>
   handle L now Works (c_log c tp ! c_position c tp) (c_db c) = (Inr True, c_db (consume_one L now up tp c))"
proof (cases "length (c_log c tp) \<le> c_position c tp")
  case False
  then have "c_db (consume_one L now up tp c) = snd (handle L now up (c_log c tp ! c_position c tp) (c_db c))"
    by (auto simp: consume_one_def restart_def Let_def split: prod.splits sum.splits)
  with handle_effect[of L now up "c_log c tp ! c_position c tp" "c_db c"] show ?thesis by simp
qed (simp add: consume_one_def)

text \<open>A step applies at most one record of the log.\<close>

lemma consume_one_log [simp]: "c_log (consume_one L now up tp c) = c_log c"
  by (auto simp: consume_one_def restart_def Let_def split: prod.splits sum.splits)

lemma consume_one_applies:
  "c_db (consume_one L now up tp c) = c_db c \<or>
   (\<exists>m\<in>set (c_log c tp). handle L now Works m (c_db c) = (Inr True, c_db (consume_one L now up tp c)))"
proof (cases "c_position c tp < length (c_log c tp)")
  case True
  then show ?thesis using consume_one_db[of L now up tp c] nth_mem by blast
qed (simp add: consume_one_def)

lemma consumer_step_applies:
  assumes "consumer_step L c c'"
  shows "c_db c' = c_db c \<or> (\<exists>tp. \<exists>m\<in>set (c_log c tp). \<exists>now up. handle L now up m (c_db c) = (Inr True, c_db c'))"
  using assms
proof (rule consumer_stepE)
  fix now up tp assume "c' = consume_one L now up tp c"
  then show ?thesis using consume_one_applies by blast
next
  fix tp now up db' assume c': "c' = restart (c\<lparr>c_db := db'\<rparr>)" and off: "c_position c tp < length (c_log c tp)"
    and h: "handle L now up (c_log c tp ! c_position c tp) (c_db c) = (Inr True, db')"
  have "c_db c' = db'" by (simp add: c' restart_def)
  with h nth_mem[OF off] show ?thesis by blast
qed (simp_all add: stop_def restart_def)

lemma consumer_step_db_ok: "consumer_step L c c' \<Longrightarrow> related_db_ok (c_db c) \<Longrightarrow> related_db_ok (c_db c')"
  using consumer_step_applies[of L c c'] handle_db_ok by (metis snd_conv)

lemma consumer_reachable_committed_mono:
  assumes "consumer_step L c c'" "consumer_inv L c"
  shows "c_committed c tp \<le> c_committed c' tp"
  using assms(1)
proof (rule consumer_stepE)
  fix now up tp' assume c': "c' = consume_one L now up tp' c"
  have "c_committed c tp \<le> c_position c tp" by (rule consumer_invD(1)[OF assms(2)])
  then show ?thesis
    by (auto simp: c' consume_one_def restart_def Let_def split: prod.splits sum.splits)
qed (simp_all add: stop_def restart_def)

text \<open>What can leave \<open>handle\<close> as an exception, by topic.\<close>

lemma handle_exc:
  assumes "cosine_law (lib_cosine L)" "handle L now up m db = (Inl e, db')"
  shows "db' = db \<and>
    (event_id_for L m = Inl e \<and> e = UnicodeDecodeError
     \<or> m_topic m = ''post_updated'' \<and> e = AttributeError \<and> (\<exists>t. getitem (m_value m) ''title'' = Inr t \<and> (\<forall>s. t \<noteq> JStr s))
     \<or> m_topic m = ''token_revoked'' \<and>
         (e = AttributeError \<and> (\<exists>v. getitem (m_value m) ''expires_at'' = Inr v \<and> (\<forall>s. v \<noteq> JStr s))
          \<or> e = ValueError \<and> (\<exists>s. getitem (m_value m) ''expires_at'' = Inr (JStr s)
              \<and> fromisoformat (iso_other L) (replace_char (CHR ''Z'') ''+00:00'' s) = Inl e)))"
proof (cases rule: handle_cases[of L m now up db])
  case (undecodable e')
  then show ?thesis
    using assms(2) by (auto simp: event_id_for_def decode_bytes_def split: option.splits list.splits if_splits)
next
  case (raised event_id e')
  have e: "e' = e" using assms(2) raised(6) by simp
  have uncaught: "e \<notin> caught" "run_handler L now event_id m db = Inl e" using raised(4,5) by (simp_all add: e)
  then obtain h where h: "HANDLERS L now (m_topic m) = Some h"
    by (auto simp: run_handler_def caught_def split: option.splits)
  have r: "h (m_value m) db = Inl e"
    using uncaught h by (auto simp: run_handler_def try_then_eq_Inl_iff dest!: db_errors_caught(6))
  have same: "db' = db" by (rule handle_raised[OF assms(2)])
  from h consider "m_topic m = ''post_created''" "h = apply_created L now" | "m_topic m = ''post_updated''" "h = apply_updated L now"
    | "m_topic m = ''post_deleted''" "h = apply_deleted L" | "m_topic m = ''token_revoked''" "h = apply_token_revoked L now"
    by (auto simp: HANDLERS_def split: if_splits)
  then show ?thesis
  proof cases
    case 1
    with r uncaught(1) show ?thesis using apply_created_exc[OF assms(1)] by blast
  next
    case 2
    with r uncaught(1) have "e = AttributeError \<and> (\<exists>t. getitem (m_value m) ''title'' = Inr t \<and> (\<forall>s. t \<noteq> JStr s))"
      using apply_updated_exc[OF assms(1)] by blast
    with 2 same show ?thesis by blast
  next
    case 3
    with r uncaught(1) show ?thesis using apply_deleted_exc by blast
  next
    case 4
    with r have "apply_token_revoked L now (m_value m) db = Inl e" by simp
    from apply_token_revoked_exc[OF this] uncaught(1) 4(1) same show ?thesis by blast
  qed
qed (use assms(2) in auto)

subsection \<open>What holds of the consumer\<close>

definition sample_message :: "json \<Rightarrow> message" where
  "sample_message v = \<lparr>m_topic = ''post_deleted'', m_partition = 0, m_offset = 0,
     m_headers = [(''event_id'', Some ''u1'')], m_value = v\<rparr>"

lemma sample_event_id [simp]: "event_id_for L (sample_message v) = Inr ''u1''"
  by (simp add: event_id_for_def sample_message_def decode_bytes_def code_def)

definition sample_db :: related_db where
  "sample_db = empty_related_db\<lparr>rdb_processed := [\<lparr>pe_event_id = ''u1'', pe_topic = ''post_deleted'', pe_processed_at = Timestamp 5\<rparr>]\<rparr>"

lemma sample_run_handler:
  "run_handler L (Timestamp 5) ''u1'' (sample_message (JObj [(''slug'', JStr ''a'')])) empty_related_db = Inr sample_db"
proof -
  have del: "apply_deleted L (JObj [(''slug'', JStr ''a'')]) empty_related_db = Inr empty_related_db"
    by (simp add: apply_deleted_eval empty_related_db_def)
  have "related_db_ok sample_db"
    by (simp add: sample_db_def related_db_ok_def empty_related_db_def processed_ok_def)
  then show ?thesis
    by (simp add: run_handler_def sample_message_def HANDLERS_def del[unfolded empty_related_db_def] flush_def
        sample_db_def empty_related_db_def)
qed

lemma sample_handle:
  "handle L (Timestamp 5) Works (sample_message (JObj [(''slug'', JStr ''a'')])) empty_related_db = (Inr True, sample_db)"
  by (simp add: handle_def sample_run_handler sample_message_def[of "JObj [(''slug'', JStr ''a'')]", THEN arg_cong[where f = m_value]]
      empty_related_db_def[THEN arg_cong[where f = rdb_processed]])

lemma sample_handle_unanswered:
  "handle L (Timestamp 5) Unanswered (sample_message (JObj [(''slug'', JStr ''a'')])) empty_related_db = (Inr False, sample_db)"
  by (simp add: handle_def sample_run_handler empty_related_db_def[THEN arg_cong[where f = rdb_processed]])

text \<open>
  C27: Applying a message is atomic, whatever happens to the database. Either \<open>handle\<close> leaves the
  database as it was, and returns True only if the message was applied before; or the message was
  new, and everything the handler of its topic did is stored together with exactly one row of
  processed_events, under the id of the message. In the second case \<open>handle\<close> returns True, or False
  when the commit was carried out and its answer lost; it never raises.
\<close>

theorem handle_atomic:
  "case handle L now fate m db of (r, db') \<Rightarrow>
     db' = db \<and> (r = Inr True \<and> applied L db m \<or> r = Inr False \<or> (\<exists>e. r = Inl e))
   \<or> (\<exists>u h dbh. event_id_for L m = Inr u \<and> u \<notin> pe_event_id ` set (rdb_processed db)
        \<and> HANDLERS L now (m_topic m) = Some h \<and> h (m_value m) db = Inr dbh
        \<and> db' = dbh\<lparr>rdb_processed := rdb_processed db @
            [\<lparr>pe_event_id = u, pe_topic = m_topic m, pe_processed_at = now\<rparr>]\<rparr>
        \<and> related_db_ok db' \<and> applied L db' m
        \<and> (r = Inr True \<and> fate = Works \<or> r = Inr False \<and> fate = Unanswered))"
proof (cases rule: handle_cases[of L m now fate db])
  case (success event_id db')
  with handle_True_applied[OF success(5)] run_handler_effect[OF success(4)] show ?thesis
    by (auto simp: applied_iff)
next
  case (unanswered event_id db')
  then have "applied L db' m" by (auto simp: applied_iff dest!: run_handler_InrD(2))
  with unanswered run_handler_effect[OF unanswered(4)] show ?thesis
    by (auto simp: applied_iff)
qed auto

theorem handle_atomic_witness:
  "handle plain_related_lib (Timestamp 5) Unanswered (sample_message (JObj [(''slug'', JStr ''a'')])) empty_related_db = (Inr False, sample_db)
   \<and> applied plain_related_lib sample_db (sample_message (JObj [(''slug'', JStr ''a'')]))
   \<and> apply_deleted plain_related_lib (JObj [(''slug'', JStr ''a'')]) empty_related_db = Inr empty_related_db"
proof -
  have h: "handle plain_related_lib (Timestamp 5) Unanswered (sample_message (JObj [(''slug'', JStr ''a'')])) empty_related_db
      = (Inr False, sample_db)"
    by (rule sample_handle_unanswered)
  have new: "sample_db \<noteq> empty_related_db" by (simp add: sample_db_def empty_related_db_def)
  have del: "apply_deleted plain_related_lib (JObj [(''slug'', JStr ''a'')]) empty_related_db = Inr empty_related_db"
    by (simp add: apply_deleted_eval empty_related_db_def)
  show ?thesis
    using handle_atomic[where L = plain_related_lib and now = "Timestamp 5" and fate = Unanswered
        and m = "sample_message (JObj [(''slug'', JStr ''a'')])" and db = empty_related_db]
      h new del by auto
qed

text \<open>
  C28: A message that was applied is not applied again: whatever is delivered in between, \<open>handle\<close>
  returns True for it, unless the database cannot be reached, and leaves the database as it is.
\<close>

theorem handle_idempotent:
  assumes "handle L now fate m db = (Inr True, db1)"
  shows "handle L now' fate' m (fold (deliver L) ds db1) = (Inr (fate' \<noteq> Fails), fold (deliver L) ds db1)"
proof -
  have "delivered L db1 (now, fate, m)"
    using handle_True_applied[OF assms] by (simp add: delivered_def)
  then have "delivered L (fold (deliver L) ds db1) (now, fate, m)" by (rule consumer.stays_fold)
  then have "applied L (fold (deliver L) ds db1) m" by (simp add: delivered_def)
  then show ?thesis
    by (cases rule: handle_cases[of L m now' fate' "fold (deliver L) ds db1"]) (auto simp: applied_iff)
qed

theorem handle_idempotent_witness:
  "handle plain_related_lib (Timestamp 8) Works (sample_message (JObj [(''slug'', JStr ''a'')])) (fold (deliver plain_related_lib) [] sample_db)
    = (Inr True, fold (deliver plain_related_lib) [] sample_db)"
  using handle_idempotent[OF sample_handle, where fate' = Works and ds = "[]"] by simp

text \<open>
  Rewinding is harmless: after a sequence of deliveries that were all applied, delivering any of
  them again, in any order and any number of times, changes nothing.
\<close>

lemma consumer_rewinds:
  assumes "\<forall>d\<in>set ds. delivered L (fold (deliver L) ds db) d" and "set es \<subseteq> set ds"
  shows "fold (deliver L) es (fold (deliver L) ds db) = fold (deliver L) ds db"
  by (rule consumer.rewind) (fact assms)+

lemma consumer_rewinds_witness:
  "fold (deliver plain_related_lib) (replicate 3 (Timestamp 5, Works, sample_message (JObj [(''slug'', JStr ''a'')])))
     (fold (deliver plain_related_lib) [(Timestamp 5, Works, sample_message (JObj [(''slug'', JStr ''a'')]))] empty_related_db)
   = sample_db"
proof -
  let ?d = "(Timestamp 5, Works, sample_message (JObj [(''slug'', JStr ''a'')]))"
  have once: "fold (deliver plain_related_lib) [?d] empty_related_db = sample_db"
    by (simp add: deliver_def sample_handle)
  moreover have "delivered plain_related_lib sample_db ?d"
    using handle_True_applied[OF sample_handle] by (simp add: delivered_def)
  ultimately have "fold (deliver plain_related_lib) (replicate 3 ?d) (fold (deliver plain_related_lib) [?d] empty_related_db)
      = fold (deliver plain_related_lib) [?d] empty_related_db"
    by (intro consumer_rewinds) auto
  with once show ?thesis by simp
qed

text \<open>
  No record is skipped silently: in every state the process can reach, whatever rounds, signals,
  crashes and restarts led there, each record below a committed offset has been applied, or its
  failure has been logged.
\<close>

lemma committed_is_settled:
  assumes "consumer_reachable L c" "offset < c_committed c tp"
  shows "offset < length (c_log c tp)
    \<and> (applied L (c_db c) (c_log c tp ! offset) \<or> (tp, offset) \<in> set (c_failures c))"
proof -
  note inv = consumer_invD[OF consumer_reachable_inv[OF assms(1)]]
  have pos: "offset < c_position c tp" by (rule order_less_le_trans[OF assms(2) inv(1)])
  then have "offset < length (c_log c tp)" using inv(2)[of tp] by (rule order_less_le_trans)
  with inv(3)[OF pos] show ?thesis by (simp add: settled_def)
qed

definition sample_consumer :: "message list \<Rightarrow> consumer" where
  "sample_consumer ms = fold (\<lambda>m c. c\<lparr>c_log := (c_log c)((''post_deleted'', 0) := c_log c (''post_deleted'', 0) @ [m])\<rparr>) ms
     (new_consumer empty_related_db)"

lemma sample_consumer_reachable: "consumer_reachable L (sample_consumer ms)"
proof -
  have "consumer_reachable L c \<Longrightarrow> consumer_reachable L (fold (\<lambda>m c. c\<lparr>c_log :=
      (c_log c)((''post_deleted'', 0) := c_log c (''post_deleted'', 0) @ [m])\<rparr>) ms c)" for c
    by (induction ms arbitrary: c) (auto intro: consumer_reachable.step consumer_step.append)
  then show ?thesis by (simp add: sample_consumer_def consumer_reachable.start)
qed

lemma committed_is_settled_witness:
  "let c = consume_one plain_related_lib (Timestamp 5) Works (''post_deleted'', 0)
             (sample_consumer [sample_message (JObj [(''slug'', JStr ''a'')])])
   in 0 < c_committed c (''post_deleted'', 0) \<and> 0 < length (c_log c (''post_deleted'', 0))
    \<and> (applied plain_related_lib (c_db c) (c_log c (''post_deleted'', 0) ! 0) \<or> ((''post_deleted'', 0), 0) \<in> set (c_failures c))"
proof -
  let ?s = "sample_consumer [sample_message (JObj [(''slug'', JStr ''a'')])]"
  let ?c = "consume_one plain_related_lib (Timestamp 5) Works (''post_deleted'', 0) ?s"
  have "c_running ?s" by (simp add: sample_consumer_def new_consumer_def)
  then have reach: "consumer_reachable plain_related_lib ?c"
    by (rule consumer_reachable.step[OF sample_consumer_reachable consumer_step.round])
  have "0 < c_committed ?c (''post_deleted'', 0)"
    by (simp add: consume_one_def sample_consumer_def new_consumer_def sample_handle Let_def)
  with committed_is_settled[OF reach this] show ?thesis by (simp add: Let_def)
qed

text \<open>The position never falls behind a committed offset.\<close>

lemma consumer_steps_keep_committed:
  assumes "(consumer_step L)\<^sup>*\<^sup>* c c'" "consumer_inv L c"
  shows "consumer_inv L c' \<and> c_committed c tp \<le> c_committed c' tp"
  using assms
proof (induction rule: rtranclp_induct)
  case (step c' c'')
  then show ?case
    using consumer_step_inv[OF step.hyps(2)] consumer_reachable_committed_mono[OF step.hyps(2)] le_trans by blast
qed simp

text \<open>
  C36: A message that fails does not block its partition. In a reachable state, let \<open>handle\<close> return False
  and store nothing for a record that was not applied before, and True for the next one, which has
  another event id. After these two rounds of the loop both records are below the committed offset,
  the failure of the first is in the log, its event id is not in processed_events, and whatever
  happens then, the position never goes back to it: the process does not read it again.
\<close>

theorem failed_record_is_passed:
  assumes "consumer_reachable L c" "Suc (c_position c tp) < length (c_log c tp)"
    and "first = c_log c tp ! c_position c tp" "second = c_log c tp ! Suc (c_position c tp)"
    and "\<not> applied L (c_db c) first" "event_id_for L second \<noteq> event_id_for L first"
    and "handle L now fate first (c_db c) = (Inr False, c_db c)"
    and "fst (handle L now' fate' second (c_db c)) = Inr True"
    and "c' = consume_one L now' fate' tp (consume_one L now fate tp c)"
  shows "c_committed c' tp = c_position c tp + 2 \<and> (tp, c_position c tp) \<in> set (c_failures c')
    \<and> \<not> applied L (c_db c') first
    \<and> {c''. (consumer_step L)\<^sup>*\<^sup>* c' c''} \<subseteq> {c''. c_position c tp + 2 \<le> c_position c'' tp}"
proof -
  let ?c1 = "consume_one L now fate tp c"
  obtain db' where h: "handle L now' fate' second (c_db c) = (Inr True, db')" using assms(8) by (metis prod.collapse)
  have c1: "?c1 = c\<lparr>c_position := (c_position c)(tp := Suc (c_position c tp)),
      c_failures := c_failures c @ [(tp, c_position c tp)]\<rparr>"
    using assms(2,3,7) by (simp add: consume_one_def Let_def)
  have c': "c' = ?c1\<lparr>c_position := (c_position ?c1)(tp := c_position c tp + 2), c_db := db',
      c_committed := (c_position ?c1)(tp := c_position c tp + 2)\<rparr>"
    using assms(2,4,9) h by (simp add: consume_one_def[of L now' fate'] c1 Let_def)
  have "\<not> applied L db' first"
    using handle_new_ids[of L now' fate' second "c_db c" first] h assms(5,6) by auto
  moreover have "consumer_inv L c'"
    unfolding assms(9) by (intro consume_one_inv consumer_reachable_inv[OF assms(1)])
  then have "c_position c tp + 2 \<le> c_position c'' tp" if "(consumer_step L)\<^sup>*\<^sup>* c' c''" for c''
    using consumer_steps_keep_committed[OF that, of tp] consumer_invD(1)[of L c'' tp]
    by (auto simp: c' c1 intro: le_trans)
  ultimately show ?thesis by (auto simp: c' c1)
qed

theorem failed_record_is_passed_witness:
  "let c = sample_consumer [sample_message JNull\<lparr>m_headers := [(''event_id'', Some ''u0'')]\<rparr>, sample_message (JObj [(''slug'', JStr ''a'')])];
       c' = consume_one plain_related_lib (Timestamp 5) Works (''post_deleted'', 0)
              (consume_one plain_related_lib (Timestamp 5) Works (''post_deleted'', 0) c)
   in c_committed c' (''post_deleted'', 0) = 2 \<and> ((''post_deleted'', 0), 0) \<in> set (c_failures c')
    \<and> \<not> applied plain_related_lib (c_db c') (sample_message JNull\<lparr>m_headers := [(''event_id'', Some ''u0'')]\<rparr>)
    \<and> {c''. (consumer_step plain_related_lib)\<^sup>*\<^sup>* c' c''} \<subseteq> {c''. 2 \<le> c_position c'' (''post_deleted'', 0)}"
proof -
  let ?bad = "sample_message JNull\<lparr>m_headers := [(''event_id'', Some ''u0'')]\<rparr>"
  let ?ok = "sample_message (JObj [(''slug'', JStr ''a'')])"
  let ?c = "sample_consumer [?bad, ?ok]"
  have id: "event_id_for L ?bad = Inr ''u0''" for L
    by (simp add: event_id_for_def sample_message_def decode_bytes_def code_def)
  have c: "c_log ?c (''post_deleted'', 0) = [?bad, ?ok]"
    "c_position ?c (''post_deleted'', 0) = 0" "c_db ?c = empty_related_db"
    by (simp_all add: sample_consumer_def new_consumer_def)
  have "run_handler plain_related_lib (Timestamp 5) ''u0'' ?bad empty_related_db = Inl TypeError"
    by (simp add: run_handler_def sample_message_def HANDLERS_def apply_deleted_def)
  then have bad: "handle plain_related_lib (Timestamp 5) Works ?bad empty_related_db = (Inr False, empty_related_db)"
    by (simp add: handle_def id caught_def empty_related_db_def[THEN arg_cong[where f = rdb_processed]])
  have new: "\<not> applied plain_related_lib empty_related_db ?bad"
    by (simp add: applied_def id empty_related_db_def)
  show ?thesis
    using failed_record_is_passed[where L = plain_related_lib and tp = "(''post_deleted'', 0)" and c = ?c
        and first = ?bad and second = ?ok and now = "Timestamp 5" and now' = "Timestamp 5"
        and fate = Works and fate' = Works, OF sample_consumer_reachable _ _ _ _ _ _ _ refl]
    by (simp add: c bad new id sample_handle Let_def numeral_2_eq_2)
qed

text \<open>
  C37: The exceptions that leave \<open>handle\<close> and end the process: UnicodeDecodeError for an event id that is
  not UTF-8, AttributeError for an update whose \<open>title\<close> is not a string, AttributeError for a revocation
  whose \<open>expires_at\<close> is not a string, and ValueError for one whose \<open>expires_at\<close> is a string that
  \<open>datetime.fromisoformat\<close> refuses. Every other failure is caught. The database is as before.
\<close>

theorem handle_raises_only:
  assumes "cosine_law (lib_cosine L)" "handle L now up m db = (Inl e, db')"
  shows "db' = db \<and>
    (event_id_for L m = Inl e \<and> e = UnicodeDecodeError
     \<or> m_topic m = ''post_updated'' \<and> e = AttributeError \<and> (\<exists>t. getitem (m_value m) ''title'' = Inr t \<and> (\<forall>s. t \<noteq> JStr s))
     \<or> m_topic m = ''token_revoked'' \<and>
         (e = AttributeError \<and> (\<exists>v. getitem (m_value m) ''expires_at'' = Inr v \<and> (\<forall>s. v \<noteq> JStr s))
          \<or> e = ValueError \<and> (\<exists>s. getitem (m_value m) ''expires_at'' = Inr (JStr s)
              \<and> fromisoformat (iso_other L) (replace_char (CHR ''Z'') ''+00:00'' s) = Inl e)))"
  by (rule handle_exc[OF assms])

definition bad_revocation :: message where
  "bad_revocation = (sample_message (JObj [(''expires_at'', JStr ''soon'')]))\<lparr>m_topic := ''token_revoked''\<rparr>"

lemma bad_revocation_raises:
  "handle plain_related_lib now Works bad_revocation empty_related_db = (Inl ValueError, empty_related_db)"
proof -
  have id: "event_id_for plain_related_lib bad_revocation = Inr ''u1''"
    by (simp add: event_id_for_def bad_revocation_def sample_message_def decode_bytes_def code_def)
  have "fromisoformat (iso_other plain_related_lib) (replace_char (CHR ''Z'') ''+00:00'' ''soon'') = Inl ValueError"
    by (simp add: fromisoformat_def replace_char_def rfc3339_shape_def plain_related_lib_def)
  then have "run_handler plain_related_lib now ''u1'' bad_revocation empty_related_db = Inl ValueError"
    by (simp add: run_handler_def bad_revocation_def sample_message_def HANDLERS_def apply_token_revoked_def)
  then show ?thesis
    by (simp add: handle_def id caught_def empty_related_db_def[THEN arg_cong[where f = rdb_processed]])
qed

theorem handle_raises_only_witness:
  "handle plain_related_lib (Timestamp 5) Works bad_revocation empty_related_db = (Inl ValueError, empty_related_db)
   \<and> (\<exists>s. getitem (m_value bad_revocation) ''expires_at'' = Inr (JStr s)
        \<and> fromisoformat (iso_other plain_related_lib) (replace_char (CHR ''Z'') ''+00:00'' s) = Inl ValueError)"
  using handle_raises_only[OF plain_related_lib_laws(1) bad_revocation_raises[of "Timestamp 5"]]
    bad_revocation_raises[of "Timestamp 5"]
  by (auto simp: bad_revocation_def)

text \<open>
  A record that makes \<open>handle\<close> raise is read again for ever: the process ends, and the one that
  starts after it is at the same offset, with the same database.
\<close>

lemma raising_record_is_read_again:
  assumes "handle L now up (c_log c tp ! c_position c tp) (c_db c) = (Inl e, db')"
    and "c_position c = c_committed c" "c_running c"
  shows "consume_one L now up tp c = c"
proof (cases "length (c_log c tp) \<le> c_position c tp")
  case False
  have "db' = c_db c" by (rule handle_raised[OF assms(1)])
  then show ?thesis
    using False assms by (simp add: consume_one_def restart_def)
qed (simp add: consume_one_def)

lemma raising_record_is_read_again_witness:
  "let c = (sample_consumer [])\<lparr>c_log := (\<lambda>_. [bad_revocation])\<rparr>
   in handle plain_related_lib (Timestamp 5) Works (c_log c (''token_revoked'', 0) ! 0) (c_db c) = (Inl ValueError, c_db c)
    \<and> consume_one plain_related_lib (Timestamp 5) Works (''token_revoked'', 0) c = c"
proof -
  let ?c = "(sample_consumer [])\<lparr>c_log := (\<lambda>_. [bad_revocation])\<rparr>"
  have "handle plain_related_lib (Timestamp 5) Works (c_log ?c (''token_revoked'', 0) ! c_position ?c (''token_revoked'', 0)) (c_db ?c)
    = (Inl ValueError, c_db ?c)"
    by (simp add: sample_consumer_def new_consumer_def bad_revocation_raises)
  from this raising_record_is_read_again[OF this] show ?thesis
    by (simp add: sample_consumer_def new_consumer_def Let_def)
qed

definition has_event_id :: "message \<Rightarrow> bool" where
  "has_event_id m \<longleftrightarrow> (\<exists>c cs. map_of (rev (m_headers m)) ''event_id'' = Some (Some (c # cs)))"

lemma fallback_id:
  "\<not> has_event_id m \<Longrightarrow> event_id_for L m = Inr (m_topic m @ '':'' @ show_nat (m_partition m) @ '':'' @ show_nat (m_offset m))"
  by (auto simp: has_event_id_def event_id_for_def split: option.splits list.splits)

lemma place_inj:
  "t @ '':'' @ show_nat p @ '':'' @ show_nat n = t' @ '':'' @ show_nat p' @ '':'' @ show_nat n' \<longleftrightarrow> t = t' \<and> p = p' \<and> n = n'"
  (is "?l = ?r \<longleftrightarrow> _")
proof
  assume "?l = ?r"
  then have "rev (show_nat n) @ CHR '':'' # rev (show_nat p) @ CHR '':'' # rev t
      = rev (show_nat n') @ CHR '':'' # rev (show_nat p') @ CHR '':'' # rev t'"
    by (metis (no_types, opaque_lifting) append_Cons append_Nil append_assoc rev.simps(2) rev_append)
  then show "t = t' \<and> p = p' \<and> n = n'"
    using colon_not_in_show_nat by (auto simp: append_sep_inj show_nat_inj)
qed simp

text \<open>
  Without an \<open>event_id\<close> header the identity of a delivery is its place: two records have the same
  fallback identity exactly if topic, partition and offset agree, also when topics contain colons.
\<close>

lemma fallback_id_is_the_place:
  assumes "\<not> has_event_id m" "\<not> has_event_id m'"
  shows "event_id_for L m = event_id_for L m' \<longleftrightarrow>
    m_topic m = m_topic m' \<and> m_partition m = m_partition m' \<and> m_offset m = m_offset m'"
  using place_inj[of "m_topic m" "m_partition m" "m_offset m" "m_topic m'" "m_partition m'" "m_offset m'"]
  by (simp add: fallback_id[OF assms(1)] fallback_id[OF assms(2)])

lemma fallback_id_is_the_place_witness:
  "event_id_for plain_related_lib ((sample_message JNull)\<lparr>m_headers := [], m_partition := 1\<rparr>)
    \<noteq> event_id_for plain_related_lib ((sample_message JNull)\<lparr>m_headers := [(''event_id'', None)], m_offset := 1\<rparr>)"
  by (subst fallback_id_is_the_place) (simp_all add: has_event_id_def sample_message_def)

text \<open>
  Ids beyond 32 bits do not arrive. An event for a post whose id does not fit the Integer column of
  the related service (the posts service counts with 64 bits) fails whenever it is delivered: \<open>handle\<close>
  returns False and stores nothing.
\<close>

lemma large_ids_are_refused:
  assumes "\<not> int32 i" "m_topic m = ''post_created'' \<or> m_topic m = ''post_updated''"
    and "m_value m = post_payload i title img body slug extra"
    and "event_id_for L m = Inr u" "\<not> applied L db m"
  shows "handle L now up m db = (Inr False, db)"
proof -
  have "run_handler L now u m db = Inl SQLAlchemyError"
    using assms(1-3) by (auto simp: run_handler_def HANDLERS_def apply_created_def apply_updated_def)
  with assms(4,5) show ?thesis
    by (cases rule: handle_cases[of L m now up db]) (auto simp: caught_def)
qed

lemma large_ids_are_refused_witness:
  "handle plain_related_lib (Timestamp 1) Works
     ((sample_message (post_payload 2147483648 ''t'' ''i'' ''b'' ''s'' []))\<lparr>m_topic := ''post_created''\<rparr>) empty_related_db
    = (Inr False, empty_related_db)"
proof -
  let ?m = "(sample_message (post_payload 2147483648 ''t'' ''i'' ''b'' ''s'' []))\<lparr>m_topic := ''post_created''\<rparr>"
  have id: "event_id_for plain_related_lib ?m = Inr ''u1''"
    by (simp add: event_id_for_def sample_message_def decode_bytes_def code_def)
  then have "\<not> applied plain_related_lib empty_related_db ?m"
    by (simp add: applied_def empty_related_db_def)
  with id show ?thesis
    by (intro large_ids_are_refused[where i = 2147483648]) (simp_all add: int32_def sample_message_def)
qed

end
