(* ===== verification/PostsService.thy ===== *)
theory PostsService
  imports Json "HOL-Library.Product_Lexorder"
begin

section \<open>The posts service: models and views (services/posts/posts)\<close>

text \<open>
  The tables \<open>Post\<close>, \<open>OutboxEvent\<close> and \<open>RevokedToken\<close>, \<open>transaction.atomic\<close>, \<open>record_event\<close> and
  the five actions of \<open>PostViewSet\<close>.

  Django REST framework is a parameter: \<open>validate\<close> is what \<open>PostSerializer(...).is_valid\<close> makes of
  the request data (None: a ValidationError), given the table and the row under update; the
  validated data has the declared fields, and no image where the request has none, because
  \<open>image\<close> may be blank. \<open>iso\<close> is the text of an instant in a response. Of a request, \<open>req_now\<close> is
  the clock reading and \<open>req_uuid\<close> the fresh \<open>uuid.uuid4()\<close>.
\<close>

subsection \<open>Tables\<close>

record post =
  p_id :: int
  p_title :: string
  p_image :: string
  p_body :: string
  p_slug :: string
  p_created_at :: timestamp
  p_updated_at :: timestamp

record outbox_event =
  o_id :: string
  o_topic :: string
  o_key :: string
  o_payload :: json
  o_created_at :: timestamp
  o_published_at :: "timestamp option"

record revoked_token =
  rv_token_id :: string
  rv_user_id :: string
  rv_expires_at :: timestamp
  rv_revoked_at :: timestamp

text \<open>\<open>pdb_next_id\<close> is the sequence behind the primary key of \<open>Post\<close>.\<close>

record posts_db =
  pdb_posts :: "post list"
  pdb_outbox :: "outbox_event list"
  pdb_revoked :: "revoked_token list"
  pdb_next_id :: int

definition empty_posts_db :: posts_db where
  "empty_posts_db = \<lparr>pdb_posts = [], pdb_outbox = [], pdb_revoked = [], pdb_next_id = 1\<rparr>"

text \<open>Widths of the varchar columns, primary keys and the unique slug. \<open>body\<close> is a text column.\<close>

definition post_row_ok :: "post \<Rightarrow> bool" where
  "post_row_ok p \<longleftrightarrow> length (p_title p) \<le> 200 \<and> length (p_image p) \<le> 250 \<and> length (p_slug p) \<le> 200"

definition outbox_row_ok :: "outbox_event \<Rightarrow> bool" where
  "outbox_row_ok e \<longleftrightarrow> length (o_topic e) \<le> 100 \<and> length (o_key e) \<le> 200"

definition revoked_row_ok :: "revoked_token \<Rightarrow> bool" where
  "revoked_row_ok r \<longleftrightarrow> length (rv_token_id r) \<le> 64 \<and> length (rv_user_id r) \<le> 64"

definition posts_db_ok :: "posts_db \<Rightarrow> bool" where
  "posts_db_ok db \<longleftrightarrow>
     list_all post_row_ok (pdb_posts db)
     \<and> distinct (map p_id (pdb_posts db)) \<and> distinct (map p_slug (pdb_posts db))
     \<and> list_all outbox_row_ok (pdb_outbox db) \<and> distinct (map o_id (pdb_outbox db))
     \<and> list_all revoked_row_ok (pdb_revoked db) \<and> distinct (map rv_token_id (pdb_revoked db))"

text \<open>\<open>OutboxEvent.__str__\<close>\<close>

definition outbox_str :: "outbox_event \<Rightarrow> string" where
  "outbox_str e = o_topic e @ ''/'' @ o_key e @ '' ('' @
     (if o_published_at e \<noteq> None then ''published'' else ''pending'') @ '')''"

text \<open>\<open>Post.__str__\<close> and \<open>RevokedToken.__str__\<close>\<close>

definition post_str :: "post \<Rightarrow> string" where
  "post_str p = p_title p"

definition revoked_str :: "revoked_token \<Rightarrow> string" where
  "revoked_str r = ''revoked '' @ rv_token_id r"

text \<open>\<open>RevokedToken.is_revoked\<close>\<close>

definition is_revoked :: "(json \<Rightarrow> string) \<Rightarrow> posts_db \<Rightarrow> json \<Rightarrow> bool" where
  "is_revoked py_str db token_id =
     (if \<not> truthy token_id then False
      else row_at rv_token_id (text_value py_str token_id) (pdb_revoked db) \<noteq> None)"

subsection \<open>Database actions\<close>

text \<open>
  An action returns a value or an exception, and the database as its connection sees it. A
  statement that violates a constraint raises a DatabaseError (Django's IntegrityError and
  DataError) and changes nothing. \<open>atomic\<close> undoes the rows an action wrote when it raises; a
  sequence is not rolled back.
\<close>

type_synonym 'a action = "posts_db \<Rightarrow> 'a res \<times> posts_db"

definition returns :: "'a \<Rightarrow> 'a action" where
  "returns x db = (Inr x, db)"

definition raises :: "exc \<Rightarrow> 'a action" where
  "raises e db = (Inl e, db)"

definition then_do :: "'a action \<Rightarrow> ('a \<Rightarrow> 'b action) \<Rightarrow> 'b action" where
  "then_do m f db = (case m db of (Inl e, db') \<Rightarrow> (Inl e, db') | (Inr x, db') \<Rightarrow> f x db')"

definition statement :: "(posts_db \<Rightarrow> posts_db) \<Rightarrow> unit action" where
  "statement f db = (if posts_db_ok (f db) then (Inr (), f db) else (Inl DatabaseError, db))"

definition atomic :: "'a action \<Rightarrow> 'a action" where
  "atomic body db =
     (case body db of
        (Inl e, db') \<Rightarrow> (Inl e, db\<lparr>pdb_next_id := pdb_next_id db'\<rparr>)
      | (Inr x, db') \<Rightarrow> (Inr x, db'))"

lemma then_do_simps [simp]:
  "then_do (returns x) f = f x" "then_do (raises e) f = raises e"
  by (simp_all add: then_do_def returns_def raises_def fun_eq_iff)

subsection \<open>The serializer\<close>

record validated =
  v_title :: string
  v_image :: "string option"
  v_body :: string
  v_slug :: string

record posts_lib =
  validate :: "posts_db \<Rightarrow> post option \<Rightarrow> json \<Rightarrow> validated option"
  iso :: "timestamp \<Rightarrow> string"

record request =
  req_now :: timestamp
  req_uuid :: string

text \<open>\<open>PostSerializer(post).data\<close>: \<open>fields = '__all__'\<close>, in the order of the model.\<close>

definition post_data :: "posts_lib \<Rightarrow> post \<Rightarrow> json" where
  "post_data L p =
     JObj [(''id'', JInt (p_id p)), (''title'', JStr (p_title p)), (''image'', JStr (p_image p)),
       (''body'', JStr (p_body p)), (''slug'', JStr (p_slug p)),
       (''created_at'', JStr (iso L (p_created_at p))), (''updated_at'', JStr (iso L (p_updated_at p)))]"

text \<open>\<open>serializer.save()\<close> without and with an instance. \<open>CharField\<close>'s default is the empty string.\<close>

definition insert_post :: "request \<Rightarrow> validated \<Rightarrow> post action" where
  "insert_post req v db =
     (let p = \<lparr>p_id = pdb_next_id db, p_title = v_title v,
               p_image = (case v_image v of None \<Rightarrow> [] | Some i \<Rightarrow> i), p_body = v_body v,
               p_slug = v_slug v, p_created_at = req_now req, p_updated_at = req_now req\<rparr>;
          db1 = db\<lparr>pdb_next_id := pdb_next_id db + 1\<rparr>
      in then_do (statement (\<lambda>db. db\<lparr>pdb_posts := pdb_posts db @ [p]\<rparr>)) (\<lambda>_. returns p) db1)"

definition save_post :: "request \<Rightarrow> post \<Rightarrow> validated \<Rightarrow> post action" where
  "save_post req post v =
     (let p = post\<lparr>p_title := v_title v,
                p_image := (case v_image v of None \<Rightarrow> p_image post | Some i \<Rightarrow> i),
                p_body := v_body v, p_slug := v_slug v, p_updated_at := req_now req\<rparr>
      in then_do (statement (\<lambda>db. db\<lparr>pdb_posts :=
             map (\<lambda>r. if p_id r = p_id post then p else r) (pdb_posts db)\<rparr>)) (\<lambda>_. returns p))"

definition delete_post :: "post \<Rightarrow> unit action" where
  "delete_post post = statement (\<lambda>db. db\<lparr>pdb_posts := filter (\<lambda>r. p_id r \<noteq> p_id post) (pdb_posts db)\<rparr>)"

subsection \<open>The views\<close>

definition TOPIC_CREATED :: string where "TOPIC_CREATED = ''post_created''"
definition TOPIC_UPDATED :: string where "TOPIC_UPDATED = ''post_updated''"
definition TOPIC_DELETED :: string where "TOPIC_DELETED = ''post_deleted''"

definition record_event :: "request \<Rightarrow> string \<Rightarrow> string \<Rightarrow> json \<Rightarrow> outbox_event action" where
  "record_event req topic key payload =
     (let e = \<lparr>o_id = req_uuid req, o_topic = topic, o_key = key, o_payload = payload,
               o_created_at = req_now req, o_published_at = None\<rparr>
      in then_do (statement (\<lambda>db. db\<lparr>pdb_outbox := pdb_outbox db @ [e]\<rparr>)) (\<lambda>_. returns e))"

definition get_object_or_404 :: "string \<Rightarrow> post action" where
  "get_object_or_404 slug db =
     (case row_at p_slug slug (pdb_posts db) of
        None \<Rightarrow> (Inl Http404, db) | Some p \<Rightarrow> (Inr p, db))"

definition is_valid :: "posts_lib \<Rightarrow> post option \<Rightarrow> json \<Rightarrow> validated action" where
  "is_valid L inst data db =
     (case validate L db inst data of
        None \<Rightarrow> (Inl ValidationError, db) | Some v \<Rightarrow> (Inr v, db))"

definition list_posts :: "posts_lib \<Rightarrow> json response action" where
  "list_posts L db =
     (Inr (Response 200 (JArr (map (post_data L)
        (rev (sort_key (\<lambda>p. (p_created_at p, p_id p)) (pdb_posts db)))))), db)"

definition retrieve_post :: "posts_lib \<Rightarrow> string \<Rightarrow> json response action" where
  "retrieve_post L slug =
     then_do (get_object_or_404 slug) (\<lambda>post. returns (Response 200 (post_data L post)))"

definition create_post :: "posts_lib \<Rightarrow> request \<Rightarrow> json \<Rightarrow> json response action" where
  "create_post L req data =
     then_do (is_valid L None data) (\<lambda>v.
     then_do
       (atomic
         (then_do (insert_post req v) (\<lambda>post.
          then_do (record_event req TOPIC_CREATED (p_slug post) (post_data L post)) (\<lambda>_.
          returns post))))
       (\<lambda>post. returns (Response 201 (post_data L post))))"

definition update_post :: "posts_lib \<Rightarrow> request \<Rightarrow> string \<Rightarrow> json \<Rightarrow> json response action" where
  "update_post L req slug data =
     then_do (get_object_or_404 slug) (\<lambda>post.
     then_do (is_valid L (Some post) data) (\<lambda>v.
     then_do
       (atomic
         (then_do (save_post req post v) (\<lambda>post.
          then_do (record_event req TOPIC_UPDATED (p_slug post) (post_data L post)) (\<lambda>_.
          returns post))))
       (\<lambda>post. returns (Response 200 (post_data L post)))))"

definition destroy_post :: "request \<Rightarrow> string \<Rightarrow> json response action" where
  "destroy_post req slug =
     then_do (get_object_or_404 slug) (\<lambda>post.
     then_do
       (atomic
         (let payload = JObj [(''id'', JInt (p_id post)), (''slug'', JStr (p_slug post))]
          in then_do (delete_post post) (\<lambda>_.
             then_do (record_event req TOPIC_DELETED (p_slug post) payload) (\<lambda>_.
             returns ()))))
       (\<lambda>_. returns (Response 204 JNull)))"

subsection \<open>Atomicity\<close>

text \<open>Whatever a transaction does before it raises, the rows are as before.\<close>

definition same_rows :: "posts_db \<Rightarrow> posts_db \<Rightarrow> bool" where
  "same_rows db db' \<longleftrightarrow> pdb_posts db' = pdb_posts db \<and> pdb_outbox db' = pdb_outbox db
     \<and> pdb_revoked db' = pdb_revoked db"

lemma same_rows_refl [simp]: "same_rows db db"
  by (simp add: same_rows_def)

lemma atomic_raises: "atomic body db = (Inl e, db') \<Longrightarrow> same_rows db db'"
  by (auto simp: atomic_def same_rows_def split: prod.splits sum.splits)

lemma atomic_returns: "atomic body db = (Inr x, db') \<longleftrightarrow> body db = (Inr x, db')"
  by (auto simp: atomic_def split: prod.splits sum.splits)

lemma then_do_InrD:
  "then_do m f db = (Inr y, db') \<Longrightarrow> \<exists>x db1. m db = (Inr x, db1) \<and> f x db1 = (Inr y, db')"
  by (auto simp: then_do_def split: prod.splits sum.splits)

lemma then_do_InlD:
  "then_do m f db = (Inl e, db') \<Longrightarrow>
   m db = (Inl e, db') \<or> (\<exists>x db1. m db = (Inr x, db1) \<and> f x db1 = (Inl e, db'))"
  by (auto simp: then_do_def split: prod.splits sum.splits)

lemma get_object_frame: "get_object_or_404 slug db = (r, db') \<Longrightarrow> db' = db"
  by (auto simp: get_object_or_404_def split: option.splits)

lemma is_valid_frame: "is_valid L inst data db = (r, db') \<Longrightarrow> db' = db"
  by (auto simp: is_valid_def split: option.splits)

lemma get_object_Inr:
  "get_object_or_404 slug db = (Inr p, db') \<longleftrightarrow> row_at p_slug slug (pdb_posts db) = Some p \<and> db' = db"
  by (auto simp: get_object_or_404_def split: option.splits)

lemma is_valid_Inr:
  "is_valid L inst data db = (Inr v, db') \<longleftrightarrow> validate L db inst data = Some v \<and> db' = db"
  by (auto simp: is_valid_def split: option.splits)

lemma statement_Inr: "statement f db = (Inr u, db') \<longleftrightarrow> posts_db_ok (f db) \<and> db' = f db"
  by (auto simp: statement_def)

end
