(* ===== verification/Mirror.thy ===== *)
theory Mirror
  imports PostsService "HOL-Library.Multiset"
begin

section \<open>The abstract specification: a table of posts and its changes\<close>

text \<open>
  What the two services have to agree on: for each post id, the title, image, body and slug.
  An event is a change of that table, \<open>Put\<close> for a post created or updated and \<open>Drop\<close> for a
  post deleted, which the event names by its slug.
\<close>

type_synonym post_fields = "string \<times> string option \<times> string option \<times> string"
type_synonym mirror = "int \<rightharpoonup> post_fields"

definition slug_of :: "post_fields \<Rightarrow> string" where
  "slug_of f = (case f of (_, _, _, s) \<Rightarrow> s)"

datatype change = Put int string string string string | Drop string

fun apply_change :: "change \<Rightarrow> mirror \<Rightarrow> mirror" where
  "apply_change (Put i title img body slug) m = m(i \<mapsto> (title, Some img, Some body, slug))"
| "apply_change (Drop slug) m =
     (\<lambda>i. case m i of None \<Rightarrow> None | Some f \<Rightarrow> if slug_of f = slug then None else Some f)"

text \<open>The change an event stands for.\<close>

definition event_change :: "string \<Rightarrow> json \<Rightarrow> change option" where
  "event_change topic payload =
     (if topic = TOPIC_CREATED \<or> topic = TOPIC_UPDATED then
        (case (getitem payload ''id'', getitem payload ''title'', getitem payload ''image'',
               getitem payload ''body'', getitem payload ''slug'') of
           (Inr (JInt i), Inr (JStr title), Inr (JStr img), Inr (JStr body), Inr (JStr slug)) \<Rightarrow>
             Some (Put i title img body slug)
         | _ \<Rightarrow> None)
      else if topic = TOPIC_DELETED then
        (case getitem payload ''slug'' of Inr (JStr slug) \<Rightarrow> Some (Drop slug) | _ \<Rightarrow> None)
      else None)"

definition replay :: "outbox_event list \<Rightarrow> mirror \<Rightarrow> mirror" where
  "replay events m =
     fold (\<lambda>e m. case event_change (o_topic e) (o_payload e) of
                   None \<Rightarrow> m | Some c \<Rightarrow> apply_change c m) events m"

lemma replay_Nil [simp]: "replay [] m = m"
  by (simp add: replay_def)

lemma replay_append [simp]: "replay (es @ [e]) m =
    (case event_change (o_topic e) (o_payload e) of None \<Rightarrow> replay es m | Some c \<Rightarrow> apply_change c (replay es m))"
  unfolding replay_def by simp

definition posts_mirror :: "post list \<Rightarrow> mirror" where
  "posts_mirror rows = (\<lambda>i. map_option
     (\<lambda>p. (p_title p, Some (p_image p), Some (p_body p), p_slug p)) (row_at p_id i rows))"

subsection \<open>The writing views, as operations\<close>

datatype view_op = Create json | Update string json | Destroy string

fun run_view :: "posts_lib \<Rightarrow> request \<Rightarrow> view_op \<Rightarrow> json response action" where
  "run_view L req (Create data) = create_post L req data"
| "run_view L req (Update slug data) = update_post L req slug data"
| "run_view L req (Destroy slug) = destroy_post req slug"

text \<open>A sequence of requests; a request that raises answers with an error and the next one runs.\<close>

fun run_views :: "posts_lib \<Rightarrow> (request \<times> view_op) list \<Rightarrow> posts_db \<Rightarrow> posts_db" where
  "run_views L [] db = db"
| "run_views L ((req, op) # ops) db = run_views L ops (snd (run_view L req op db))"

lemma run_views_snoc:
  "run_views L (ops @ [(req, op)]) db = snd (run_view L req op (run_views L ops db))"
  by (induction ops arbitrary: db) (auto split: prod.splits)

subsection \<open>What one request does\<close>

text \<open>The rows an accepted request leaves: one event more, and the table changed as the event says.\<close>

definition recorded :: "request \<Rightarrow> string \<Rightarrow> string \<Rightarrow> json \<Rightarrow> outbox_event" where
  "recorded req topic key payload =
     \<lparr>o_id = req_uuid req, o_topic = topic, o_key = key, o_payload = payload,
      o_created_at = req_now req, o_published_at = None\<rparr>"

lemma recorded_fields [simp]:
  "o_id (recorded req t k p) = req_uuid req" "o_topic (recorded req t k p) = t"
  "o_key (recorded req t k p) = k" "o_payload (recorded req t k p) = p"
  "o_published_at (recorded req t k p) = None" "o_created_at (recorded req t k p) = req_now req"
  by (simp_all add: recorded_def)

lemma record_event_Inr:
  "record_event req topic key payload db = (Inr e, db') \<longleftrightarrow>
     posts_db_ok (db\<lparr>pdb_outbox := pdb_outbox db @ [recorded req topic key payload]\<rparr>)
     \<and> e = recorded req topic key payload
     \<and> db' = db\<lparr>pdb_outbox := pdb_outbox db @ [recorded req topic key payload]\<rparr>"
  by (auto simp: record_event_def recorded_def then_do_def returns_def statement_def Let_def)

definition inserted_row :: "request \<Rightarrow> validated \<Rightarrow> int \<Rightarrow> post" where
  "inserted_row req v i =
     \<lparr>p_id = i, p_title = v_title v, p_image = (case v_image v of None \<Rightarrow> [] | Some i \<Rightarrow> i),
      p_body = v_body v, p_slug = v_slug v, p_created_at = req_now req, p_updated_at = req_now req\<rparr>"

definition saved_row :: "request \<Rightarrow> post \<Rightarrow> validated \<Rightarrow> post" where
  "saved_row req post v =
     post\<lparr>p_title := v_title v, p_image := (case v_image v of None \<Rightarrow> p_image post | Some i \<Rightarrow> i),
          p_body := v_body v, p_slug := v_slug v, p_updated_at := req_now req\<rparr>"

lemma insert_post_Inr:
  "insert_post req v db = (Inr p, db') \<longleftrightarrow>
     p = inserted_row req v (pdb_next_id db) \<and>
     db' = db\<lparr>pdb_posts := pdb_posts db @ [inserted_row req v (pdb_next_id db)],
              pdb_next_id := pdb_next_id db + 1\<rparr> \<and> posts_db_ok db'"
  by (auto simp: insert_post_def inserted_row_def[symmetric] then_do_def statement_def returns_def Let_def
      posts_db_ok_def)

lemma save_post_Inr:
  "save_post req post v db = (Inr p, db') \<longleftrightarrow>
     p = saved_row req post v \<and>
     db' = db\<lparr>pdb_posts := map (\<lambda>q. if p_id q = p_id post then saved_row req post v else q) (pdb_posts db)\<rparr> \<and>
     posts_db_ok db'"
  by (auto simp: save_post_def saved_row_def[symmetric] then_do_def statement_def returns_def Let_def)

lemma delete_post_Inr:
  "delete_post post db = (Inr u, db') \<longleftrightarrow>
     db' = db\<lparr>pdb_posts := filter (\<lambda>q. p_id q \<noteq> p_id post) (pdb_posts db)\<rparr> \<and> posts_db_ok db'"
  by (auto simp: delete_post_def statement_def)

lemma then_do_Inr: "then_do m f db = (Inr y, db') \<longleftrightarrow>
    (\<exists>x db1. m db = (Inr x, db1) \<and> f x db1 = (Inr y, db'))"
  by (auto simp: then_do_def split: prod.splits sum.splits)

lemma returns_Inr: "returns x db = (r, db') \<longleftrightarrow> r = Inr x \<and> db' = db"
  by (auto simp: returns_def)

lemmas accepted_simps = then_do_Inr returns_Inr atomic_returns is_valid_Inr get_object_Inr
  insert_post_Inr save_post_Inr delete_post_Inr record_event_Inr

lemma row_slugs [simp]:
  "p_slug (inserted_row req v i) = v_slug v" "p_slug (saved_row req post v) = v_slug v"
  "p_id (inserted_row req v i) = i" "p_id (saved_row req post v) = p_id post"
  by (simp_all add: inserted_row_def saved_row_def)

lemma create_post_accepted:
  assumes "create_post L req data db = (Inr r, db')"
  shows "\<exists>v. validate L db None data = Some v \<and>
    r = Response 201 (post_data L (inserted_row req v (pdb_next_id db))) \<and>
    db' = db\<lparr>pdb_posts := pdb_posts db @ [inserted_row req v (pdb_next_id db)],
       pdb_outbox := pdb_outbox db @ [recorded req TOPIC_CREATED (v_slug v)
         (post_data L (inserted_row req v (pdb_next_id db)))],
       pdb_next_id := pdb_next_id db + 1\<rparr> \<and>
    posts_db_ok db'"
  using assms unfolding create_post_def by (auto simp: accepted_simps)

lemma update_post_accepted:
  assumes "update_post L req slug data db = (Inr r, db')"
  shows "\<exists>post v. row_at p_slug slug (pdb_posts db) = Some post \<and>
    validate L db (Some post) data = Some v \<and>
    r = Response 200 (post_data L (saved_row req post v)) \<and>
    db' = db\<lparr>pdb_posts := map (\<lambda>q. if p_id q = p_id post then saved_row req post v else q) (pdb_posts db),
       pdb_outbox := pdb_outbox db @ [recorded req TOPIC_UPDATED (v_slug v)
         (post_data L (saved_row req post v))]\<rparr> \<and>
    posts_db_ok db'"
  using assms unfolding update_post_def by (auto simp: accepted_simps)

lemma destroy_post_accepted:
  assumes "destroy_post req slug db = (Inr r, db')"
  shows "\<exists>post. row_at p_slug slug (pdb_posts db) = Some post \<and>
    r = Response 204 JNull \<and>
    db' = db\<lparr>pdb_posts := filter (\<lambda>q. p_id q \<noteq> p_id post) (pdb_posts db),
       pdb_outbox := pdb_outbox db @ [recorded req TOPIC_DELETED slug
         (JObj [(''id'', JInt (p_id post)), (''slug'', JStr slug)])]\<rparr> \<and>
    posts_db_ok db'"
proof -
  from assms obtain post where at: "row_at p_slug slug (pdb_posts db) = Some post"
    by (auto simp: destroy_post_def accepted_simps)
  then have slug: "p_slug post = slug" by (auto dest: row_at_SomeD)
  from assms at show ?thesis
    by (intro exI[of _ post]) (auto simp: destroy_post_def accepted_simps Let_def slug)
qed

text \<open>A request that raises leaves the rows as they were.\<close>

lemma run_view_rejected: "run_view L req op db = (Inl e, db') \<Longrightarrow> same_rows db db'"
  by (cases op)
    (auto simp: create_post_def update_post_def destroy_post_def returns_def
      dest!: then_do_InlD atomic_raises get_object_frame is_valid_frame)

text \<open>A sequence counts every attempted insert, also one that is rolled back.\<close>

definition counts :: "int \<Rightarrow> 'a action \<Rightarrow> bool" where
  "counts n m \<longleftrightarrow> (\<forall>db. pdb_next_id db \<le> pdb_next_id (snd (m db)) \<and> pdb_next_id (snd (m db)) \<le> pdb_next_id db + n)"

lemma counts_weaken: "counts 0 m \<Longrightarrow> counts 1 m"
  unfolding counts_def by (metis add.right_neutral add_increasing2 order_trans zero_le_one add_left_mono)

lemma counts_atomic: "counts n m \<Longrightarrow> counts n (atomic m)"
  by (auto simp: counts_def atomic_def split: prod.splits sum.splits) (metis snd_conv)+

lemma counts_then_do:
  assumes "counts i m" "\<And>x. counts j (f x)" "0 \<le> j" "i + j \<le> n"
  shows "counts n (then_do m f)"
  unfolding counts_def
proof
  fix db
  obtain r db1 where m: "m db = (r, db1)" by fastforce
  with assms(1) have d1: "pdb_next_id db \<le> pdb_next_id db1" "pdb_next_id db1 \<le> pdb_next_id db + i"
    by (auto simp: counts_def dest: spec[of _ db])
  have "pdb_next_id db1 \<le> pdb_next_id (snd (f x db1))"
    "pdb_next_id (snd (f x db1)) \<le> pdb_next_id db1 + j" for x
    using assms(2)[of x] by (auto simp: counts_def)
  note step = this
  show "pdb_next_id db \<le> pdb_next_id (snd (then_do m f db)) \<and>
      pdb_next_id (snd (then_do m f db)) \<le> pdb_next_id db + n"
  proof (cases r)
    case (Inl e)
    with m assms(3,4) d1 show ?thesis by (simp add: then_do_def)
  next
    case (Inr x)
    with m assms(4) d1 step[of x] show ?thesis by (simp add: then_do_def)
  qed
qed

lemma counts_actions [simp]:
  "counts 0 (returns x)" "counts 0 (is_valid L inst data)" "counts 0 (get_object_or_404 slug)"
  "counts 0 (record_event req topic key payload)" "counts 0 (save_post req post v)"
  "counts 0 (delete_post post)" "counts 1 (insert_post req v)"
  by (simp_all add: counts_def returns_def is_valid_def get_object_or_404_def record_event_def save_post_def
      delete_post_def insert_post_def then_do_def statement_def Let_def split: option.splits)

lemma run_view_next_id:
  assumes "run_view L req op db = (r, db')"
  shows "pdb_next_id db \<le> pdb_next_id db' \<and> pdb_next_id db' \<le> pdb_next_id db + 1"
proof -
  have "counts 1 (create_post L req data)" for data
    unfolding create_post_def
    by (rule counts_then_do[where i = 0 and j = 1], simp)
      (auto intro!: counts_then_do[where i = 1 and j = 0] counts_atomic
        counts_then_do[where i = 0 and j = 0 and n = 0])
  moreover have "counts 0 (update_post L req slug data)" for slug data
    unfolding update_post_def
    by (auto intro!: counts_then_do[where i = 0 and j = 0] counts_atomic)
  moreover have "counts 0 (destroy_post req slug)" for slug
    unfolding destroy_post_def Let_def
    by (auto intro!: counts_then_do[where i = 0 and j = 0] counts_atomic)
  ultimately have "counts 1 (run_view L req op)"
    by (cases op) (simp_all add: counts_weaken)
  with assms show ?thesis by (auto simp: counts_def dest: spec[of _ db])
qed

subsection \<open>The outbox is the change log of the table\<close>

lemma topics_distinct [simp]:
  "TOPIC_DELETED \<noteq> TOPIC_CREATED" "TOPIC_DELETED \<noteq> TOPIC_UPDATED" "TOPIC_UPDATED \<noteq> TOPIC_CREATED"
  "TOPIC_CREATED \<noteq> TOPIC_DELETED" "TOPIC_UPDATED \<noteq> TOPIC_DELETED" "TOPIC_CREATED \<noteq> TOPIC_UPDATED"
  by (simp_all add: TOPIC_CREATED_def TOPIC_UPDATED_def TOPIC_DELETED_def)

definition put_row :: "post \<Rightarrow> change" where
  "put_row p = Put (p_id p) (p_title p) (p_image p) (p_body p) (p_slug p)"

lemma event_change_put [simp]:
  "event_change TOPIC_CREATED (post_data L p) = Some (put_row p)"
  "event_change TOPIC_UPDATED (post_data L p) = Some (put_row p)"
  by (simp_all add: event_change_def post_data_def put_row_def)

lemma event_change_drop [simp]:
  "event_change TOPIC_DELETED (JObj [(''id'', i), (''slug'', JStr s)]) = Some (Drop s)"
  by (simp add: event_change_def)

lemma posts_mirror_insert:
  assumes "distinct (map p_id (rows @ [p]))"
  shows "posts_mirror (rows @ [p]) = apply_change (put_row p) (posts_mirror rows)"
proof -
  have "row_at p_id (p_id p) rows = None"
    using assms by (auto simp: row_at_None_iff)
  then show ?thesis
    by (auto simp: posts_mirror_def put_row_def row_at_append fun_eq_iff split: option.splits)
qed

lemma posts_mirror_update:
  assumes "q \<in> set rows" "p_id p = p_id q"
  shows "posts_mirror (map (\<lambda>r. if p_id r = p_id q then p else r) rows)
    = apply_change (put_row p) (posts_mirror rows)"
proof -
  let ?f = "\<lambda>r. if p_id r = p_id q then p else r"
  have at: "row_at p_id i (map ?f rows) = map_option ?f (row_at p_id i rows)" for i
    using assms(2) by (intro row_at_map_on) auto
  have known: "row_at p_id (p_id q) rows \<noteq> None"
    using assms(1) by (simp add: row_at_None_iff)
  show ?thesis
  proof
    fix i
    show "posts_mirror (map ?f rows) i = apply_change (put_row p) (posts_mirror rows) i"
      using known assms(2) row_at_SomeD[of p_id i rows]
      by (cases "row_at p_id i rows") (auto simp: posts_mirror_def put_row_def at)
  qed
qed

lemma posts_mirror_delete:
  assumes q: "row_at p_slug slug rows = Some q"
    and di: "distinct (map p_id rows)" and ds: "distinct (map p_slug rows)"
  shows "posts_mirror (filter (\<lambda>r. p_id r \<noteq> p_id q) rows) = apply_change (Drop slug) (posts_mirror rows)"
proof -
  have "p_id r = p_id q \<longleftrightarrow> p_slug r = slug" if "r \<in> set rows" for r
    using row_at_SomeD[OF q] that distinct_map_inj_on_set[OF di] distinct_map_inj_on_set[OF ds]
    by metis
  then have "\<forall>i r. row_at p_id i rows = Some r \<longrightarrow> (p_id r = p_id q \<longleftrightarrow> p_slug r = slug)"
    using row_at_SomeD by metis
  then show ?thesis
    by (auto simp: posts_mirror_def row_at_filter[OF di] fun_eq_iff slug_of_def split: option.splits)
qed

text \<open>One accepted request: the outbox grows by one event, which says how the table changed.\<close>

lemma run_view_accepted:
  assumes ok: "posts_db_ok db" and r: "run_view L req op db = (Inr r, db')"
  shows "posts_db_ok db' \<and> pdb_next_id db \<le> pdb_next_id db' \<and> pdb_next_id db' \<le> pdb_next_id db + 1 \<and>
    (\<exists>e c. pdb_outbox db' = pdb_outbox db @ [e] \<and> o_id e = req_uuid req \<and> o_published_at e = None
       \<and> o_created_at e = req_now req
       \<and> event_change (o_topic e) (o_payload e) = Some c
       \<and> posts_mirror (pdb_posts db') = apply_change c (posts_mirror (pdb_posts db)))"
proof (cases op)
  case (Create data)
  with r create_post_accepted[of L req data db r db']
  show ?thesis
    by (auto simp: posts_mirror_insert posts_db_ok_def)
next
  case (Update slug data)
  with r update_post_accepted[of L req slug data db r db']
  show ?thesis
    by (auto simp: posts_mirror_update dest: row_at_SomeD)
next
  case (Destroy slug)
  with r obtain post where at: "row_at p_slug slug (pdb_posts db) = Some post"
    and db': "db' = db\<lparr>pdb_posts := filter (\<lambda>q. p_id q \<noteq> p_id post) (pdb_posts db),
       pdb_outbox := pdb_outbox db @ [recorded req TOPIC_DELETED slug
         (JObj [(''id'', JInt (p_id post)), (''slug'', JStr slug)])]\<rparr>" and "posts_db_ok db'"
    using destroy_post_accepted[of req slug db r db'] by auto
  then show ?thesis
    using ok posts_mirror_delete[OF at] by (auto simp: posts_db_ok_def)
qed

text \<open>The changes of the outbox, replayed in order, give the table: after any sequence of requests.\<close>

lemma run_views_changelog:
  "posts_db_ok (run_views L ops empty_posts_db) \<and>
   posts_mirror (pdb_posts (run_views L ops empty_posts_db))
     = replay (pdb_outbox (run_views L ops empty_posts_db)) Map.empty"
proof (induction ops rule: rev_induct)
  case Nil
  show ?case by (simp add: empty_posts_db_def posts_db_ok_def posts_mirror_def)
next
  case (snoc o1 ops)
  obtain req op where o1: "o1 = (req, op)" by fastforce
  let ?db = "run_views L ops empty_posts_db"
  obtain r db' where r: "run_view L req op ?db = (r, db')" by fastforce
  have next_db: "run_views L (ops @ [o1]) empty_posts_db = db'"
    using r by (simp add: o1 run_views_snoc)
  show ?case
  proof (cases r)
    case (Inl e)
    then have "same_rows ?db db'" using r run_view_rejected by blast
    then show ?thesis using snoc.IH by (simp add: next_db same_rows_def posts_db_ok_def)
  next
    case (Inr x)
    then show ?thesis
      using run_view_accepted[of ?db L req op x db'] snoc.IH r by (auto simp: next_db)
  qed
qed

subsection \<open>What holds of the views\<close>

text \<open>A validation to evaluate on: the four fields as strings, bounded as the model declares them.\<close>

definition text_field :: "json \<Rightarrow> string \<Rightarrow> string option" where
  "text_field data k = (case getitem data k of Inr (JStr s) \<Rightarrow> Some s | _ \<Rightarrow> None)"

definition plain_posts_lib :: posts_lib where
  "plain_posts_lib = \<lparr>validate = (\<lambda>db inst data.
       case (text_field data ''title'', text_field data ''body'', text_field data ''slug'') of
         (Some title, Some body, Some slug) \<Rightarrow>
           if length body \<le> 1500 then Some \<lparr>v_title = title, v_image = text_field data ''image'', v_body = body, v_slug = slug\<rparr> else None
       | _ \<Rightarrow> None),
     iso = (\<lambda>t. show_int (micros t))\<rparr>"

definition sample_request :: "string \<Rightarrow> int \<Rightarrow> request" where
  "sample_request u t = \<lparr>req_now = Timestamp t, req_uuid = u\<rparr>"

definition sample_data :: "string \<Rightarrow> string \<Rightarrow> json" where
  "sample_data title slug = JObj [(''title'', JStr title), (''body'', JStr ''b''), (''slug'', JStr slug)]"

text \<open>
  C8: The outbox is the change log of the posts table. After any sequence of requests to create, update
  and destroy posts, accepted or not, the changes recorded in the outbox, replayed in order on an
  empty table, give the posts; and the constraints of the database hold.
\<close>

theorem outbox_is_the_change_log:
  "posts_mirror (pdb_posts (run_views L ops empty_posts_db)) = replay (pdb_outbox (run_views L ops empty_posts_db)) Map.empty
   \<and> posts_db_ok (run_views L ops empty_posts_db)"
  using run_views_changelog by blast

text \<open>
  C9: A request is atomic. One that raises leaves posts and outbox as they were; one that is accepted
  adds exactly one unpublished event, whose change is what the request did to the posts.
\<close>

theorem view_writes_row_and_event:
  assumes "posts_db_ok db"
  shows "case run_view L req op db of
      (Inl e, db') \<Rightarrow> pdb_posts db' = pdb_posts db \<and> pdb_outbox db' = pdb_outbox db
    | (Inr r, db') \<Rightarrow> posts_db_ok db' \<and> (\<exists>e c. pdb_outbox db' = pdb_outbox db @ [e] \<and> o_id e = req_uuid req
        \<and> o_published_at e = None \<and> event_change (o_topic e) (o_payload e) = Some c
        \<and> posts_mirror (pdb_posts db') = apply_change c (posts_mirror (pdb_posts db)))"
proof -
  obtain x db' where r: "run_view L req op db = (x, db')" by fastforce
  show ?thesis
  proof (cases x)
    case (Inl e)
    then show ?thesis using r run_view_rejected[of L req op db e db'] by (auto simp: same_rows_def)
  next
    case (Inr y)
    then show ?thesis using r run_view_accepted[OF assms, of L req op y db'] by auto
  qed
qed

theorem view_writes_row_and_event_witness:
  "posts_db_ok empty_posts_db \<and> (case run_view plain_posts_lib (sample_request ''u1'' 1) (Create (sample_data ''kafka'' ''s'')) empty_posts_db of
      (Inl e, db') \<Rightarrow> pdb_posts db' = [] \<and> pdb_outbox db' = []
    | (Inr r, db') \<Rightarrow> posts_db_ok db' \<and> (\<exists>e c. pdb_outbox db' = [e] \<and> o_id e = ''u1''
        \<and> o_published_at e = None \<and> event_change (o_topic e) (o_payload e) = Some c
        \<and> posts_mirror (pdb_posts db') = apply_change c (posts_mirror [])))"
proof -
  have ok: "posts_db_ok empty_posts_db" by (simp add: empty_posts_db_def posts_db_ok_def)
  have u: "req_uuid (sample_request ''u1'' 1) = ''u1''" by (simp add: sample_request_def)
  have e: "pdb_outbox empty_posts_db = []" "pdb_posts empty_posts_db = []" by (simp_all add: empty_posts_db_def)
  show ?thesis
    using view_writes_row_and_event[OF ok, where L = plain_posts_lib and req = "sample_request ''u1'' 1"
        and op = "Create (sample_data ''kafka'' ''s'')"] ok
    unfolding e append_Nil u by (rule conjI[rotated])
qed

text \<open>
  The list of posts has every post once, newest first and by descending id within one instant; it
  changes nothing.
\<close>

lemma list_posts_newest_first:
  "\<exists>rows. list_posts L db = (Inr (Response 200 (JArr (map (post_data L) rows))), db)
    \<and> mset rows = mset (pdb_posts db)
    \<and> sorted_wrt (\<lambda>p q. (p_created_at q, p_id q) \<le> (p_created_at p, p_id p)) rows"
proof -
  let ?rows = "rev (sort_key (\<lambda>p. (p_created_at p, p_id p)) (pdb_posts db))"
  have "sorted_wrt (\<lambda>p q. (p_created_at q, p_id q) \<le> (p_created_at p, p_id p)) ?rows"
    using sorted_sort_key[of "\<lambda>p. (p_created_at p, p_id p)" "pdb_posts db"]
    by (simp add: sorted_wrt_rev sorted_wrt_map del: less_eq_prod_simp)
  then show ?thesis by (intro exI[of _ ?rows]) (simp add: list_posts_def)
qed

text \<open>
  Reading, updating and destroying a slug that no post has is a 404 and changes nothing.
\<close>

lemma unknown_slug_is_404:
  assumes "slug \<notin> p_slug ` set (pdb_posts db)"
  shows "retrieve_post L slug db = (Inl Http404, db) \<and> update_post L req slug data db = (Inl Http404, db)
    \<and> destroy_post req slug db = (Inl Http404, db)"
proof -
  have "get_object_or_404 slug db = (Inl Http404, db)"
    using assms by (simp add: get_object_or_404_def row_at_None_iff[THEN iffD2])
  then show ?thesis
    by (simp add: retrieve_post_def update_post_def destroy_post_def then_do_def)
qed

lemma unknown_slug_is_404_witness:
  "update_post plain_posts_lib (sample_request ''u'' 1) ''s'' JNull empty_posts_db = (Inl Http404, empty_posts_db)"
  using unknown_slug_is_404[of "''s''" empty_posts_db] by (simp add: empty_posts_db_def)

end
