(* ===== verification/Relay.thy ===== *)
theory Relay
  imports PostsService "HOL-Library.Sublist"
begin

section \<open>The outbox relay (services/relay/relay.py)\<close>

text \<open>
  \<open>claim_batch\<close>, \<open>publish_batch\<close>, \<open>mark_published\<close>, \<open>run_once\<close> and the loop of \<open>main\<close>, over the
  table posts_outboxevent. kafka-python and the broker are not under src: what happens to one
  send is a \<open>fate\<close> (whether \<open>send\<close> raises, whether the broker stores the record, what
  \<open>future.get\<close> raises, if anything), chosen by the environment for every row of every pass. The
  bytes of a value are those of its JSON (\<open>json.dumps\<close> and \<open>json.loads\<close> are inverse on these
  values), so the value of a record is kept as JSON.
\<close>

record kafka_record =
  k_topic :: string
  k_key :: "string option"
  k_value :: json
  k_headers :: "(string \<times> string option) list"

record fate =
  f_send :: "exc option"
  f_stored :: bool
  f_ack :: "exc option"

text \<open>
  One pass of the relay: the clock of the database, the rows other relays hold locked, the fates
  of the sends, what \<open>producer.flush\<close> raises, and what marking or committing raises.
\<close>

record pass =
  ps_now :: timestamp
  ps_locked :: "string list"
  ps_fate :: "outbox_event \<Rightarrow> fate"
  ps_flush :: "exc option"
  ps_commit :: "exc option"

record relay_state =
  rs_outbox :: "outbox_event list"
  rs_log :: "kafka_record list"

subsection \<open>The operations\<close>

text \<open>\<open>key_serializer\<close>: an empty key is no key.\<close>

definition key_serializer :: "string \<Rightarrow> string option" where
  "key_serializer k = (if k = [] then None else Some k)"

definition record_of :: "outbox_event \<Rightarrow> kafka_record" where
  "record_of row =
     \<lparr>k_topic = o_topic row, k_key = key_serializer (o_key row), k_value = o_payload row,
      k_headers = [(''event_id'', Some (o_id row))]\<rparr>"

text \<open>The id a record carries in its header.\<close>

definition record_id :: "kafka_record \<Rightarrow> string" where
  "record_id k = (case k_headers k of [(_, Some u)] \<Rightarrow> u | _ \<Rightarrow> [])"

lemma record_of_fields [simp]:
  "k_topic (record_of e) = o_topic e" "k_value (record_of e) = o_payload e" "record_id (record_of e) = o_id e"
  "k_headers (record_of e) = [(''event_id'', Some (o_id e))]"
  by (simp_all add: record_of_def record_id_def)

text \<open>
  The query of \<open>claim_batch\<close>: unpublished rows that nobody holds, oldest first, at most \<open>limit\<close>;
  a negative LIMIT is an error of the database. Rows with the same \<open>created_at\<close> come in table
  order here; SQL leaves it open.
\<close>

definition unpublished :: "outbox_event list \<Rightarrow> outbox_event list" where
  "unpublished rows = filter (\<lambda>r. o_published_at r = None) rows"

definition claim_batch :: "string list \<Rightarrow> int \<Rightarrow> outbox_event list \<Rightarrow> outbox_event list res" where
  "claim_batch locked limit rows =
     (if limit < 0 then Inl DatabaseError
      else Inr (take (nat limit)
             (filter (\<lambda>r. o_id r \<notin> set locked) (sort_key o_created_at (unpublished rows)))))"

definition mark_published :: "timestamp \<Rightarrow> string list \<Rightarrow> outbox_event list \<Rightarrow> outbox_event list" where
  "mark_published now event_ids rows =
     map (\<lambda>r. if o_id r \<in> set event_ids then r\<lparr>o_published_at := Some now\<rparr> else r) rows"

text \<open>
  The first loop of \<open>publish_batch\<close>: the futures (the row id and what \<open>get\<close> will raise), or the
  exception of a \<open>send\<close>; and the records the broker stores. Records sent before an exception
  are not called back.
\<close>

fun send_all :: "(outbox_event \<Rightarrow> fate) \<Rightarrow> outbox_event list \<Rightarrow>
    (string \<times> exc option) list res \<times> kafka_record list" where
  "send_all fate [] = (Inr [], [])"
| "send_all fate (row # rows) =
     (case f_send (fate row) of
        Some e \<Rightarrow> (Inl e, [])
      | None \<Rightarrow>
          (let (r, stored) = send_all fate rows
           in (try_then r (\<lambda>futures. Inr ((o_id row, f_ack (fate row)) # futures)),
               (if f_stored (fate row) then record_of row # stored else stored))))"

text \<open>The second loop: a KafkaError leaves the row for the next pass, anything else is raised.\<close>

fun resolve_futures :: "(string \<times> exc option) list \<Rightarrow> string list res" where
  "resolve_futures [] = Inr []"
| "resolve_futures ((event_id, None) # futures) =
     try_then (resolve_futures futures) (\<lambda>delivered. Inr (event_id # delivered))"
| "resolve_futures ((event_id, Some e) # futures) =
     (if e = KafkaError then resolve_futures futures else Inl e)"

definition publish_batch :: "pass \<Rightarrow> outbox_event list \<Rightarrow> string list res \<times> kafka_record list" where
  "publish_batch p rows =
     (case send_all (ps_fate p) rows of
        (Inl e, stored) \<Rightarrow> (Inl e, stored)
      | (Inr futures, stored) \<Rightarrow>
          (case ps_flush p of Some e \<Rightarrow> (Inl e, stored) | None \<Rightarrow> (resolve_futures futures, stored)))"

text \<open>
  \<open>run_once\<close>, inside \<open>conn.transaction()\<close>: an exception undoes the marks and not the records.
\<close>

definition run_once :: "int \<Rightarrow> pass \<Rightarrow> relay_state \<Rightarrow> nat res \<times> relay_state" where
  "run_once batch_size p st =
     (case claim_batch (ps_locked p) batch_size (rs_outbox st) of
        Inl e \<Rightarrow> (Inl e, st)
      | Inr rows \<Rightarrow>
          if rows = [] then (Inr 0, st)
          else
            (case publish_batch p rows of
               (Inl e, stored) \<Rightarrow> (Inl e, st\<lparr>rs_log := rs_log st @ stored\<rparr>)
             | (Inr delivered, stored) \<Rightarrow>
                 (case ps_commit p of
                    Some e \<Rightarrow> (Inl e, st\<lparr>rs_log := rs_log st @ stored\<rparr>)
                  | None \<Rightarrow>
                      (Inr (length delivered),
                       \<lparr>rs_outbox = (if delivered \<noteq> [] then mark_published (ps_now p) delivered (rs_outbox st)
                                    else rs_outbox st),
                        rs_log = rs_log st @ stored\<rparr>))))"

text \<open>
  The loop of \<open>main\<close>: whatever a pass raises is logged and the next one runs; returns the state
  after the passes and the number of events each has published.
\<close>

fun relay_main :: "int \<Rightarrow> pass list \<Rightarrow> relay_state \<Rightarrow> nat list \<times> relay_state" where
  "relay_main batch_size [] st = ([], st)"
| "relay_main batch_size (p # ps) st =
     (let (r, st') = run_once batch_size p st;
          (counts, st'') = relay_main batch_size ps st'
      in ((case r of Inl _ \<Rightarrow> 0 | Inr n \<Rightarrow> n) # counts, st''))"

text \<open>
  \<open>main\<close> with its signals: a signal sets \<open>_running\<close> to False (\<open>_stop\<close>), and the loop ends after the
  pass in flight. Each pass comes with whether a signal arrives during it.
\<close>

definition stop_relay :: "bool \<Rightarrow> bool" where
  "stop_relay running = False"

fun relay_process :: "int \<Rightarrow> (pass \<times> bool) list \<Rightarrow> relay_state \<Rightarrow> nat list \<times> relay_state" where
  "relay_process batch_size [] st = ([], st)"
| "relay_process batch_size ((p, signalled) # ps) st =
     (let (r, st') = run_once batch_size p st;
          running = (if signalled then stop_relay True else True);
          (counts, st'') = (if running then relay_process batch_size ps st' else ([], st'))
      in ((case r of Inl _ \<Rightarrow> 0 | Inr n \<Rightarrow> n) # counts, st''))"

fun until_signal :: "(pass \<times> bool) list \<Rightarrow> pass list" where
  "until_signal [] = []"
| "until_signal ((p, signalled) # ps) = p # (if signalled then [] else until_signal ps)"

lemma relay_process_main: "relay_process batch_size ps st = relay_main batch_size (until_signal ps) st"
  by (induction ps arbitrary: st) (auto simp: stop_relay_def Let_def case_prod_beta)

lemma relay_main_state:
  "snd (relay_main batch_size ps st) = fold (\<lambda>p st. snd (run_once batch_size p st)) ps st"
  by (induction ps arbitrary: st) (simp_all add: Let_def case_prod_beta)

subsection \<open>The contract of an outbox\<close>

text \<open>
  An outbox holds pending events and sends them in passes. The contract: a pass neither loses nor
  withdraws an event. An outbox that drains: a good pass over an outbox that is not empty makes it
  shorter.
\<close>

locale outbox =
  fixes inv :: "'s \<Rightarrow> bool"
    and pending :: "'s \<Rightarrow> 'e list"
    and sent :: "'s \<Rightarrow> 'e list"
    and legal :: "'p \<Rightarrow> bool"
    and pass :: "'p \<Rightarrow> 's \<Rightarrow> 's"
  assumes inv_pass: "inv s \<Longrightarrow> inv (pass p s)"
    and kept: "inv s \<Longrightarrow> legal p \<Longrightarrow> set (pending s) \<subseteq> set (pending (pass p s)) \<union> set (sent (pass p s))"
    and never_withdrawn: "prefix (sent s) (sent (pass p s))"
begin

lemma inv_passes: "inv s \<Longrightarrow> inv (fold pass ps s)"
  by (induction ps arbitrary: s) (auto intro: inv_pass)

lemma sent_passes: "prefix (sent s) (sent (fold pass ps s))"
proof (induction ps arbitrary: s)
  case (Cons p ps)
  then show ?case using never_withdrawn prefix_order.trans by fastforce
qed simp

lemma at_least_once:
  assumes "inv s" "\<forall>p\<in>set ps. legal p"
  shows "set (pending s) \<subseteq> set (pending (fold pass ps s)) \<union> set (sent (fold pass ps s))"
  using assms
proof (induction ps arbitrary: s)
  case (Cons p ps)
  have "set (sent (pass p s)) \<subseteq> set (sent (fold pass ps (pass p s)))"
    using sent_passes set_mono_prefix by blast
  moreover have "set (pending (pass p s)) \<subseteq> set (pending (fold pass ps (pass p s))) \<union> set (sent (fold pass ps (pass p s)))"
    using Cons by (simp add: inv_pass)
  moreover have "set (pending s) \<subseteq> set (pending (pass p s)) \<union> set (sent (pass p s))"
    using Cons.prems by (simp add: kept)
  ultimately show ?case by auto
qed simp

end

locale draining_outbox = outbox inv pending sent legal pass
  for inv :: "'s \<Rightarrow> bool"
    and pending :: "'s \<Rightarrow> 'e list"
    and sent :: "'s \<Rightarrow> 'e list"
    and legal :: "'p \<Rightarrow> bool"
    and pass :: "'p \<Rightarrow> 's \<Rightarrow> 's" +
  fixes good :: "'p \<Rightarrow> bool"
  assumes progress: "inv s \<Longrightarrow> good p \<Longrightarrow> pending s \<noteq> [] \<Longrightarrow> length (pending (pass p s)) < length (pending s)"
    and idle: "pending s = [] \<Longrightarrow> pending (pass p s) = []"
    and good_legal: "good p \<Longrightarrow> legal p"
begin

lemma drained:
  assumes "inv s" "\<forall>p\<in>set ps. good p" "length (pending s) \<le> length ps"
  shows "pending (fold pass ps s) = []"
  using assms
proof (induction ps arbitrary: s)
  case (Cons p ps)
  show ?case
  proof (cases "pending s = []")
    case True
    then have "pending (pass p s) = []" by (rule idle)
    then show ?thesis using Cons by (simp add: inv_pass)
  next
    case False
    then have "length (pending (pass p s)) \<le> length ps"
      using progress[of s p] Cons.prems by simp
    then show ?thesis using Cons by (simp add: inv_pass)
  qed
qed simp

lemma drained_and_sent:
  assumes "inv s" "\<forall>p\<in>set ps. good p" "length (pending s) \<le> length ps"
  shows "set (pending s) \<subseteq> set (sent (fold pass ps s))"
  using at_least_once[of s ps] drained[of s ps] assms good_legal by auto

end

subsection \<open>What the operations compute\<close>

lemma claim_batch_InrD:
  assumes "claim_batch locked limit rows = Inr batch"
  shows "set batch \<subseteq> set (unpublished rows)" and "length batch \<le> nat limit"
    and "sorted (map o_created_at batch)" and "\<forall>r\<in>set batch. o_id r \<notin> set locked"
    and "distinct (map o_id rows) \<Longrightarrow> distinct (map o_id batch)"
proof -
  from assms have batch: "batch = take (nat limit)
      (filter (\<lambda>r. o_id r \<notin> set locked) (sort_key o_created_at (unpublished rows)))"
    by (simp add: claim_batch_def split: if_splits)
  show "set batch \<subseteq> set (unpublished rows)" "\<forall>r\<in>set batch. o_id r \<notin> set locked"
    using set_take_subset[of "nat limit" "filter (\<lambda>r. o_id r \<notin> set locked) (sort_key o_created_at (unpublished rows))"]
    by (auto simp: batch)
  show "length batch \<le> nat limit" by (simp add: batch)
  have "sorted (map o_created_at (filter P (sort_key o_created_at xs)))" for P xs
    by (rule sorted_filter) simp
  then show "sorted (map o_created_at batch)"
    unfolding batch take_map[symmetric] by (rule sorted_wrt_take)
  assume "distinct (map o_id rows)"
  then have "distinct (map o_id (unpublished rows))"
    by (simp add: unpublished_def distinct_map_filter_key)
  then have "distinct (map o_id (sort_key o_created_at (unpublished rows)))"
    by (simp add: distinct_map)
  then show "distinct (map o_id batch)"
    by (simp add: batch take_map[symmetric] distinct_map_filter_key)
qed

lemma send_all_Inr:
  "send_all fate rows = (Inr futures, stored) \<Longrightarrow>
   futures = map (\<lambda>r. (o_id r, f_ack (fate r))) rows \<and>
   stored = map record_of (filter (\<lambda>r. f_stored (fate r)) rows)"
  by (induction rows arbitrary: futures stored)
    (auto simp: Let_def try_then_eq_Inr_iff split: option.splits prod.splits)

lemma send_all_raises:
  "r \<in> set rows \<Longrightarrow> f_send (fate r) \<noteq> None \<Longrightarrow> \<exists>e stored. send_all fate rows = (Inl e, stored)"
proof (induction rows)
  case (Cons a rows)
  show ?case
  proof (cases "f_send (fate a)")
    case None
    with Cons have "r \<in> set rows" by auto
    with Cons None show ?thesis by (auto simp: Let_def)
  qed (simp add: Let_def)
qed simp

lemma resolve_futures_Inr:
  "resolve_futures futures = Inr delivered \<Longrightarrow>
   delivered = map fst (filter (\<lambda>(_, a). a = None) futures)"
  by (induction futures arbitrary: delivered rule: resolve_futures.induct)
    (auto simp: try_then_eq_Inr_iff split: if_splits)

lemma publish_batch_Inr:
  assumes "publish_batch p rows = (Inr delivered, stored)"
  shows "delivered = map o_id (filter (\<lambda>r. f_ack (ps_fate p r) = None) rows)"
    and "stored = map record_of (filter (\<lambda>r. f_stored (ps_fate p r)) rows)"
  using assms
  by (auto simp: publish_batch_def filter_map comp_def split: prod.splits sum.splits option.splits
      dest!: send_all_Inr resolve_futures_Inr)

lemma unpublished_mark:
  "unpublished (mark_published now ids rows) = filter (\<lambda>r. o_id r \<notin> set ids) (unpublished rows)"
  by (induction rows) (auto simp: unpublished_def mark_published_def)

lemma mark_published_ids [simp]: "map o_id (mark_published now ids rows) = map o_id rows"
  by (simp add: mark_published_def)

lemma record_of_mark [simp]: "record_of (r\<lparr>o_published_at := t\<rparr>) = record_of r"
  by (simp add: record_of_def)

text \<open>The ways a pass ends, one rule per way.\<close>

lemma run_once_cases:
  obtains
    (claim_fails) e where "claim_batch (ps_locked p) b (rs_outbox st) = Inl e" "run_once b p st = (Inl e, st)"
  | (nothing) "claim_batch (ps_locked p) b (rs_outbox st) = Inr []" "run_once b p st = (Inr 0, st)"
  | (undone) rows e stored where "claim_batch (ps_locked p) b (rs_outbox st) = Inr rows"
      "run_once b p st = (Inl e, st\<lparr>rs_log := rs_log st @ stored\<rparr>)"
  | (committed) rows delivered stored where "claim_batch (ps_locked p) b (rs_outbox st) = Inr rows" "rows \<noteq> []"
      "delivered = map o_id (filter (\<lambda>r. f_ack (ps_fate p r) = None) rows)"
      "stored = map record_of (filter (\<lambda>r. f_stored (ps_fate p r)) rows)"
      "run_once b p st = (Inr (length delivered),
         \<lparr>rs_outbox = mark_published (ps_now p) delivered (rs_outbox st), rs_log = rs_log st @ stored\<rparr>)"
proof (cases "claim_batch (ps_locked p) b (rs_outbox st)")
  case (Inl e)
  then show ?thesis by (intro claim_fails) (auto simp: run_once_def)
next
  case (Inr rows)
  note claim = this
  obtain r stored where pub: "publish_batch p rows = (r, stored)" by fastforce
  show ?thesis
  proof (cases "rows = []")
    case True
    with claim have "claim_batch (ps_locked p) b (rs_outbox st) = Inr []" by simp
    moreover from this have "run_once b p st = (Inr 0, st)" by (simp add: run_once_def)
    ultimately show ?thesis by (rule nothing)
  next
    case False
    show ?thesis
    proof (cases "\<exists>e. r = Inl e \<or> ps_commit p = Some e")
      case True
      then obtain e' where "run_once b p st = (Inl e', st\<lparr>rs_log := rs_log st @ stored\<rparr>)"
        using claim pub False by (cases r) (auto simp: run_once_def split: option.splits)
      with claim show ?thesis by (rule undone)
    next
      case ok: False
      then obtain delivered where r: "r = Inr delivered" and "ps_commit p = None"
        by (cases r; cases "ps_commit p") auto
      moreover have "mark_published (ps_now p) [] rows' = rows'" for rows'
        by (simp add: mark_published_def)
      ultimately have "run_once b p st = (Inr (length delivered),
         \<lparr>rs_outbox = mark_published (ps_now p) delivered (rs_outbox st), rs_log = rs_log st @ stored\<rparr>)"
        using claim pub False by (simp add: run_once_def)
      with claim False publish_batch_Inr[OF pub[unfolded r]] show ?thesis by (rule committed)
    qed
  qed
qed

subsection \<open>The relay keeps the contract of an outbox\<close>

text \<open>
  With \<open>acks="all"\<close> an acknowledged record is stored; a good pass reaches a broker that stores and
  acknowledges everything, holds no lock against this relay and commits.
\<close>

definition legal_pass :: "int \<times> pass \<Rightarrow> bool" where
  "legal_pass bp \<longleftrightarrow> (\<forall>r. f_ack (ps_fate (snd bp) r) = None \<longrightarrow> f_stored (ps_fate (snd bp) r))"

definition delivers :: fate where
  "delivers = \<lparr>f_send = None, f_stored = True, f_ack = None\<rparr>"

definition good_pass :: "int \<times> pass \<Rightarrow> bool" where
  "good_pass bp \<longleftrightarrow> 1 \<le> fst bp \<and> ps_locked (snd bp) = [] \<and> (\<forall>r. ps_fate (snd bp) r = delivers)
     \<and> ps_flush (snd bp) = None \<and> ps_commit (snd bp) = None"

definition relay_inv :: "relay_state \<Rightarrow> bool" where
  "relay_inv st \<longleftrightarrow> distinct (map o_id (rs_outbox st))"

definition relay_pending :: "relay_state \<Rightarrow> kafka_record list" where
  "relay_pending st = map record_of (unpublished (rs_outbox st))"

definition relay_pass :: "int \<times> pass \<Rightarrow> relay_state \<Rightarrow> relay_state" where
  "relay_pass bp st = snd (run_once (fst bp) (snd bp) st)"

lemma relay_inv_pass: "relay_inv st \<Longrightarrow> relay_inv (relay_pass bp st)"
  by (cases rule: run_once_cases[of "snd bp" "fst bp" st]) (auto simp: relay_inv_def relay_pass_def)

lemma relay_never_withdrawn: "prefix (rs_log st) (rs_log (relay_pass bp st))"
  by (cases rule: run_once_cases[of "snd bp" "fst bp" st]) (auto simp: relay_pass_def)

lemma relay_kept:
  assumes inv: "relay_inv st" and legal: "legal_pass bp"
  shows "set (relay_pending st) \<subseteq> set (relay_pending (relay_pass bp st)) \<union> set (rs_log (relay_pass bp st))"
proof (cases rule: run_once_cases[of "snd bp" "fst bp" st])
  case (committed rows delivered stored)
  have "record_of r \<in> set stored" if r: "r \<in> set (unpublished (rs_outbox st))" and d: "o_id r \<in> set delivered" for r
  proof -
    from d obtain r' where r': "r' \<in> set rows" "o_id r' = o_id r" "f_ack (ps_fate (snd bp) r') = None"
      using committed(3) by auto
    have "r' \<in> set (rs_outbox st)" "r \<in> set (rs_outbox st)"
      using claim_batch_InrD(1)[OF committed(1)] r'(1) r by (auto simp: unpublished_def)
    then have "r' = r"
      using inv r'(2) distinct_map_inj_on_set by (metis relay_inv_def)
    with r' legal show ?thesis by (auto simp: committed(4) legal_pass_def)
  qed
  then show ?thesis
    by (auto simp: relay_pass_def relay_pending_def committed(5) unpublished_mark)
qed (auto simp: relay_pass_def relay_pending_def)

text \<open>What a good pass does: the batch is stored in order and marked.\<close>

lemma good_pass_run:
  fixes st :: relay_state
  assumes good: "good_pass (b, p)"
  defines "rows \<equiv> take (nat b) (sort_key o_created_at (unpublished (rs_outbox st)))"
  shows "claim_batch (ps_locked p) b (rs_outbox st) = Inr rows"
    and "rows \<noteq> [] \<Longrightarrow> run_once b p st = (Inr (length rows), \<lparr>rs_outbox = mark_published (ps_now p) (map o_id rows) (rs_outbox st),
      rs_log = rs_log st @ map record_of rows\<rparr>)"
    and "rows = [] \<Longrightarrow> run_once b p st = (Inr 0, st)"
proof -
  from good have g: "1 \<le> b" "ps_locked p = []" "\<And>r. ps_fate p r = delivers" "ps_flush p = None" "ps_commit p = None"
    by (auto simp: good_pass_def)
  show claim: "claim_batch (ps_locked p) b (rs_outbox st) = Inr rows"
    using g by (simp add: claim_batch_def rows_def)
  have send: "send_all (ps_fate p) rs = (Inr (map (\<lambda>r. (o_id r, None)) rs), map record_of rs)" for rs
    by (induction rs) (simp_all add: g(3) delivers_def)
  have res: "resolve_futures (map (\<lambda>r. (o_id r, None)) rs) = Inr (map o_id rs)" for rs
    by (induction rs) simp_all
  show "rows \<noteq> [] \<Longrightarrow> run_once b p st = (Inr (length rows), \<lparr>rs_outbox = mark_published (ps_now p) (map o_id rows) (rs_outbox st),
      rs_log = rs_log st @ map record_of rows\<rparr>)"
    using g(4,5) by (simp add: run_once_def claim publish_batch_def send res)
  show "rows = [] \<Longrightarrow> run_once b p st = (Inr 0, st)"
    using claim by (simp add: run_once_def)
qed

lemma relay_progress:
  assumes inv: "relay_inv st" and good: "good_pass bp" and some: "relay_pending st \<noteq> []"
  shows "length (relay_pending (relay_pass bp st)) < length (relay_pending st)"
proof -
  obtain b p where bp: "bp = (b, p)" by fastforce
  note good' = good[unfolded bp]
  let ?rows = "take (nat b) (sort_key o_created_at (unpublished (rs_outbox st)))"
  have "sort_key o_created_at (unpublished (rs_outbox st)) \<noteq> []"
    using some by (metis relay_pending_def length_0_conv length_sort map_is_Nil_conv)
  then have ne: "?rows \<noteq> []" using good' by (simp add: good_pass_def)
  have after: "relay_pending (relay_pass bp st)
      = map record_of (filter (\<lambda>r. o_id r \<notin> o_id ` set ?rows) (unpublished (rs_outbox st)))"
    using good_pass_run(2)[OF good' ne] by (simp add: relay_pass_def relay_pending_def bp unpublished_mark)
  obtain r where "r \<in> set ?rows" using ne by (cases ?rows) auto
  then have "r \<in> set (unpublished (rs_outbox st))" "\<not> o_id r \<notin> o_id ` set ?rows"
    using claim_batch_InrD(1)[OF good_pass_run(1)[OF good']] by auto
  then show ?thesis
    unfolding after by (simp add: relay_pending_def length_filter_less)
qed

lemma relay_idle: "relay_pending st = [] \<Longrightarrow> relay_pending (relay_pass bp st) = []"
  by (cases rule: run_once_cases[of "snd bp" "fst bp" st])
    (auto simp: relay_pass_def relay_pending_def unpublished_mark)

lemma good_legal_pass: "good_pass bp \<Longrightarrow> legal_pass bp"
  by (simp add: good_pass_def legal_pass_def delivers_def)

interpretation relay: draining_outbox relay_inv relay_pending rs_log legal_pass relay_pass good_pass
  by unfold_locales
    (simp_all add: relay_inv_pass relay_kept relay_never_withdrawn relay_progress relay_idle good_legal_pass)

subsection \<open>Order\<close>

text \<open>
  While passes are good, the log followed by the pending events does not change: the relay sends
  the oldest events first and keeps their order, if the table lists them by age.
\<close>

definition outbox_sorted :: "relay_state \<Rightarrow> bool" where
  "outbox_sorted st \<longleftrightarrow> sorted (map o_created_at (rs_outbox st))"

lemma mark_published_created [simp]:
  "map o_created_at (mark_published now ids rows) = map o_created_at rows"
  by (simp add: mark_published_def)

lemma filter_not_taken:
  "distinct (map f xs) \<Longrightarrow> filter (\<lambda>x. f x \<notin> f ` set (take n xs)) xs = drop n xs"
proof (induction xs arbitrary: n)
  case (Cons x xs)
  then show ?case
  proof (cases n)
    case (Suc m)
    have "f y \<noteq> f x" if "y \<in> set xs" for y
      using Cons.prems that by (auto simp: image_iff)
    then have "filter (\<lambda>y. f y \<notin> f ` set (take n (x # xs))) xs = filter (\<lambda>y. f y \<notin> f ` set (take m xs)) xs"
      by (intro filter_cong) (auto simp: Suc)
    then show ?thesis using Cons by (simp add: Suc)
  qed (simp add: filter_True)
qed simp

lemma relay_fifo_pass:
  assumes inv: "relay_inv st" "outbox_sorted st" and good: "good_pass bp"
  shows "rs_log (relay_pass bp st) @ relay_pending (relay_pass bp st) = rs_log st @ relay_pending st
    \<and> outbox_sorted (relay_pass bp st)"
proof -
  obtain b p where bp: "bp = (b, p)" by fastforce
  note good' = good[unfolded bp]
  let ?u = "unpublished (rs_outbox st)"
  have "sorted (map o_created_at ?u)"
    using inv(2) by (auto simp: unpublished_def outbox_sorted_def intro: sorted_filter)
  then have sort: "sort_key o_created_at ?u = ?u" by (rule sort_key_id_if_sorted)
  have d: "distinct (map o_id ?u)"
    using inv(1) by (simp add: relay_inv_def unpublished_def distinct_map_filter_key)
  show ?thesis
  proof (cases "take (nat b) ?u = []")
    case True
    with good_pass_run(3)[OF good', of st] inv(2) show ?thesis
      by (simp add: sort relay_pass_def bp)
  next
    case False
    with good_pass_run(2)[OF good', of st] have run: "relay_pass bp st =
      \<lparr>rs_outbox = mark_published (ps_now p) (map o_id (take (nat b) ?u)) (rs_outbox st),
       rs_log = rs_log st @ map record_of (take (nat b) ?u)\<rparr>"
      by (simp add: sort relay_pass_def bp)
    then have "relay_pending (relay_pass bp st) = map record_of (drop (nat b) ?u)"
      using filter_not_taken[OF d, of "nat b"] by (simp add: relay_pending_def unpublished_mark)
    then show ?thesis
      using inv(2) by (simp add: run relay_pending_def outbox_sorted_def flip: map_append)
  qed
qed

lemma relay_fifo:
  assumes "relay_inv st" "outbox_sorted st" "\<forall>p\<in>set ps. good_pass p"
  shows "rs_log (fold relay_pass ps st) @ relay_pending (fold relay_pass ps st) = rs_log st @ relay_pending st"
  using assms
proof (induction ps arbitrary: st)
  case (Cons p ps)
  then show ?case using relay_fifo_pass[of st p] relay_inv_pass by auto
qed simp

subsection \<open>What holds of the relay\<close>

lemma relay_main_fold: "snd (relay_main b ps st) = fold relay_pass (map (Pair b) ps) st"
  unfolding relay_main_state by (induction ps arbitrary: st) (simp_all add: relay_pass_def)

text \<open>An event, a state and passes to evaluate on.\<close>

definition sample_event :: "string \<Rightarrow> int \<Rightarrow> outbox_event" where
  "sample_event i t = \<lparr>o_id = i, o_topic = TOPIC_CREATED, o_key = ''a'', o_payload = JNull,
     o_created_at = Timestamp t, o_published_at = None\<rparr>"

definition sample_pass :: "(outbox_event \<Rightarrow> fate) \<Rightarrow> pass" where
  "sample_pass fate = \<lparr>ps_now = Timestamp 9, ps_locked = [], ps_fate = fate, ps_flush = None, ps_commit = None\<rparr>"

definition sample_relay :: relay_state where
  "sample_relay = \<lparr>rs_outbox = [sample_event ''u1'' 1, sample_event ''u2'' 2], rs_log = []\<rparr>"

lemma good_sample_pass [simp]: "1 \<le> b \<Longrightarrow> good_pass (b, sample_pass (\<lambda>_. delivers))"
  by (simp add: good_pass_def sample_pass_def)

lemma sample_relay_ids [simp]: "distinct (map o_id (rs_outbox sample_relay))"
  "sorted (map o_created_at (rs_outbox sample_relay))"
  "unpublished (rs_outbox sample_relay) = [sample_event ''u1'' 1, sample_event ''u2'' 2]"
  by (simp_all add: sample_relay_def sample_event_def unpublished_def)

text \<open>
  At-least-once delivery. Whatever passes the relay makes, with locks held elsewhere, sends that
  fail, batches that raise and commits that are lost, every event that was unpublished is either
  still unpublished or its record is in the log, as long as acknowledged records are stored.
\<close>

lemma relay_at_least_once:
  assumes "distinct (map o_id (rs_outbox st))" and "\<forall>p\<in>set ps. legal_pass (b, p)"
    and "e \<in> set (unpublished (rs_outbox st))"
  shows "record_of e \<in> set (map record_of (unpublished (rs_outbox (snd (relay_main b ps st)))))
      \<union> set (rs_log (snd (relay_main b ps st)))"
  using relay.at_least_once[of st "map (Pair b) ps"] assms
  by (force simp: relay_inv_def relay_pending_def relay_main_fold)

lemma relay_at_least_once_witness:
  "record_of (sample_event ''u1'' 1)
     \<in> set (map record_of (unpublished (rs_outbox (snd (relay_main 1 [sample_pass (\<lambda>_. delivers)] sample_relay)))))
      \<union> set (rs_log (snd (relay_main 1 [sample_pass (\<lambda>_. delivers)] sample_relay)))"
  by (rule relay_at_least_once) (simp_all add: good_legal_pass)

text \<open>
  The outbox drains when the broker comes back. If every pass reaches the broker and there are
  as many passes as events, nothing is left unpublished and every event is in the log.
\<close>

lemma relay_drains:
  assumes "distinct (map o_id (rs_outbox st))" and "\<forall>p\<in>set ps. good_pass (b, p)"
    and "length (unpublished (rs_outbox st)) \<le> length ps"
  shows "unpublished (rs_outbox (snd (relay_main b ps st))) = []
    \<and> record_of ` set (unpublished (rs_outbox st)) \<subseteq> set (rs_log (snd (relay_main b ps st)))"
proof -
  have "relay_pending (fold relay_pass (map (Pair b) ps) st) = []"
    using relay.drained[of st "map (Pair b) ps"] assms by (simp add: relay_inv_def relay_pending_def)
  moreover have "set (relay_pending st) \<subseteq> set (rs_log (fold relay_pass (map (Pair b) ps) st))"
    using relay.drained_and_sent[of st "map (Pair b) ps"] assms by (simp add: relay_inv_def relay_pending_def)
  ultimately show ?thesis by (simp add: relay_pending_def relay_main_fold)
qed

lemma relay_drains_witness:
  "unpublished (rs_outbox (snd (relay_main 1 (replicate 2 (sample_pass (\<lambda>_. delivers))) sample_relay))) = []
    \<and> record_of ` set (unpublished (rs_outbox sample_relay))
        \<subseteq> set (rs_log (snd (relay_main 1 (replicate 2 (sample_pass (\<lambda>_. delivers))) sample_relay)))"
  by (rule relay_drains) simp_all

text \<open>
  Order. While passes reach the broker, the relay publishes the events in the order of the
  outbox, whatever the batch size: the log followed by what is still pending does not change.
\<close>

lemma relay_keeps_order:
  assumes "distinct (map o_id (rs_outbox st))" "sorted (map o_created_at (rs_outbox st))"
    and "\<forall>p\<in>set ps. good_pass (b, p)"
  shows "rs_log (snd (relay_main b ps st)) @ map record_of (unpublished (rs_outbox (snd (relay_main b ps st))))
    = rs_log st @ map record_of (unpublished (rs_outbox st))"
  using relay_fifo[of st "map (Pair b) ps"] assms
  by (simp add: relay_inv_def outbox_sorted_def relay_pending_def relay_main_fold)

lemma relay_keeps_order_witness:
  "rs_log (snd (relay_main 1 [sample_pass (\<lambda>_. delivers)] sample_relay))
     @ map record_of (unpublished (rs_outbox (snd (relay_main 1 [sample_pass (\<lambda>_. delivers)] sample_relay))))
    = map record_of [sample_event ''u1'' 1, sample_event ''u2'' 2]"
  using relay_keeps_order[of sample_relay "[sample_pass (\<lambda>_. delivers)]" 1]
  by (simp add: sample_relay_def[THEN arg_cong[where f = rs_log]])

text \<open>
  An event is marked published only when the broker has its record: a row that a pass finds
  unpublished and leaves published is in the log.
\<close>

lemma published_is_stored:
  assumes "distinct (map o_id (rs_outbox st))" and "legal_pass (b, p)"
    and "e \<in> set (unpublished (rs_outbox st))"
    and "e' \<in> set (rs_outbox (snd (run_once b p st)))" "o_id e' = o_id e" "o_published_at e' \<noteq> None"
  shows "record_of e \<in> set (rs_log (snd (run_once b p st)))"
proof (rule ccontr)
  assume "record_of e \<notin> set (rs_log (snd (run_once b p st)))"
  then obtain q where q: "q \<in> set (unpublished (rs_outbox (snd (run_once b p st))))" "record_of q = record_of e"
    using relay_kept[of st "(b, p)"] assms(1-3)
    by (force simp: relay_inv_def relay_pending_def relay_pass_def)
  have "distinct (map o_id (rs_outbox (snd (run_once b p st))))"
    using relay_inv_pass[of st "(b, p)"] assms(1) by (simp add: relay_inv_def relay_pass_def)
  moreover have "q \<in> set (rs_outbox (snd (run_once b p st)))" "o_published_at q = None" "o_id q = o_id e'"
    using q assms(5) by (auto simp: unpublished_def record_of_def)
  ultimately show False using assms(4,6) distinct_map_inj_on_set by metis
qed

lemma published_is_stored_witness:
  "record_of (sample_event ''u1'' 1) \<in> set (rs_log (snd (run_once 1 (sample_pass (\<lambda>_. delivers)) sample_relay)))"
  by (rule published_is_stored[where e' = "(sample_event ''u1'' 1)\<lparr>o_published_at := Some (Timestamp 9)\<rparr>"])
    (simp_all add: good_legal_pass good_pass_run(2) mark_published_def sample_pass_def sample_relay_def
      sample_event_def unpublished_def good_pass_def)

text \<open>
  An outage leaves the outbox as it is. If every send fails (it raises, or its future does), a
  pass marks nothing, and it returns 0 if it returns.
\<close>

lemma relay_outage:
  assumes "\<forall>r. f_send (ps_fate p r) \<noteq> None \<or> f_ack (ps_fate p r) \<noteq> None"
  shows "rs_outbox (snd (run_once b p st)) = rs_outbox st \<and> fst (run_once b p st) \<in> insert (Inr 0) (range Inl)"
proof (cases rule: run_once_cases[of p b st])
  case (committed rows delivered stored)
  show ?thesis
  proof (cases "\<exists>r\<in>set rows. f_send (ps_fate p r) \<noteq> None")
    case True
    then obtain e stored' where "send_all (ps_fate p) rows = (Inl e, stored')"
      using send_all_raises by blast
    with committed show ?thesis by (simp add: run_once_def publish_batch_def)
  next
    case False
    with assms have "\<forall>r\<in>set rows. f_ack (ps_fate p r) \<noteq> None" by metis
    then have "filter (\<lambda>r. f_ack (ps_fate p r) = None) rows = []" by (simp add: filter_empty_conv)
    with committed show ?thesis by (simp add: mark_published_def)
  qed
qed auto

lemma relay_outage_witness:
  "rs_outbox (snd (run_once 5 (sample_pass (\<lambda>_. \<lparr>f_send = None, f_stored = False, f_ack = Some KafkaError\<rparr>)) sample_relay))
    = rs_outbox sample_relay
   \<and> fst (run_once 5 (sample_pass (\<lambda>_. \<lparr>f_send = None, f_stored = False, f_ack = Some KafkaError\<rparr>)) sample_relay)
       \<in> insert (Inr 0) (range Inl)"
  by (rule relay_outage) (simp add: sample_pass_def)

text \<open>
  The batch that a relay claims: unpublished rows that nobody holds, at most the limit, oldest
  first; a row that is left out is not older than any in the batch, and the batch is full.
\<close>

lemma claim_batch_oldest:
  assumes "claim_batch locked limit rows = Inr batch"
  shows "set batch \<subseteq> set (unpublished rows) \<and> (\<forall>r\<in>set batch. o_id r \<notin> set locked)
    \<and> int (length batch) \<le> limit \<and> sorted (map o_created_at batch)
    \<and> (\<forall>r\<in>set (unpublished rows). o_id r \<in> set locked \<or> r \<in> set batch
         \<or> int (length batch) = limit \<and> (\<forall>q\<in>set batch. o_created_at q \<le> o_created_at r))"
proof -
  let ?free = "filter (\<lambda>r. o_id r \<notin> set locked) (sort_key o_created_at (unpublished rows))"
  have limit: "0 \<le> limit" and batch: "batch = take (nat limit) ?free"
    using assms by (auto simp: claim_batch_def split: if_splits)
  have sorted: "sorted (map o_created_at ?free)" by (rule sorted_filter) simp
  have "r \<in> set batch \<or> int (length batch) = limit \<and> (\<forall>q\<in>set batch. o_created_at q \<le> o_created_at r)"
    if "r \<in> set (unpublished rows)" "o_id r \<notin> set locked" for r
  proof (cases "r \<in> set batch")
    case False
    have "r \<in> set ?free" using that by simp
    then have "r \<in> set (take (nat limit) ?free @ drop (nat limit) ?free)" by simp
    with False have r: "r \<in> set (drop (nat limit) ?free)" unfolding batch by (simp del: append_take_drop_id)
    then have "drop (nat limit) ?free \<noteq> []" by auto
    then have "nat limit < length ?free" by simp
    then have "int (length batch) = limit" using limit by (simp add: batch)
    moreover have "sorted (map o_created_at (take (nat limit) ?free) @ map o_created_at (drop (nat limit) ?free))"
      using sorted by (simp flip: map_append)
    ultimately show ?thesis using r by (auto simp: sorted_append batch)
  qed simp
  then show ?thesis
    using claim_batch_InrD[OF assms] limit by auto
qed

lemma claim_batch_oldest_witness:
  "\<exists>batch. claim_batch [''u1''] 1 [sample_event ''u1'' 1, sample_event ''u2'' 2] = Inr batch
    \<and> batch = [sample_event ''u2'' 2] \<and> int (length batch) \<le> 1"
  using claim_batch_oldest[of "[''u1'']" 1 "[sample_event ''u1'' 1, sample_event ''u2'' 2]" "[sample_event ''u2'' 2]"]
  by (simp add: claim_batch_def unpublished_def sample_event_def)

text \<open>
  \<open>run_once\<close> returns how many events it has published: the number of rows that were unpublished
  before the pass and are not after it. A pass that raises leaves the outbox as it is.
\<close>

lemma run_once_counts:
  assumes "distinct (map o_id (rs_outbox st))"
  shows "case run_once b p st of
      (Inr n, st') \<Rightarrow> length (unpublished (rs_outbox st)) = n + length (unpublished (rs_outbox st'))
    | (Inl e, st') \<Rightarrow> rs_outbox st' = rs_outbox st"
proof (cases rule: run_once_cases[of p b st])
  case (committed rows delivered stored)
  let ?u = "unpublished (rs_outbox st)"
  have d: "distinct (map o_id ?u)" using assms by (simp add: unpublished_def distinct_map_filter_key)
  have "distinct (map o_id rows)" by (rule claim_batch_InrD(5)[OF committed(1) assms])
  then have dd: "distinct delivered" unfolding committed(3) by (rule distinct_map_filter_key)
  have "set delivered \<subseteq> o_id ` set ?u"
    using claim_batch_InrD(1)[OF committed(1)] by (auto simp: committed(3))
  then have "set (map o_id (filter (\<lambda>r. o_id r \<in> set delivered) ?u)) = set delivered" by auto
  then have "length (filter (\<lambda>r. o_id r \<in> set delivered) ?u) = length delivered"
    using dd d distinct_card by (metis distinct_map_filter_key length_map)
  then show ?thesis
    using sum_length_filter_compl[of "\<lambda>r. o_id r \<in> set delivered" ?u] by (simp add: committed(5) unpublished_mark)
qed auto

lemma run_once_counts_witness:
  "case run_once 5 (sample_pass (\<lambda>_. delivers)) sample_relay of
      (Inr n, st') \<Rightarrow> length (unpublished (rs_outbox sample_relay)) = n + length (unpublished (rs_outbox st'))
    | (Inl e, st') \<Rightarrow> rs_outbox st' = rs_outbox sample_relay"
  by (rule run_once_counts) simp

text \<open>
  Two relays do not publish the same event at the same time: while one holds its batch, the
  other claims none of its rows.
\<close>

lemma relays_claim_apart:
  assumes "claim_batch locked limit rows = Inr batch"
    and "claim_batch (locked @ map o_id batch) limit' rows = Inr batch'"
  shows "set (map o_id batch) \<inter> set (map o_id batch') = {}"
  using claim_batch_InrD(4)[OF assms(2)] by (fastforce simp: image_iff)

lemma relays_claim_apart_witness:
  "claim_batch ([] @ map o_id [sample_event ''u1'' 1]) 1 (rs_outbox sample_relay) = Inr [sample_event ''u2'' 2]
   \<and> set (map o_id [sample_event ''u1'' 1]) \<inter> set (map o_id [sample_event ''u2'' 2]) = {}"
  using relays_claim_apart[of "[]" 1 "rs_outbox sample_relay" "[sample_event ''u1'' 1]" 1 "[sample_event ''u2'' 2]"]
  by (simp add: claim_batch_def unpublished_def sample_event_def sample_relay_def)

text \<open>
  C38: Order is lost when a send fails. If the first of two pending events fails with a KafkaError
  and the second is acknowledged, the next good pass puts the first after the second in the log,
  also when both have the same key.
\<close>

theorem failed_send_reorders:
  assumes "rs_outbox st = [e1, e2]" "o_published_at e1 = None" "o_published_at e2 = None"
    and "o_id e1 \<noteq> o_id e2" "o_created_at e1 \<le> o_created_at e2"
    and "p = sample_pass (\<lambda>r. if r = e1 then \<lparr>f_send = None, f_stored = False, f_ack = Some KafkaError\<rparr> else delivers)"
  shows "rs_log (snd (relay_main 100 [p, sample_pass (\<lambda>_. delivers)] st)) = rs_log st @ [record_of e2, record_of e1]"
proof -
  have ne: "e1 \<noteq> e2" using assms(4) by auto
  have u: "unpublished [e1, e2] = [e1, e2]" using assms(2,3) by (simp add: unpublished_def)
  have sort: "sort_key o_created_at [e1, e2] = [e1, e2]" using assms(5) by (simp add: sort_key_id_if_sorted)
  have pass1: "run_once 100 p st = (Inr 1, \<lparr>rs_outbox = [e1, e2\<lparr>o_published_at := Some (Timestamp 9)\<rparr>],
      rs_log = rs_log st @ [record_of e2]\<rparr>)"
    using assms(4) ne by (simp add: run_once_def claim_batch_def publish_batch_def sample_pass_def assms(1,6) u sort
        mark_published_def delivers_def Let_def)
  have u': "unpublished [e1, e2\<lparr>o_published_at := Some (Timestamp 9)\<rparr>] = [e1]"
    using assms(2) by (simp add: unpublished_def)
  show ?thesis
    using good_pass_run(2)[OF good_sample_pass, of 100 "snd (run_once 100 p st)"]
    by (simp add: pass1 u' Let_def)
qed

theorem failed_send_reorders_witness:
  "rs_log (snd (relay_main 100
     [sample_pass (\<lambda>r. if r = sample_event ''u1'' 1 then \<lparr>f_send = None, f_stored = False, f_ack = Some KafkaError\<rparr> else delivers),
      sample_pass (\<lambda>_. delivers)] sample_relay)) = [record_of (sample_event ''u2'' 2), record_of (sample_event ''u1'' 1)]"
  using failed_send_reorders[OF _ _ _ _ _ refl, of sample_relay "sample_event ''u1'' 1" "sample_event ''u2'' 2"]
  by (simp add: sample_relay_def sample_event_def)

end
