(* ===== verification/Pipeline.thy ===== *)
theory Pipeline
  imports Consumer Mirror Relay
begin

section \<open>From a request to the related database\<close>

text \<open>
  The posts service records changes, the relay publishes them, the consumer of the related
  service applies them. The rows of the related service are abstracted to the same table of posts
  as those of the posts service; every handler refines the change its event stands for.
\<close>

subsection \<open>The related service refines the changes\<close>

definition related_fields :: "related_post \<Rightarrow> post_fields" where
  "related_fields r = (rp_title r, rp_image r, rp_body r, rp_slug r)"

definition related_mirror :: "related_post list \<Rightarrow> mirror" where
  "related_mirror rows = (\<lambda>i. map_option related_fields (row_at rp_id i rows))"

lemma related_fields_with_score [simp]: "related_fields (with_score C s t r) = related_fields r"
  by (simp add: related_fields_def)

lemma related_fields_without_reference [simp]: "related_fields (without_reference s r) = related_fields r"
  by (simp add: related_fields_def)

lemma related_mirror_append_map:
  assumes "\<And>r. rp_id (f r) = rp_id r" "\<And>r. related_fields (f r) = related_fields r"
    and "row_at rp_id (rp_id p) rows = None"
  shows "related_mirror (map f rows @ [p]) = (related_mirror rows)(rp_id p \<mapsto> related_fields p)"
  using assms by (auto simp: related_mirror_def row_at_append row_at_map fun_eq_iff split: option.splits)

lemma related_mirror_map:
  assumes "\<And>r. rp_id (f r) = rp_id r"
    and "\<And>r. r \<in> set rows \<Longrightarrow> related_fields (f r) = (if rp_id r = i then flds else related_fields r)"
    and "row_at rp_id i rows \<noteq> None"
  shows "related_mirror (map f rows) = (related_mirror rows)(i \<mapsto> flds)"
proof
  fix j
  show "related_mirror (map f rows) j = ((related_mirror rows)(i \<mapsto> flds)) j"
    using assms(2,3) row_at_SomeD[of rp_id j rows]
    by (cases "row_at rp_id j rows") (auto simp: related_mirror_def row_at_map[where f = f and key = rp_id, OF assms(1)])
qed

text \<open>Constraints on the posts of the related database.\<close>

definition posts_rows_ok :: "related_post list \<Rightarrow> bool" where
  "posts_rows_ok rows \<longleftrightarrow> list_all post_ok rows \<and> distinct (map rp_id rows) \<and> distinct (map rp_slug rows)"

lemma related_db_ok_posts:
  "related_db_ok db \<Longrightarrow> related_db_ok (db\<lparr>rdb_posts := rows\<rparr>) \<longleftrightarrow> posts_rows_ok rows"
  by (auto simp: related_db_ok_def posts_rows_ok_def)

lemma related_db_ok_rows: "related_db_ok db \<Longrightarrow> posts_rows_ok (rdb_posts db)"
  by (simp add: related_db_ok_def posts_rows_ok_def)

lemma post_ok_related [simp]: "post_ok (r\<lparr>rp_related := d\<rparr>) = post_ok r"
  by (simp add: post_ok_def)

lemma post_ok_with_score [simp]: "post_ok (with_score C s t r) = post_ok r"
  by (simp add: post_ok_def)

lemma post_ok_without_reference [simp]: "post_ok (without_reference s r) = post_ok r"
  by (simp add: post_ok_def)

text \<open>The fields fit the columns of the related service.\<close>

definition fields_fit :: "int \<Rightarrow> string \<Rightarrow> string \<Rightarrow> string \<Rightarrow> string \<Rightarrow> bool" where
  "fields_fit i title img body slug \<longleftrightarrow> int32 i \<and> length title \<le> 200 \<and> length img \<le> 250
     \<and> length body \<le> 1500 \<and> length slug \<le> 250"

lemma posts_rows_ok_created:
  assumes "posts_rows_ok rows" "fields_fit i title img body slug"
    and "row_at rp_id i rows = None" "row_at rp_slug slug rows = None"
  shows "posts_rows_ok (map (with_score C slug title) rows @ [created_row C now i title img body slug rows])"
  using assms
  by (auto simp: posts_rows_ok_def fields_fit_def list_all_iff comp_def row_at_None_iff post_ok_def fits_def)

lemma updated_row_fields [simp]:
  "rp_id (updated_row post title img body slug) = rp_id post"
  "rp_title (updated_row post title img body slug) = title"
  "rp_slug (updated_row post title img body slug) = slug"
  "related_fields (updated_row post title img body slug) = (title, Some img, Some body, slug)"
  "related_fields (r\<lparr>rp_related := d\<rparr>) = related_fields r"
  by (simp_all add: updated_row_def related_fields_def)

lemma post_ok_updated_row:
  "int32 (rp_id post) \<Longrightarrow> fields_fit (rp_id post) title img body slug \<Longrightarrow>
   post_ok (updated_row post title img body slug)"
  by (simp add: post_ok_def fields_fit_def updated_row_def fits_def)

text \<open>Replacing the row with an id keeps the constraints if no other row has the new slug.\<close>

lemma posts_rows_ok_replaced:
  assumes ok: "posts_rows_ok rows" and id: "\<And>r. rp_id (f r) = rp_id r"
    and slug: "\<And>r. r \<in> set rows \<Longrightarrow> rp_slug (f r) = (if rp_id r = i then s else rp_slug r)"
    and row: "\<And>r. r \<in> set rows \<Longrightarrow> post_ok (f r)"
    and free: "\<And>r. r \<in> set rows \<Longrightarrow> rp_slug r = s \<Longrightarrow> rp_id r = i"
  shows "posts_rows_ok (map f rows)"
proof -
  have d: "distinct (map rp_id rows)" "distinct (map rp_slug rows)"
    using ok by (auto simp: posts_rows_ok_def)
  have "inj_on (\<lambda>r. rp_slug (f r)) (set rows)"
  proof (rule inj_onI)
    fix x y assume xy: "x \<in> set rows" "y \<in> set rows" "rp_slug (f x) = rp_slug (f y)"
    then have "rp_id x = i \<longleftrightarrow> rp_id y = i"
      using slug free by (metis (full_types))
    then show "x = y"
      using xy slug distinct_map_inj_on_set[OF d(1)] distinct_map_inj_on_set[OF d(2)] by metis
  qed
  moreover have "distinct rows" using d(1) by (simp add: distinct_map)
  ultimately show ?thesis
    using d(1) row by (auto simp: posts_rows_ok_def list_all_iff distinct_map comp_def id)
qed

text \<open>A created event for a new post, and an updated event for a known or a new one.\<close>

lemma apply_created_refines:
  assumes C: "cosine_law (lib_cosine L)" and ok: "related_db_ok db"
    and fit: "fields_fit i title img body slug"
    and new: "row_at rp_id i (rdb_posts db) = None" "row_at rp_slug slug (rdb_posts db) = None"
  shows "\<exists>db'. apply_created L now (post_payload i title img body slug extra) db = Inr db'
    \<and> related_db_ok db'
    \<and> related_mirror (rdb_posts db') = apply_change (Put i title img body slug) (related_mirror (rdb_posts db))"
proof -
  have "int32 i" using fit by (simp add: fields_fit_def)
  note eval = apply_created_eval[OF C this new(1), of now title img body slug extra]
  have "posts_rows_ok (map (with_score (lib_cosine L) slug title) (rdb_posts db)
      @ [created_row (lib_cosine L) now i title img body slug (rdb_posts db)])"
    by (rule posts_rows_ok_created[OF related_db_ok_rows[OF ok] fit new])
  with eval new show ?thesis
    by (simp add: related_db_ok_posts[OF ok] related_mirror_append_map related_fields_def)
qed

lemma apply_updated_refines:
  assumes C: "cosine_law (lib_cosine L)" and ok: "related_db_ok db"
    and fit: "fields_fit i title img body slug"
    and known: "row_at rp_id i (rdb_posts db) = Some post"
    and free: "\<And>r. r \<in> set (rdb_posts db) \<Longrightarrow> rp_slug r = slug \<Longrightarrow> rp_id r = i"
  shows "\<exists>db'. apply_updated L now (post_payload i title img body slug extra) db = Inr db'
    \<and> related_db_ok db'
    \<and> related_mirror (rdb_posts db') = apply_change (Put i title img body slug) (related_mirror (rdb_posts db))"
proof -
  let ?u = "updated_row post title img body slug"
  let ?rows = "rdb_posts db"
  have i: "int32 i" using fit by (simp add: fields_fit_def)
  have id: "rp_id post = i" using row_at_SomeD[OF known] by simp
  have uok: "post_ok ?u" using fit i id post_ok_updated_row by blast
  have old: "post_ok r" if "r \<in> set ?rows" for r
    using ok that by (auto simp: related_db_ok_def list_all_iff)
  have set_ok: "posts_rows_ok (set_post ?u ?rows)"
    unfolding set_post_def
    by (rule posts_rows_ok_replaced[OF related_db_ok_rows[OF ok], of _ i slug])
      (use id uok old free in auto)
  show ?thesis
  proof (cases "py_strip title = py_strip (rp_title post)")
    case True
    have "related_mirror (set_post ?u ?rows) = (related_mirror ?rows)(i \<mapsto> (title, Some img, Some body, slug))"
      unfolding set_post_def by (rule related_mirror_map) (use id known in auto)
    with apply_updated_same_title[OF i known True] set_ok show ?thesis
      by (simp add: related_db_ok_posts[OF ok])
  next
    case False
    let ?f = "\<lambda>r. if rp_id r = i
      then ?u\<lparr>rp_related := scores (lib_cosine L) title (filter (\<lambda>r. rp_id r \<noteq> i) ?rows) []\<rparr>
      else with_score (lib_cosine L) slug title r"
    have db1: "related_db_ok (db\<lparr>rdb_posts := set_post ?u ?rows\<rparr>)"
      using set_ok by (simp add: related_db_ok_posts[OF ok])
    have "posts_rows_ok (map ?f ?rows)"
      by (rule posts_rows_ok_replaced[OF related_db_ok_rows[OF ok], of _ i slug])
        (use id uok old free in auto)
    moreover have "related_mirror (map ?f ?rows) = (related_mirror ?rows)(i \<mapsto> (title, Some img, Some body, slug))"
      by (rule related_mirror_map) (use id known in auto)
    ultimately show ?thesis
      using apply_updated_new_title[OF C i known False db1]
      by (simp add: related_db_ok_posts[OF ok])
  qed
qed

lemma apply_deleted_refines:
  assumes ok: "related_db_ok db" and p: "getitem p ''slug'' = Inr (JStr slug)"
  shows "\<exists>db'. apply_deleted L p db = Inr db' \<and> related_db_ok db'
    \<and> related_mirror (rdb_posts db') = apply_change (Drop slug) (related_mirror (rdb_posts db))"
proof -
  let ?rows = "rdb_posts db"
  have rows: "posts_rows_ok ?rows" by (rule related_db_ok_rows[OF ok])
  then have d: "distinct (map rp_id ?rows)" "distinct (map rp_slug ?rows)"
    by (auto simp: posts_rows_ok_def)
  have "posts_rows_ok (map (without_reference slug) (filter (\<lambda>r. rp_slug r \<noteq> slug) ?rows))"
    using rows by (auto simp: posts_rows_ok_def list_all_iff comp_def distinct_map_filter_key)
  moreover have "related_mirror (map (without_reference slug) (filter (\<lambda>r. rp_slug r \<noteq> slug) ?rows))
      = apply_change (Drop slug) (related_mirror ?rows)"
    by (auto simp: related_mirror_def row_at_map row_at_filter[OF d(1)] fun_eq_iff slug_of_def
        related_fields_def split: option.splits)
  ultimately show ?thesis
    using apply_deleted_eval[OF p d(2)] by (simp add: related_db_ok_posts[OF ok])
qed

subsection \<open>Records as messages\<close>

text \<open>
  A record of the log as the consumer receives it, at some partition and offset: topic, headers
  and value are those the relay sent. An event id is what \<open>str(uuid)\<close> can be: not empty, ASCII,
  and short enough for the column of processed_events.
\<close>

definition message_of :: "nat \<times> nat \<Rightarrow> kafka_record \<Rightarrow> message" where
  "message_of place k = \<lparr>m_topic = k_topic k, m_partition = fst place, m_offset = snd place,
     m_headers = k_headers k, m_value = k_value k\<rparr>"

definition event_id_ok :: "string \<Rightarrow> bool" where
  "event_id_ok u \<longleftrightarrow> u \<noteq> [] \<and> length u \<le> 64 \<and> list_all (\<lambda>c. code c < 128) u"

text \<open>The relay's header survives the trip: the consumer reads the id of the outbox row.\<close>

lemma event_id_roundtrip:
  "event_id_ok (o_id e) \<Longrightarrow> event_id_for L (message_of place (record_of e)) = Inr (o_id e)"
  by (cases "o_id e")
    (simp_all add: event_id_ok_def event_id_for_def message_of_def record_of_def decode_bytes_def)

definition processed_ids :: "related_db \<Rightarrow> string list" where
  "processed_ids db = map pe_event_id (rdb_processed db)"

lemma handle_commits:
  assumes h: "HANDLERS L now (m_topic m) = Some h" "h (m_value m) db = Inr db1" "related_db_ok db1"
    and ev: "event_id_for L m = Inr u" "u \<notin> set (processed_ids db)"
    and len: "length u \<le> 64" "length (m_topic m) \<le> 100"
  shows "\<exists>db'. handle L now Works m db = (Inr True, db') \<and> rdb_posts db' = rdb_posts db1
    \<and> processed_ids db' = processed_ids db @ [u] \<and> related_db_ok db'"
proof -
  let ?db' = "db1\<lparr>rdb_processed := rdb_processed db1 @
      [\<lparr>pe_event_id = u, pe_topic = m_topic m, pe_processed_at = now\<rparr>]\<rparr>"
  have same: "rdb_processed db1 = rdb_processed db" by (rule HANDLERS_frame[OF h(1,2)])
  have ok: "related_db_ok ?db'"
    using h(3) ev(2) len by (auto simp: related_db_ok_def processed_ok_def processed_ids_def same)
  have run: "run_handler L now u m db = Inr ?db'"
    using h(1,2) ok by (simp add: run_handler_def flush_def)
  have "\<not> applied L db m" using ev by (auto simp: applied_iff processed_ids_def)
  then have "handle L now Works m db = (Inr True, ?db')"
    using run ev by (cases rule: handle_cases[of L m now Works db]) auto
  with ok show ?thesis by (simp add: processed_ids_def same)
qed

subsection \<open>One event, end to end\<close>

text \<open>Everything the related service is asked to accept: bodies fit, ids are in range, ids are uuids.\<close>

definition validate_law :: "posts_lib \<Rightarrow> bool" where
  "validate_law L \<longleftrightarrow> (\<forall>db inst data v. validate L db inst data = Some v \<longrightarrow> length (v_body v) \<le> 1500)"

text \<open>The bodies and the ids of the table of the posts service stay in range.\<close>

definition bodies_ok :: "posts_db \<Rightarrow> bool" where
  "bodies_ok db \<longleftrightarrow> (\<forall>p\<in>set (pdb_posts db). length (p_body p) \<le> 1500 \<and> 1 \<le> p_id p \<and> p_id p < pdb_next_id db)
     \<and> 1 \<le> pdb_next_id db"

lemma bodies_ok_run_view:
  assumes V: "validate_law L" and ok: "bodies_ok db" and r: "run_view L req op db = (Inr r, db')"
  shows "bodies_ok db'"
proof (cases op)
  case (Create data)
  with r V ok show ?thesis
    by (force simp: bodies_ok_def validate_law_def inserted_row_def dest!: create_post_accepted)
next
  case (Update slug data)
  with r V ok show ?thesis
    by (fastforce simp: bodies_ok_def validate_law_def saved_row_def dest!: update_post_accepted
        dest: row_at_SomeD)
next
  case (Destroy slug)
  with r ok show ?thesis
    by (auto simp: bodies_ok_def dest!: destroy_post_accepted)
qed

definition in_step :: "posts_db \<Rightarrow> related_db \<Rightarrow> bool" where
  "in_step pdb rdb \<longleftrightarrow> related_db_ok rdb \<and> related_mirror (rdb_posts rdb) = posts_mirror (pdb_posts pdb)
     \<and> processed_ids rdb = map o_id (pdb_outbox pdb)"

lemma in_step_row:
  assumes "in_step pdb rdb" "row_at rp_id i (rdb_posts rdb) = Some r"
  shows "\<exists>p\<in>set (pdb_posts pdb). p_id p = i \<and> p_slug p = rp_slug r"
proof -
  have "related_mirror (rdb_posts rdb) i = Some (related_fields r)"
    using assms(2) by (simp add: related_mirror_def)
  then have "posts_mirror (pdb_posts pdb) i = Some (related_fields r)"
    using assms(1) by (simp add: in_step_def)
  then show ?thesis
    by (auto simp: posts_mirror_def related_fields_def dest: row_at_SomeD)
qed

lemma in_step_member:
  assumes "in_step pdb rdb" "r \<in> set (rdb_posts rdb)"
  shows "\<exists>p\<in>set (pdb_posts pdb). p_id p = rp_id r \<and> p_slug p = rp_slug r"
  using in_step_row[OF assms(1) row_at_distinct[OF _ assms(2)]] assms(1)
  by (simp add: in_step_def related_db_ok_distinct)

lemma in_step_known:
  assumes "in_step pdb rdb" "p \<in> set (pdb_posts pdb)"
  shows "row_at rp_id (p_id p) (rdb_posts rdb) \<noteq> None"
proof -
  have "posts_mirror (pdb_posts pdb) (p_id p) \<noteq> None"
    using assms(2) by (simp add: posts_mirror_def row_at_None_iff)
  then have "related_mirror (rdb_posts rdb) (p_id p) \<noteq> None"
    using assms(1) by (simp add: in_step_def)
  then show ?thesis by (simp add: related_mirror_def)
qed

text \<open>
  The step of the simulation: whatever a request does to the posts database, delivering the
  event it recorded does to the related database.
\<close>

lemma step_created:
  assumes C: "cosine_law (lib_cosine R)" and sync: "in_step pdb rdb"
    and rowsok: "posts_db_ok (pdb\<lparr>pdb_posts := pdb_posts pdb @ [p]\<rparr>)"
    and p: "length (p_body p) \<le> 1500" "int32 (p_id p)"
  shows "\<exists>db'. apply_created R now (post_data P p) rdb = Inr db' \<and> related_db_ok db'
    \<and> related_mirror (rdb_posts db') = apply_change (put_row p) (related_mirror (rdb_posts rdb))"
proof -
  have data: "post_data P p = post_payload (p_id p) (p_title p) (p_image p) (p_body p) (p_slug p)
      [(''created_at'', JStr (iso P (p_created_at p))), (''updated_at'', JStr (iso P (p_updated_at p)))]"
    by (simp add: post_data_def post_payload_def)
  have fit: "fields_fit (p_id p) (p_title p) (p_image p) (p_body p) (p_slug p)"
    using rowsok p by (simp add: fields_fit_def posts_db_ok_def post_row_ok_def)
  have "p_id p \<notin> p_id ` set (pdb_posts pdb)" "p_slug p \<notin> p_slug ` set (pdb_posts pdb)"
    using rowsok by (auto simp: posts_db_ok_def)
  then have new: "row_at rp_id (p_id p) (rdb_posts rdb) = None" "row_at rp_slug (p_slug p) (rdb_posts rdb) = None"
    using in_step_member[OF sync] by (force simp: row_at_None_iff)+
  have "related_db_ok rdb" using sync by (simp add: in_step_def)
  from apply_created_refines[OF C this fit new] show ?thesis by (simp add: data put_row_def)
qed

lemma step_updated:
  assumes C: "cosine_law (lib_cosine R)" and sync: "in_step pdb rdb"
    and q: "q \<in> set (pdb_posts pdb)" "p_id p = p_id q"
    and rowsok: "posts_db_ok (pdb\<lparr>pdb_posts := map (\<lambda>r. if p_id r = p_id q then p else r) (pdb_posts pdb)\<rparr>)"
    and p: "length (p_body p) \<le> 1500" "int32 (p_id p)"
  shows "\<exists>db'. apply_updated R now (post_data P p) rdb = Inr db' \<and> related_db_ok db'
    \<and> related_mirror (rdb_posts db') = apply_change (put_row p) (related_mirror (rdb_posts rdb))"
proof -
  let ?rows = "map (\<lambda>r. if p_id r = p_id q then p else r) (pdb_posts pdb)"
  have data: "post_data P p = post_payload (p_id p) (p_title p) (p_image p) (p_body p) (p_slug p)
      [(''created_at'', JStr (iso P (p_created_at p))), (''updated_at'', JStr (iso P (p_updated_at p)))]"
    by (simp add: post_data_def post_payload_def)
  have pin: "p \<in> set ?rows" using q by force
  have fit: "fields_fit (p_id p) (p_title p) (p_image p) (p_body p) (p_slug p)"
  proof -
    have "list_all post_row_ok ?rows" using rowsok by (simp add: posts_db_ok_def)
    then have "post_row_ok p" using pin by (simp only: list_all_iff)
    with p show ?thesis by (simp add: fields_fit_def post_row_ok_def)
  qed
  obtain post where known: "row_at rp_id (p_id p) (rdb_posts rdb) = Some post"
    using in_step_known[OF sync q(1)] q(2) by auto
  have free: "rp_id r = p_id p" if r: "r \<in> set (rdb_posts rdb)" "rp_slug r = p_slug p" for r
  proof (rule ccontr)
    assume ne: "rp_id r \<noteq> p_id p"
    obtain p' where p': "p' \<in> set (pdb_posts pdb)" "p_id p' = rp_id r" "p_slug p' = rp_slug r"
      using in_step_member[OF sync r(1)] by blast
    with ne q(2) have "p' \<in> set ?rows" by (force simp: image_iff)
    moreover have "distinct (map p_slug ?rows)" using rowsok by (simp add: posts_db_ok_def)
    moreover have "p_slug p' = p_slug p" using p'(3) r(2) by simp
    ultimately have "p' = p" by (intro distinct_map_inj_on_set[of p_slug ?rows p' p] pin)
    with p'(2) ne show False by simp
  qed
  have "related_db_ok rdb" using sync by (simp add: in_step_def)
  from apply_updated_refines[OF C this fit known free] show ?thesis by (simp add: data put_row_def)
qed

lemma bodies_ok_int32:
  "bodies_ok db \<Longrightarrow> pdb_next_id db \<le> 2147483648 \<Longrightarrow> p \<in> set (pdb_posts db) \<Longrightarrow> int32 (p_id p)"
  by (fastforce simp: bodies_ok_def int32_def)

lemma handler_simps [simp]:
  "HANDLERS R now TOPIC_CREATED = Some (apply_created R now)"
  "HANDLERS R now TOPIC_UPDATED = Some (apply_updated R now)"
  "HANDLERS R now TOPIC_DELETED = Some (apply_deleted R)"
  by (simp_all add: HANDLERS_def TOPIC_CREATED_def TOPIC_UPDATED_def TOPIC_DELETED_def)

lemma topic_lengths [simp]:
  "length TOPIC_CREATED \<le> 100" "length TOPIC_UPDATED \<le> 100" "length TOPIC_DELETED \<le> 100"
  by (simp_all add: TOPIC_CREATED_def TOPIC_UPDATED_def TOPIC_DELETED_def)

text \<open>The handler of the event an accepted request records.\<close>

lemma step_handler:
  assumes C: "cosine_law (lib_cosine R)" and sync: "in_step pdb rdb"
    and ok: "posts_db_ok pdb" and bodies: "bodies_ok pdb'" and small: "pdb_next_id pdb' \<le> 2147483648"
    and r: "run_view P req op pdb = (Inr r, pdb')"
  shows "\<exists>e h db1. pdb_outbox pdb' = pdb_outbox pdb @ [e] \<and> o_id e = req_uuid req \<and> length (o_topic e) \<le> 100
    \<and> HANDLERS R now (o_topic e) = Some h \<and> h (o_payload e) rdb = Inr db1
    \<and> related_db_ok db1 \<and> related_mirror (rdb_posts db1) = posts_mirror (pdb_posts pdb')"
proof (cases op)
  case (Create data)
  obtain v where db': "pdb' = pdb\<lparr>pdb_posts := pdb_posts pdb @ [inserted_row req v (pdb_next_id pdb)],
      pdb_outbox := pdb_outbox pdb @ [recorded req TOPIC_CREATED (v_slug v)
         (post_data P (inserted_row req v (pdb_next_id pdb)))],
      pdb_next_id := pdb_next_id pdb + 1\<rparr>" and ok': "posts_db_ok pdb'"
    using r create_post_accepted[of P req data pdb r pdb'] by (auto simp: Create)
  let ?p = "inserted_row req v (pdb_next_id pdb)"
  have pin: "?p \<in> set (pdb_posts pdb')" by (simp add: db')
  have rows: "posts_db_ok (pdb\<lparr>pdb_posts := pdb_posts pdb @ [?p]\<rparr>)"
    using ok ok' by (simp add: db' posts_db_ok_def)
  have "length (p_body ?p) \<le> 1500" "int32 (p_id ?p)"
    using bodies pin bodies_ok_int32[OF bodies small pin] by (auto simp: bodies_ok_def)
  from step_created[OF C sync rows this, of now P] rows sync show ?thesis
    by (auto simp: db' posts_mirror_insert posts_db_ok_def in_step_def)
next
  case (Update slug data)
  obtain post v where at: "row_at p_slug slug (pdb_posts pdb) = Some post"
    and db': "pdb' = pdb\<lparr>pdb_posts := map (\<lambda>q. if p_id q = p_id post then saved_row req post v else q) (pdb_posts pdb),
       pdb_outbox := pdb_outbox pdb @ [recorded req TOPIC_UPDATED (v_slug v) (post_data P (saved_row req post v))]\<rparr>"
    and ok': "posts_db_ok pdb'"
    using r update_post_accepted[of P req slug data pdb r pdb'] by (auto simp: Update)
  let ?p = "saved_row req post v"
  have post: "post \<in> set (pdb_posts pdb)" using row_at_SomeD[OF at] by simp
  then have pin: "?p \<in> set (pdb_posts pdb')" by (force simp: db')
  have rows: "posts_db_ok (pdb\<lparr>pdb_posts := map (\<lambda>q. if p_id q = p_id post then ?p else q) (pdb_posts pdb)\<rparr>)"
    using ok ok' by (simp add: db' posts_db_ok_def)
  have fit: "length (p_body ?p) \<le> 1500" "int32 (p_id ?p)"
    using bodies pin bodies_ok_int32[OF bodies small pin] by (auto simp: bodies_ok_def)
  have "p_id ?p = p_id post" by simp
  from step_updated[OF C sync post this rows fit, of now P] sync posts_mirror_update[OF post this]
  show ?thesis by (auto simp: db' in_step_def)
next
  case (Destroy slug)
  obtain post where at: "row_at p_slug slug (pdb_posts pdb) = Some post"
    and db': "pdb' = pdb\<lparr>pdb_posts := filter (\<lambda>q. p_id q \<noteq> p_id post) (pdb_posts pdb),
       pdb_outbox := pdb_outbox pdb @ [recorded req TOPIC_DELETED slug
         (JObj [(''id'', JInt (p_id post)), (''slug'', JStr slug)])]\<rparr>"
    using r destroy_post_accepted[of req slug pdb r pdb'] by (auto simp: Destroy)
  have "posts_mirror (filter (\<lambda>q. p_id q \<noteq> p_id post) (pdb_posts pdb)) = apply_change (Drop slug) (posts_mirror (pdb_posts pdb))"
    using ok by (intro posts_mirror_delete[OF at]) (auto simp: posts_db_ok_def)
  moreover have "related_db_ok rdb" using sync by (simp add: in_step_def)
  ultimately show ?thesis
    using apply_deleted_refines[of rdb "JObj [(''id'', JInt (p_id post)), (''slug'', JStr slug)]" slug R] sync
    by (auto simp: db' in_step_def)
qed

lemma step_view:
  assumes C: "cosine_law (lib_cosine R)" and sync: "in_step pdb rdb"
    and ok: "posts_db_ok pdb" and bodies: "bodies_ok pdb'" and small: "pdb_next_id pdb' \<le> 2147483648"
    and uuid: "event_id_ok (req_uuid req)"
    and r: "run_view P req op pdb = (Inr r, pdb')"
  shows "\<exists>e. pdb_outbox pdb' = pdb_outbox pdb @ [e] \<and>
    (\<forall>now place. \<exists>rdb'. handle R now Works (message_of place (record_of e)) rdb = (Inr True, rdb') \<and> in_step pdb' rdb')"
proof -
  obtain e where e: "pdb_outbox pdb' = pdb_outbox pdb @ [e]"
    using step_handler[OF C sync ok bodies small r] by blast
  have "posts_db_ok pdb'" using run_view_accepted[OF ok r] by simp
  then have fresh: "o_id e \<notin> set (processed_ids rdb)"
    using sync by (auto simp: posts_db_ok_def e in_step_def)
  have "\<exists>rdb'. handle R now Works (message_of place (record_of e)) rdb = (Inr True, rdb') \<and> in_step pdb' rdb'" for now place
  proof -
    obtain h db1 where h: "o_id e = req_uuid req" "length (o_topic e) \<le> 100"
      "HANDLERS R now (o_topic e) = Some h" "h (o_payload e) rdb = Inr db1" "related_db_ok db1"
      and mirror: "related_mirror (rdb_posts db1) = posts_mirror (pdb_posts pdb')"
      using step_handler[OF C sync ok bodies small r, of now] by (auto simp: e)
    let ?m = "message_of place (record_of e)"
    have ev: "event_id_for R ?m = Inr (o_id e)" using uuid h(1) by (simp add: event_id_roundtrip)
    have m: "m_topic ?m = o_topic e" "m_value ?m = o_payload e"
      by (simp_all add: message_of_def record_of_def)
    have "length (o_id e) \<le> 64" using uuid h(1) by (simp add: event_id_ok_def)
    from handle_commits[of R now ?m h rdb db1 "o_id e", unfolded m, OF h(3-5) ev fresh this h(2)]
    obtain rdb' where "handle R now Works ?m rdb = (Inr True, rdb')" "rdb_posts rdb' = rdb_posts db1"
      "processed_ids rdb' = processed_ids rdb @ [o_id e]" "related_db_ok rdb'" by blast
    moreover have "processed_ids rdb = map o_id (pdb_outbox pdb)" using sync by (simp add: in_step_def)
    ultimately show ?thesis using mirror by (auto simp: in_step_def e)
  qed
  with e show ?thesis by blast
qed

subsection \<open>All events, delivered in order\<close>

definition deliveries :: "(kafka_record \<Rightarrow> timestamp) \<Rightarrow> (kafka_record \<Rightarrow> nat \<times> nat) \<Rightarrow> kafka_record list \<Rightarrow> delivery list" where
  "deliveries clock place records = map (\<lambda>k. (clock k, Works, message_of (place k) k)) records"

definition events :: "posts_db \<Rightarrow> kafka_record list" where
  "events db = map record_of (pdb_outbox db)"

lemma pipeline_in_order:
  assumes C: "cosine_law (lib_cosine R)" and V: "validate_law P"
    and uuids: "\<forall>(req, op)\<in>set ops. event_id_ok (req_uuid req)" and few: "length ops < 2147483647"
  defines "pdb \<equiv> run_views P ops empty_posts_db"
  shows "in_step pdb (fold (deliver R) (deliveries clock place (events pdb)) empty_related_db)
    \<and> applies_all (delivered R) (deliver R) (deliveries clock place (events pdb)) empty_related_db
    \<and> bodies_ok pdb \<and> pdb_next_id pdb \<le> 1 + int (length ops)"
  unfolding pdb_def using uuids few
proof (induction ops rule: rev_induct)
  case Nil
  show ?case
    by (simp add: empty_posts_db_def in_step_def deliveries_def events_def related_mirror_def posts_mirror_def
        empty_related_db_def processed_ids_def bodies_ok_def related_db_ok_def)
next
  case (snoc o1 ops)
  obtain req op where o1: "o1 = (req, op)" by fastforce
  let ?db = "run_views P ops empty_posts_db"
  let ?rdb = "fold (deliver R) (deliveries clock place (events ?db)) empty_related_db"
  have IH: "in_step ?db ?rdb" "applies_all (delivered R) (deliver R) (deliveries clock place (events ?db)) empty_related_db"
    "bodies_ok ?db" "pdb_next_id ?db \<le> 1 + int (length ops)"
    using snoc by auto
  obtain r db' where r: "run_view P req op ?db = (r, db')" by fastforce
  have next_db: "run_views P (ops @ [o1]) empty_posts_db = db'"
    using r by (simp add: o1 run_views_snoc)
  have ok: "posts_db_ok ?db" using run_views_changelog by blast
  show ?case
  proof (cases r)
    case (Inl e)
    then have "same_rows ?db db'" using r run_view_rejected by blast
    moreover have "pdb_next_id ?db \<le> pdb_next_id db' \<and> pdb_next_id db' \<le> pdb_next_id ?db + 1"
      using r Inl run_view_next_id by blast
    ultimately show ?thesis using IH by (auto simp: next_db same_rows_def in_step_def bodies_ok_def events_def)
  next
    case (Inr x)
    note r' = r[unfolded Inr]
    have id: "pdb_next_id db' \<le> 1 + int (length (ops @ [o1]))"
      using run_view_accepted[OF ok r'] IH(4) by simp
    then have small: "pdb_next_id db' \<le> 2147483648" using snoc.prems(2) by simp
    have bodies: "bodies_ok db'" by (rule bodies_ok_run_view[OF V IH(3) r'])
    have uuid: "event_id_ok (req_uuid req)" using snoc.prems(1) by (simp add: o1)
    obtain e where e: "pdb_outbox db' = pdb_outbox ?db @ [e]" and
      step: "\<And>now place. \<exists>rdb'. handle R now Works (message_of place (record_of e)) ?rdb = (Inr True, rdb') \<and> in_step db' rdb'"
      using step_view[OF C IH(1) ok bodies small uuid r'] by blast
    obtain rdb' where h: "handle R (clock (record_of e)) Works (message_of (place (record_of e)) (record_of e)) ?rdb = (Inr True, rdb')" "in_step db' rdb'"
      using step by blast
    have "delivered R rdb' (clock (record_of e), Works, message_of (place (record_of e)) (record_of e))"
      using handle_True_applied[OF h(1)] by (simp add: delivered_def)
    moreover have "deliver R (clock (record_of e), Works, message_of (place (record_of e)) (record_of e)) ?rdb = rdb'"
      by (simp add: deliver_def h(1))
    ultimately show ?thesis
      using h(2) IH(2) bodies id by (simp add: next_db e deliveries_def events_def applies_all_append)
  qed
qed

text \<open>The outbox lists the events by age when the clock of the requests does not go back.\<close>

lemma outbox_by_age:
  assumes "sorted (map (\<lambda>(req, op). req_now req) ops)"
  shows "sorted (map o_created_at (pdb_outbox (run_views L ops empty_posts_db)))
    \<and> o_created_at ` set (pdb_outbox (run_views L ops empty_posts_db)) \<subseteq> (\<lambda>(req, op). req_now req) ` set ops"
  using assms
proof (induction ops rule: rev_induct)
  case (snoc o1 ops)
  obtain req op where o1: "o1 = (req, op)" by fastforce
  let ?db = "run_views L ops empty_posts_db"
  obtain r db' where r: "run_view L req op ?db = (r, db')" by fastforce
  have next_db: "run_views L (ops @ [o1]) empty_posts_db = db'" using r by (simp add: o1 run_views_snoc)
  have IH: "sorted (map o_created_at (pdb_outbox ?db))"
    "o_created_at ` set (pdb_outbox ?db) \<subseteq> (\<lambda>(req, op). req_now req) ` set ops"
    and last: "\<forall>t\<in>(\<lambda>(req, op). req_now req) ` set ops. t \<le> req_now req"
    using snoc by (auto simp: sorted_append o1)
  show ?case
  proof (cases r)
    case (Inl e)
    then have "pdb_outbox db' = pdb_outbox ?db"
      using r run_view_rejected[of L req op ?db e db'] by (simp add: same_rows_def)
    with IH show ?thesis by (auto simp: next_db)
  next
    case (Inr x)
    have "posts_db_ok ?db" using run_views_changelog by blast
    then obtain e where "pdb_outbox db' = pdb_outbox ?db @ [e]" "o_created_at e = req_now req"
      using run_view_accepted[of ?db L req op x db'] r Inr by auto
    moreover have "\<forall>e\<in>set (pdb_outbox ?db). o_created_at e \<le> req_now req"
      using IH(2) last by blast
    ultimately show ?thesis
      using IH unfolding next_db by (auto simp: sorted_append o1)
  qed
qed (simp add: empty_posts_db_def)

text \<open>The relay moves the outbox to the log.\<close>

definition relayed :: "int \<Rightarrow> pass list \<Rightarrow> posts_db \<Rightarrow> kafka_record list" where
  "relayed b ps db = rs_log (snd (relay_main b ps \<lparr>rs_outbox = pdb_outbox db, rs_log = []\<rparr>))"

definition all_unpublished :: "posts_db \<Rightarrow> bool" where
  "all_unpublished db \<longleftrightarrow> (\<forall>e\<in>set (pdb_outbox db). o_published_at e = None)"

lemma run_views_unpublished: "all_unpublished (run_views L ops empty_posts_db)"
proof (induction ops rule: rev_induct)
  case (snoc o1 ops)
  obtain req op where o1: "o1 = (req, op)" by fastforce
  let ?db = "run_views L ops empty_posts_db"
  obtain r db' where r: "run_view L req op ?db = (r, db')" by fastforce
  have next_db: "run_views L (ops @ [o1]) empty_posts_db = db'" using r by (simp add: o1 run_views_snoc)
  have "posts_db_ok ?db" using run_views_changelog by blast
  then show ?case
    using snoc.IH r run_view_rejected[of L req op ?db _ db'] run_view_accepted[of ?db L req op _ db']
    by (cases r) (auto simp: next_db all_unpublished_def same_rows_def)
qed (simp add: all_unpublished_def empty_posts_db_def)

lemma relayed_in_order:
  assumes "posts_db_ok db" "all_unpublished db" "sorted (map o_created_at (pdb_outbox db))"
    and good: "\<forall>p\<in>set ps. good_pass (b, p)" and enough: "length (pdb_outbox db) \<le> length ps"
  shows "relayed b ps db = events db"
proof -
  let ?st = "\<lparr>rs_outbox = pdb_outbox db, rs_log = []\<rparr>"
  have u: "unpublished (pdb_outbox db) = pdb_outbox db"
    using assms(2) by (simp add: all_unpublished_def unpublished_def)
  have inv: "relay_inv ?st" "outbox_sorted ?st"
    using assms(1,3) by (simp_all add: relay_inv_def outbox_sorted_def posts_db_ok_def)
  have good': "\<forall>p\<in>set (map (Pair b) ps). good_pass p" using good by auto
  have "relay_pending (fold relay_pass (map (Pair b) ps) ?st) = []"
    using inv(1) good' enough by (intro relay.drained) (simp_all add: relay_pending_def u)
  with relay_fifo[OF inv good'] show ?thesis
    by (simp add: relayed_def events_def relay_main_fold relay_pending_def u)
qed

subsection \<open>Events of one post out of order\<close>

text \<open>
  The three kinds of events have topics of their own, and Kafka orders a topic only; so the events of
  one post can overtake each other.
\<close>

lemma handle_put:
  assumes C: "cosine_law (lib_cosine L)" and ok: "related_db_ok db" and fit: "fields_fit i title img body slug"
    and m: "m_topic m = TOPIC_UPDATED" "m_value m = post_payload i title img body slug extra"
    and ev: "event_id_for L m = Inr u" "u \<notin> set (processed_ids db)" "length u \<le> 64"
    and new: "row_at rp_id i (rdb_posts db) = None" "row_at rp_slug slug (rdb_posts db) = None"
  shows "\<exists>db'. handle L now Works m db = (Inr True, db') \<and> related_db_ok db' \<and> processed_ids db' = processed_ids db @ [u]
    \<and> related_mirror (rdb_posts db') = (related_mirror (rdb_posts db))(i \<mapsto> (title, Some img, Some body, slug))"
proof -
  have i: "int32 i" using fit by (simp add: fields_fit_def)
  obtain db1 where db1: "apply_updated L now (m_value m) db = Inr db1" "related_db_ok db1"
    "related_mirror (rdb_posts db1) = (related_mirror (rdb_posts db))(i \<mapsto> (title, Some img, Some body, slug))"
    using apply_created_refines[OF C ok fit new, of now extra] apply_updated_unknown[OF i new(1)]
    by (auto simp: m(2))
  have h: "HANDLERS L now (m_topic m) = Some (apply_updated L now)" by (simp add: m(1))
  have len: "length (m_topic m) \<le> 100" by (simp add: m(1))
  from handle_commits[OF h db1(1,2) ev len] db1(3) show ?thesis by auto
qed

lemma handle_create_known:
  assumes ok: "related_db_ok db" and i: "int32 i" "row_at rp_id i (rdb_posts db) \<noteq> None"
    and m: "m_topic m = TOPIC_CREATED" "m_value m = post_payload i title img body slug extra"
    and ev: "event_id_for L m = Inr u" "u \<notin> set (processed_ids db)" "length u \<le> 64"
  shows "\<exists>db'. handle L now Works m db = (Inr True, db') \<and> rdb_posts db' = rdb_posts db
    \<and> processed_ids db' = processed_ids db @ [u] \<and> related_db_ok db'"
proof -
  obtain r where "row_at rp_id i (rdb_posts db) = Some r" using i(2) by auto
  then have h1: "apply_created L now (m_value m) db = Inr db"
    using apply_created_known[OF i(1), of db r L now title img body slug extra] by (simp add: m(2))
  have h: "HANDLERS L now (m_topic m) = Some (apply_created L now)" by (simp add: m(1))
  have len: "length (m_topic m) \<le> 100" by (simp add: m(1))
  from handle_commits[OF h h1 ok ev len] show ?thesis .
qed

lemma handle_create_new:
  assumes C: "cosine_law (lib_cosine L)" and ok: "related_db_ok db" and fit: "fields_fit i title img body slug"
    and m: "m_topic m = TOPIC_CREATED" "m_value m = post_payload i title img body slug extra"
    and ev: "event_id_for L m = Inr u" "u \<notin> set (processed_ids db)" "length u \<le> 64"
    and new: "row_at rp_id i (rdb_posts db) = None" "row_at rp_slug slug (rdb_posts db) = None"
  shows "\<exists>db'. handle L now Works m db = (Inr True, db') \<and> related_db_ok db' \<and> processed_ids db' = processed_ids db @ [u]
    \<and> related_mirror (rdb_posts db') = (related_mirror (rdb_posts db))(i \<mapsto> (title, Some img, Some body, slug))"
proof -
  obtain db1 where db1: "apply_created L now (m_value m) db = Inr db1" "related_db_ok db1"
    "related_mirror (rdb_posts db1) = (related_mirror (rdb_posts db))(i \<mapsto> (title, Some img, Some body, slug))"
    using apply_created_refines[OF C ok fit new, of now extra] by (auto simp: m(2))
  have h: "HANDLERS L now (m_topic m) = Some (apply_created L now)" by (simp add: m(1))
  have len: "length (m_topic m) \<le> 100" by (simp add: m(1))
  from handle_commits[OF h db1(1,2) ev len] db1(3) show ?thesis by auto
qed

lemma handle_delete_unknown:
  assumes ok: "related_db_ok db" and m: "m_topic m = TOPIC_DELETED" "getitem (m_value m) ''slug'' = Inr (JStr slug)"
    and ev: "event_id_for L m = Inr u" "u \<notin> set (processed_ids db)" "length u \<le> 64"
    and new: "row_at rp_slug slug (rdb_posts db) = None"
  shows "\<exists>db'. handle L now Works m db = (Inr True, db') \<and> related_db_ok db' \<and> processed_ids db' = processed_ids db @ [u]
    \<and> related_mirror (rdb_posts db') = related_mirror (rdb_posts db)"
proof -
  obtain db1 where db1: "apply_deleted L (m_value m) db = Inr db1" "related_db_ok db1"
    "related_mirror (rdb_posts db1) = apply_change (Drop slug) (related_mirror (rdb_posts db))"
    using apply_deleted_refines[OF ok m(2)] by blast
  have "slug_of (related_fields r) \<noteq> slug" if "row_at rp_id i (rdb_posts db) = Some r" for i r
    using row_at_SomeD[OF that] new by (auto simp: row_at_None_iff slug_of_def related_fields_def)
  then have same: "apply_change (Drop slug) (related_mirror (rdb_posts db)) = related_mirror (rdb_posts db)"
    by (auto simp: related_mirror_def fun_eq_iff split: option.splits)
  have h: "HANDLERS L now (m_topic m) = Some (apply_deleted L)" by (simp add: m(1))
  have len: "length (m_topic m) \<le> 100" by (simp add: m(1))
  from handle_commits[OF h db1(1,2) ev len] db1(3) same show ?thesis by auto
qed

subsection \<open>The scores, end to end\<close>

text \<open>A request that does not rename: an update is valid only with the slug it addresses.\<close>

fun keeps_slug :: "posts_lib \<Rightarrow> view_op \<Rightarrow> bool" where
  "keeps_slug P (Update slug data) \<longleftrightarrow> (\<forall>db inst v. validate P db inst data = Some v \<longrightarrow> v_slug v = slug)"
| "keeps_slug P _ \<longleftrightarrow> True"

lemma post_data_payload:
  "post_data P p = post_payload (p_id p) (p_title p) (p_image p) (p_body p) (p_slug p)
      [(''created_at'', JStr (iso P (p_created_at p))), (''updated_at'', JStr (iso P (p_updated_at p)))]"
  by (simp add: post_data_def post_payload_def)

lemma step_relations:
  assumes C: "cosine_law (lib_cosine R)" "cosine_symmetric (lib_cosine R)" and sync: "in_step pdb rdb"
    and rel: "relations_ok (lib_cosine R) (rdb_posts rdb)" and ok: "posts_db_ok pdb"
    and keep: "keeps_slug P op" and r: "run_view P req op pdb = (Inr r, pdb')"
    and e: "pdb_outbox pdb' = pdb_outbox pdb @ [e]"
    and h: "HANDLERS R now (o_topic e) = Some h" "h (o_payload e) rdb = Inr db1" "related_db_ok db1"
  shows "relations_ok (lib_cosine R) (rdb_posts db1)"
proof (cases op)
  case (Create data)
  then obtain p where e': "o_topic e = TOPIC_CREATED" "o_payload e = post_data P p"
    using r create_post_accepted[of P req data pdb r pdb'] e by auto
  with h have "apply_created R now (post_data P p) rdb = Inr db1" by simp
  moreover have "related_db_ok rdb" using sync by (simp add: in_step_def)
  ultimately show ?thesis
    using created_keeps_relations[OF C _ rel _ h(3)] by (simp add: post_data_payload)
next
  case (Update slug data)
  then obtain post v where at: "row_at p_slug slug (pdb_posts pdb) = Some post"
    and v: "validate P pdb (Some post) data = Some v"
    and e': "o_topic e = TOPIC_UPDATED" "o_payload e = post_data P (saved_row req post v)"
    using r update_post_accepted[of P req slug data pdb r pdb'] e by auto
  have slug: "v_slug v = slug" using keep v by (auto simp: Update)
  have post: "post \<in> set (pdb_posts pdb)" "p_slug post = slug" using row_at_SomeD[OF at] by auto
  have "rp_slug q = v_slug v" if q: "row_at rp_id (p_id post) (rdb_posts rdb) = Some q" for q
  proof -
    obtain p where p: "p \<in> set (pdb_posts pdb)" "p_id p = p_id post" "p_slug p = rp_slug q"
      using in_step_row[OF sync q] by blast
    then have "p = post"
      using ok post(1) distinct_map_inj_on_set[of p_id "pdb_posts pdb" p post] by (simp add: posts_db_ok_def)
    with p post slug show ?thesis by simp
  qed
  moreover have "apply_updated R now (post_data P (saved_row req post v)) rdb = Inr db1" using h e' by simp
  moreover have "related_db_ok rdb" using sync by (simp add: in_step_def)
  ultimately show ?thesis
    using updated_keeps_relations[OF C _ rel _ h(3)] by (simp add: post_data_payload)
next
  case (Destroy slug)
  then obtain i where e': "o_topic e = TOPIC_DELETED" "o_payload e = JObj [(''id'', i), (''slug'', JStr slug)]"
    using r destroy_post_accepted[of req slug pdb r pdb'] e by auto
  with h have "apply_deleted R (JObj [(''id'', i), (''slug'', JStr slug)]) rdb = Inr db1" by simp
  moreover have "related_db_ok rdb" using sync by (simp add: in_step_def)
  ultimately show ?thesis
    using deleted_keeps_relations[OF _ rel, of "JObj [(''id'', i), (''slug'', JStr slug)]" slug R] by auto
qed

text \<open>What a message that is applied has gone through.\<close>

lemma handle_True_new:
  assumes "handle R now Works m db = (Inr True, db')" "\<not> applied R db m"
  obtains h db1 where "HANDLERS R now (m_topic m) = Some h" "h (m_value m) db = Inr db1" "related_db_ok db1"
    "rdb_posts db' = rdb_posts db1"
proof (cases rule: handle_cases[of R m now Works db])
  case (success event_id db'')
  then have run: "run_handler R now event_id m db = Inr db'" using assms(1) by simp
  then obtain h db1 where h: "HANDLERS R now (m_topic m) = Some h" "h (m_value m) db = Inr db1"
    and f: "flush (db1\<lparr>rdb_processed := rdb_processed db1 @
      [\<lparr>pe_event_id = event_id, pe_topic = m_topic m, pe_processed_at = now\<rparr>]\<rparr>) = Inr db'"
    by (auto simp: run_handler_def try_then_eq_Inr_iff split: option.splits)
  then have "related_db_ok db1" "rdb_posts db' = rdb_posts db1"
    by (auto simp: flush_eq_Inr_iff related_db_ok_def)
  with h show ?thesis by (rule that)
qed (use assms in auto)

lemma pipeline_relations:
  assumes C: "cosine_law (lib_cosine R)" "cosine_symmetric (lib_cosine R)" and V: "validate_law P"
    and uuids: "\<forall>(req, op)\<in>set ops. event_id_ok (req_uuid req) \<and> keeps_slug P op" and few: "length ops < 2147483647"
  shows "relations_ok (lib_cosine R) (rdb_posts (fold (deliver R)
    (deliveries clock place (events (run_views P ops empty_posts_db))) empty_related_db))"
  using uuids few
proof (induction ops rule: rev_induct)
  case Nil
  show ?case by (simp add: empty_posts_db_def deliveries_def events_def empty_related_db_def)
next
  case (snoc o1 ops)
  obtain req op where o1: "o1 = (req, op)" by fastforce
  let ?db = "run_views P ops empty_posts_db"
  let ?rdb = "fold (deliver R) (deliveries clock place (events ?db)) empty_related_db"
  have uuids: "\<forall>(req, op)\<in>set ops. event_id_ok (req_uuid req)" "length ops < 2147483647"
    and keep: "keeps_slug P op" "event_id_ok (req_uuid req)"
    using snoc.prems by (auto simp: o1)
  have IH: "relations_ok (lib_cosine R) (rdb_posts ?rdb)" using snoc by auto
  have prev: "in_step ?db ?rdb" "bodies_ok ?db" "pdb_next_id ?db \<le> 1 + int (length ops)"
    using pipeline_in_order[OF C(1) V uuids, of clock place] by auto
  obtain r db' where r: "run_view P req op ?db = (r, db')" by fastforce
  have next_db: "run_views P (ops @ [o1]) empty_posts_db = db'" using r by (simp add: o1 run_views_snoc)
  have ok: "posts_db_ok ?db" using run_views_changelog by blast
  show ?case
  proof (cases r)
    case (Inl e)
    then have "events db' = events ?db"
      using r run_view_rejected[of P req op ?db e db'] by (simp add: same_rows_def events_def)
    with IH show ?thesis by (simp add: next_db)
  next
    case (Inr x)
    note r' = r[unfolded Inr]
    have "pdb_next_id db' \<le> 2147483648"
      using run_view_accepted[OF ok r'] prev(3) snoc.prems(2) by simp
    then obtain e where e: "pdb_outbox db' = pdb_outbox ?db @ [e]" and
      step: "\<And>now place. \<exists>rdb'. handle R now Works (message_of place (record_of e)) ?rdb = (Inr True, rdb') \<and> in_step db' rdb'"
      using step_view[OF C(1) prev(1) ok bodies_ok_run_view[OF V prev(2) r'] _ keep(2) r'] by blast
    let ?m = "message_of (place (record_of e)) (record_of e)"
    obtain rdb' where h: "handle R (clock (record_of e)) Works ?m ?rdb = (Inr True, rdb')" using step by blast
    have "o_id e = req_uuid req" using run_view_accepted[OF ok r'] e by auto
    then have id: "event_id_for R ?m = Inr (o_id e)" using keep(2) by (simp add: event_id_roundtrip)
    have "posts_db_ok db'" using run_view_accepted[OF ok r'] by simp
    then have "o_id e \<notin> set (processed_ids ?rdb)"
      using prev(1) by (auto simp: posts_db_ok_def e in_step_def)
    then have "\<not> applied R ?rdb ?m" using id by (auto simp: applied_iff processed_ids_def)
    from handle_True_new[OF h this] obtain hd db1 where hd: "HANDLERS R (clock (record_of e)) (m_topic ?m) = Some hd"
      "hd (m_value ?m) ?rdb = Inr db1" "related_db_ok db1" "rdb_posts rdb' = rdb_posts db1" by blast
    have "m_topic ?m = o_topic e" "m_value ?m = o_payload e" by (simp_all add: message_of_def record_of_def)
    then have "relations_ok (lib_cosine R) (rdb_posts rdb')"
      using step_relations[OF C prev(1) IH ok keep(1) r' e, of "clock (record_of e)" hd db1] hd by simp
    moreover have "deliver R (clock (record_of e), Works, ?m) ?rdb = rdb'" by (simp add: deliver_def h)
    ultimately show ?thesis by (simp add: next_db e deliveries_def events_def)
  qed
qed

end
