(* ===== verification/System.thy ===== *)
theory System
  imports Pipeline
begin

section \<open>The whole system: requests, relays, the broker and the consumer, interleaved\<close>

text \<open>
  The posts service answers requests (views.py), relays move outbox rows to the broker (relay.py), the
  auth service publishes revocations, and the related service consumes (consumer.py); all of them
  run at once. A state of the system is the posts database and the consumer process with the log of
  the broker; a step is one request, one pass of a relay, one record of another producer, or
  one step of the consumer, in any order and any number. Each topic has partitions of its own:
  \<open>env_partition\<close> is the partitioner of the producer.
\<close>

record system_env =
  env_posts :: posts_lib
  env_related :: related_lib
  env_partition :: "kafka_record \<Rightarrow> nat"
  env_batch :: int
  env_foreign :: "string \<Rightarrow> bool"

record system =
  sys_posts :: posts_db
  sys_consumer :: consumer

definition new_system :: system where
  "new_system = \<lparr>sys_posts = empty_posts_db, sys_consumer = new_consumer empty_related_db\<rparr>"

text \<open>The broker appends a record to the partition of its topic; its offset is its place there.\<close>

definition store_record :: "(kafka_record \<Rightarrow> nat) \<Rightarrow> kafka_record \<Rightarrow> (partition \<Rightarrow> message list) \<Rightarrow> partition \<Rightarrow> message list" where
  "store_record part k broker =
     (let tp = (k_topic k, part k) in broker(tp := broker tp @ [message_of (part k, length (broker tp)) k]))"

definition store_records :: "(kafka_record \<Rightarrow> nat) \<Rightarrow> kafka_record list \<Rightarrow> (partition \<Rightarrow> message list) \<Rightarrow> partition \<Rightarrow> message list" where
  "store_records part ks broker = fold (store_record part) ks broker"

definition set_log :: "(partition \<Rightarrow> message list) \<Rightarrow> system \<Rightarrow> system" where
  "set_log broker s = s\<lparr>sys_consumer := (sys_consumer s)\<lparr>c_log := broker\<rparr>\<rparr>"

text \<open>A pass of a relay: \<open>run_once\<close> on the outbox; what the broker stored goes to the partitions.\<close>

definition system_relay :: "system_env \<Rightarrow> pass \<Rightarrow> system \<Rightarrow> system" where
  "system_relay E p s =
     (let st = snd (run_once (env_batch E) p \<lparr>rs_outbox = pdb_outbox (sys_posts s), rs_log = []\<rparr>)
      in set_log (store_records (env_partition E) (rs_log st) (c_log (sys_consumer s)))
           (s\<lparr>sys_posts := (sys_posts s)\<lparr>pdb_outbox := rs_outbox st\<rparr>\<rparr>))"

text \<open>
  The steps. Request ids are uuids; \<open>env_foreign\<close> tells the ids of the other producer apart from them
  (two uuids never coincide). The records of the other producer are arbitrary.
\<close>

inductive system_step :: "system_env \<Rightarrow> system \<Rightarrow> system \<Rightarrow> bool" for E where
  request: "event_id_ok (req_uuid req) \<Longrightarrow> \<not> env_foreign E (req_uuid req) \<Longrightarrow>
    system_step E s (s\<lparr>sys_posts := snd (run_view (env_posts E) req op (sys_posts s))\<rparr>)"
| relay: "legal_pass (env_batch E, p) \<Longrightarrow> system_step E s (system_relay E p s)"
| foreign: "m_topic m = ''token_revoked'' \<Longrightarrow>
    (\<And>u. event_id_for (env_related E) m = Inr u \<Longrightarrow> env_foreign E u) \<Longrightarrow>
    system_step E s (set_log ((c_log (sys_consumer s))((''token_revoked'', n) := c_log (sys_consumer s) (''token_revoked'', n) @ [m])) s)"
| consume: "consumer_step (env_related E) (sys_consumer s) c \<Longrightarrow> c_log c = c_log (sys_consumer s) \<Longrightarrow>
    system_step E s (s\<lparr>sys_consumer := c\<rparr>)"

inductive system_reachable :: "system_env \<Rightarrow> system \<Rightarrow> bool" for E where
  start: "system_reachable E new_system"
| step: "system_reachable E s \<Longrightarrow> system_step E s s' \<Longrightarrow> system_reachable E s'"

inductive_cases system_stepE: "system_step E s s'"

subsection \<open>Records of the log\<close>

definition record_change :: "kafka_record \<Rightarrow> change option" where
  "record_change k = event_change (k_topic k) (k_value k)"

text \<open>A record of the posts service: the types of its payload are those the handlers read.\<close>

definition put_record :: "kafka_record \<Rightarrow> bool" where
  "put_record k \<longleftrightarrow> k_topic k \<in> {TOPIC_CREATED, TOPIC_UPDATED}
     \<and> (\<exists>i title img body slug extra. k_value k = post_payload i title img body slug extra)"

definition drop_record :: "kafka_record \<Rightarrow> bool" where
  "drop_record k \<longleftrightarrow> k_topic k = TOPIC_DELETED \<and> (\<exists>i slug. k_value k = JObj [(''id'', JInt i), (''slug'', JStr slug)])"

definition well_typed :: "kafka_record \<Rightarrow> bool" where
  "well_typed k \<longleftrightarrow> (put_record k \<or> drop_record k) \<and> event_id_ok (record_id k)
     \<and> k_headers k = [(''event_id'', Some (record_id k))]"

lemma message_of_fields [simp]:
  "m_topic (message_of place k) = k_topic k" "m_value (message_of place k) = k_value k"
  "m_headers (message_of place k) = k_headers k"
  by (simp_all add: message_of_def)

lemma event_id_for_record:
  "well_typed k \<Longrightarrow> event_id_for R (message_of place k) = Inr (record_id k)"
  by (cases "record_id k")
    (simp_all add: well_typed_def event_id_ok_def event_id_for_def message_of_def decode_bytes_def)

lemma event_change_payload [simp]:
  "event_change TOPIC_CREATED (post_payload i title img body slug extra) = Some (Put i title img body slug)"
  "event_change TOPIC_UPDATED (post_payload i title img body slug extra) = Some (Put i title img body slug)"
  by (simp_all add: event_change_def post_payload_def)

subsection \<open>The posts service and the relays\<close>

definition posts_side :: "system_env \<Rightarrow> posts_db \<Rightarrow> bool" where
  "posts_side E db \<longleftrightarrow> posts_db_ok db \<and> (\<forall>k\<in>set (events db). well_typed k \<and> \<not> env_foreign E (record_id k))"

lemma posts_sideD:
  assumes "posts_side E db"
  shows "posts_db_ok db" "k \<in> set (events db) \<Longrightarrow> well_typed k" "k \<in> set (events db) \<Longrightarrow> \<not> env_foreign E (record_id k)"
  using assms by (auto simp: posts_side_def)

lemma events_same_id:
  assumes "posts_db_ok db" "k \<in> set (events db)" "k' \<in> set (events db)" "record_id k = record_id k'"
  shows "k = k'"
proof -
  obtain e e' where e: "k = record_of e" "k' = record_of e'" "e \<in> set (pdb_outbox db)" "e' \<in> set (pdb_outbox db)" "o_id e = o_id e'"
    using assms(2-4) by (auto simp: events_def)
  have "distinct (map o_id (pdb_outbox db))" using assms(1) by (simp add: posts_db_ok_def)
  from distinct_map_inj_on_set[OF this e(3-5)] show ?thesis by (simp add: e)
qed

definition pending_records :: "posts_db \<Rightarrow> kafka_record list" where
  "pending_records db = map record_of (unpublished (pdb_outbox db))"

text \<open>A request records at most one event, and the event is well typed.\<close>

lemma recorded_typed:
  assumes "event_id_ok (req_uuid req)"
  shows "t = TOPIC_CREATED \<or> t = TOPIC_UPDATED \<Longrightarrow> well_typed (record_of (recorded req t key (post_data P p)))"
    and "well_typed (record_of (recorded req TOPIC_DELETED key (JObj [(''id'', JInt i), (''slug'', JStr slug)])))"
proof -
  show "well_typed (record_of (recorded req t key (post_data P p)))" if "t = TOPIC_CREATED \<or> t = TOPIC_UPDATED"
  proof -
    have "\<exists>i title img body slug extra. post_data P p = post_payload i title img body slug extra"
      using post_data_payload by blast
    with assms that show ?thesis by (auto simp: well_typed_def put_record_def)
  qed
  show "well_typed (record_of (recorded req TOPIC_DELETED key (JObj [(''id'', JInt i), (''slug'', JStr slug)])))"
    using assms by (simp add: well_typed_def drop_record_def)
qed

lemma run_view_record:
  assumes ok: "posts_db_ok db" and id: "event_id_ok (req_uuid req)" and r: "run_view P req op db = (r, db')"
  shows "posts_db_ok db' \<and> (events db' = events db \<and> pending_records db' = pending_records db
    \<or> (\<exists>k. events db' = events db @ [k] \<and> pending_records db' = pending_records db @ [k]
         \<and> well_typed k \<and> record_id k = req_uuid req))"
proof (cases r)
  case (Inl e)
  then have "same_rows db db'" using r run_view_rejected by blast
  with ok show ?thesis by (simp add: same_rows_def events_def pending_records_def posts_db_ok_def)
next
  case (Inr x)
  have "\<exists>e. pdb_outbox db' = pdb_outbox db @ [e] \<and> o_id e = req_uuid req \<and> o_published_at e = None
      \<and> well_typed (record_of e)"
  proof (cases op)
    case (Create data)
    with r Inr show ?thesis by (fastforce dest!: create_post_accepted intro: recorded_typed[OF id])
  next
    case (Update slug data)
    with r Inr show ?thesis by (fastforce dest!: update_post_accepted intro: recorded_typed[OF id])
  next
    case (Destroy slug)
    with r Inr show ?thesis by (fastforce dest!: destroy_post_accepted intro: recorded_typed[OF id])
  qed
  moreover have "posts_db_ok db'" using run_view_accepted[OF ok] r Inr by blast
  ultimately show ?thesis by (auto simp: events_def pending_records_def unpublished_def)
qed

lemma posts_side_run_view:
  assumes "posts_side E db" "event_id_ok (req_uuid req)" "\<not> env_foreign E (req_uuid req)"
  shows "posts_side E (snd (run_view P req op db))"
proof -
  obtain r db' where r: "run_view P req op db = (r, db')" by fastforce
  from run_view_record[OF posts_sideD(1)[OF assms(1)] assms(2) r] assms(1,3) show ?thesis
    by (auto simp: posts_side_def r)
qed

text \<open>A pass of a relay marks rows and changes nothing else of the posts database.\<close>

lemma run_once_outbox:
  "map record_of (rs_outbox (snd (run_once b p st))) = map record_of (rs_outbox st)
   \<and> map o_id (rs_outbox (snd (run_once b p st))) = map o_id (rs_outbox st)
   \<and> (list_all outbox_row_ok (rs_outbox st) \<longrightarrow> list_all outbox_row_ok (rs_outbox (snd (run_once b p st))))"
  by (cases rule: run_once_cases[of p b st])
    (auto simp: mark_published_def list_all_iff outbox_row_ok_def)

lemma system_relay_posts:
  "events (sys_posts (system_relay E p s)) = events (sys_posts s)"
  "posts_side E (sys_posts s) \<Longrightarrow> posts_side E (sys_posts (system_relay E p s))"
  using run_once_outbox[of "env_batch E" p "\<lparr>rs_outbox = pdb_outbox (sys_posts s), rs_log = []\<rparr>"]
  by (simp_all add: system_relay_def set_log_def events_def posts_side_def posts_db_ok_def Let_def)

subsection \<open>The broker\<close>

lemma store_records_snoc: "store_records part (ks @ [k]) broker = store_record part k (store_records part ks broker)"
  by (simp add: store_records_def)

text \<open>The broker only appends, and everything stored is found in the partition of its topic.\<close>

lemma store_records_prefix: "prefix (broker tp) (store_records part ks broker tp)"
proof (induction ks rule: rev_induct)
  case (snoc k ks)
  have "prefix (b tp) (store_record part k b tp)" for b by (simp add: store_record_def Let_def)
  then show ?case unfolding store_records_snoc using snoc prefix_order.trans by blast
qed (simp add: store_records_def)

lemma store_record_mono: "m \<in> set (broker tp) \<Longrightarrow> m \<in> set (store_record part k broker tp)"
  by (cases "tp = (k_topic k, part k)") (auto simp: store_record_def Let_def)

lemma store_records_stored:
  "k \<in> set ks \<Longrightarrow> \<exists>place. message_of place k \<in> set (store_records part ks broker (k_topic k, part k))"
proof (induction ks rule: rev_induct)
  case (snoc k' ks)
  show ?case
  proof (cases "k = k'")
    case True
    then show ?thesis by (auto simp: store_records_snoc store_record_def Let_def)
  next
    case False
    then obtain place where "message_of place k \<in> set (store_records part ks broker (k_topic k, part k))"
      using snoc by auto
    then show ?thesis unfolding store_records_snoc by (blast intro: store_record_mono)
  qed
qed simp

lemma store_records_only:
  "m \<in> set (store_records part ks broker tp) \<Longrightarrow>
   m \<in> set (broker tp) \<or> (\<exists>k\<in>set ks. \<exists>place. m = message_of place k \<and> fst tp = k_topic k)"
proof (induction ks rule: rev_induct)
  case (snoc k ks)
  then show ?case
    by (cases "tp = (k_topic k, part k)") (auto simp: store_records_snoc store_record_def Let_def)
qed (simp add: store_records_def)

text \<open>What a pass sends are records of the outbox.\<close>

lemma send_all_stored: "set (snd (send_all fate rows)) \<subseteq> record_of ` set rows"
  by (induction rows) (auto simp: Let_def split: option.splits prod.splits)

lemma publish_batch_stored: "set (snd (publish_batch p rows)) \<subseteq> record_of ` set rows"
  using send_all_stored[of "ps_fate p" rows]
  by (auto simp: publish_batch_def split: prod.splits sum.splits option.splits)

lemma run_once_log: "set (rs_log (snd (run_once b p st))) \<subseteq> set (rs_log st) \<union> record_of ` set (rs_outbox st)"
proof (cases "claim_batch (ps_locked p) b (rs_outbox st)")
  case (Inl e)
  then show ?thesis by (auto simp: run_once_def)
next
  case (Inr rows)
  have "set rows \<subseteq> set (rs_outbox st)"
    using claim_batch_InrD(1)[OF Inr] by (auto simp: unpublished_def)
  then have "set (snd (publish_batch p rows)) \<subseteq> record_of ` set (rs_outbox st)"
    using publish_batch_stored[of p rows] by blast
  moreover have "rs_log (snd (run_once b p st)) \<in> {rs_log st, rs_log st @ snd (publish_batch p rows)}"
    using Inr by (auto simp: run_once_def split: prod.splits sum.splits option.splits)
  ultimately show ?thesis by auto
qed

text \<open>
  The log holds records of the outbox and of the other producer; every event is in it, or pending.
\<close>

definition known_record :: "system_env \<Rightarrow> kafka_record set \<Rightarrow> message \<Rightarrow> bool" where
  "known_record E evs m \<longleftrightarrow> (\<exists>k\<in>evs. \<exists>place. m = message_of place k)
     \<or> m_topic m = ''token_revoked'' \<and> (\<forall>u. event_id_for (env_related E) m = Inr u \<longrightarrow> env_foreign E u)"

definition log_ok :: "system_env \<Rightarrow> kafka_record set \<Rightarrow> (partition \<Rightarrow> message list) \<Rightarrow> bool" where
  "log_ok E evs broker \<longleftrightarrow> (\<forall>tp. \<forall>m\<in>set (broker tp). fst tp = m_topic m \<and> known_record E evs m)"

lemma log_okD: "log_ok E evs broker \<Longrightarrow> m \<in> set (broker tp) \<Longrightarrow> fst tp = m_topic m \<and> known_record E evs m"
  unfolding log_ok_def by blast

lemma log_okI: "(\<And>tp m. m \<in> set (broker tp) \<Longrightarrow> fst tp = m_topic m \<and> known_record E evs m) \<Longrightarrow> log_ok E evs broker"
  unfolding log_ok_def by blast

definition nothing_lost :: "system_env \<Rightarrow> posts_db \<Rightarrow> (partition \<Rightarrow> message list) \<Rightarrow> bool" where
  "nothing_lost E db broker \<longleftrightarrow> (\<forall>k\<in>set (events db). k \<in> set (pending_records db)
     \<or> (\<exists>place. message_of place k \<in> set (broker (k_topic k, env_partition E k))))"

lemma log_ok_mono: "log_ok E evs broker \<Longrightarrow> evs \<subseteq> evs' \<Longrightarrow> log_ok E evs' broker"
  unfolding log_ok_def known_record_def by (meson subsetD)

lemma log_ok_store_records:
  assumes "log_ok E evs broker" "set ks \<subseteq> evs"
  shows "log_ok E evs (store_records part ks broker)"
proof (rule log_okI)
  fix tp m assume "m \<in> set (store_records part ks broker tp)"
  from store_records_only[OF this] show "fst tp = m_topic m \<and> known_record E evs m"
  proof
    assume "m \<in> set (broker tp)"
    with assms(1) show ?thesis by (rule log_okD)
  next
    assume "\<exists>k\<in>set ks. \<exists>place. m = message_of place k \<and> fst tp = k_topic k"
    then obtain k place where "k \<in> evs" "m = message_of place k" "fst tp = k_topic k" using assms(2) by blast
    then show ?thesis unfolding known_record_def by (metis message_of_fields(1))
  qed
qed

lemma nothing_lost_grow:
  assumes "nothing_lost E db broker" "\<And>tp. set (broker tp) \<subseteq> set (broker' tp)"
  shows "nothing_lost E db broker'"
  using assms unfolding nothing_lost_def by (meson subsetD)

lemma nothing_lost_run_view:
  assumes "posts_db_ok db" "event_id_ok (req_uuid req)" "nothing_lost E db broker"
  shows "nothing_lost E (snd (run_view P req op db)) broker"
proof -
  obtain r db' where r: "run_view P req op db = (r, db')" by fastforce
  from run_view_record[OF assms(1,2) r] assms(3) show ?thesis by (auto simp: nothing_lost_def r)
qed

lemma nothing_lost_relay:
  assumes ok: "posts_db_ok (sys_posts s)" and legal: "legal_pass (env_batch E, p)"
    and lost: "nothing_lost E (sys_posts s) (c_log (sys_consumer s))"
  shows "nothing_lost E (sys_posts (system_relay E p s)) (c_log (sys_consumer (system_relay E p s)))"
proof -
  let ?st = "\<lparr>rs_outbox = pdb_outbox (sys_posts s), rs_log = []\<rparr>"
  let ?st' = "snd (run_once (env_batch E) p ?st)"
  let ?broker = "store_records (env_partition E) (rs_log ?st') (c_log (sys_consumer s))"
  have after: "pending_records (sys_posts (system_relay E p s)) = map record_of (unpublished (rs_outbox ?st'))"
    "c_log (sys_consumer (system_relay E p s)) = ?broker"
    by (simp_all add: system_relay_def set_log_def pending_records_def Let_def)
  have "relay_inv ?st" using ok by (simp add: relay_inv_def posts_db_ok_def)
  from relay_kept[OF this legal]
  have kept: "set (pending_records (sys_posts s)) \<subseteq> set (map record_of (unpublished (rs_outbox ?st'))) \<union> set (rs_log ?st')"
    by (simp add: relay_pending_def relay_pass_def pending_records_def)
  have mono: "set (c_log (sys_consumer s) tp) \<subseteq> set (?broker tp)" for tp
    using store_records_prefix set_mono_prefix by blast
  show ?thesis
    unfolding nothing_lost_def after system_relay_posts(1)
  proof
    fix k assume "k \<in> set (events (sys_posts s))"
    then consider "k \<in> set (pending_records (sys_posts s))"
      | place where "message_of place k \<in> set (c_log (sys_consumer s) (k_topic k, env_partition E k))"
      using lost by (auto simp: nothing_lost_def)
    then show "k \<in> set (map record_of (unpublished (rs_outbox ?st')))
        \<or> (\<exists>place. message_of place k \<in> set (?broker (k_topic k, env_partition E k)))"
      using kept mono store_records_stored[of k "rs_log ?st'"] by cases blast+
  qed
qed

subsection \<open>The related database\<close>

text \<open>
  Ids that were processed are those of events or foreign; every row has the fields of an event; a
  post whose event has been applied has a row, unless a deletion names a slug the post has had.
\<close>

definition dropped :: "kafka_record set \<Rightarrow> int \<Rightarrow> bool" where
  "dropped evs i \<longleftrightarrow> (\<exists>k\<in>evs. \<exists>k'\<in>evs. \<exists>title img body slug.
     record_change k = Some (Put i title img body slug) \<and> record_change k' = Some (Drop slug))"

definition put_in :: "kafka_record set \<Rightarrow> int \<Rightarrow> post_fields \<Rightarrow> bool" where
  "put_in evs i f \<longleftrightarrow> (\<exists>k\<in>evs. \<exists>title img body slug.
     record_change k = Some (Put i title img body slug) \<and> f = (title, Some img, Some body, slug))"

definition mirror_ok :: "system_env \<Rightarrow> kafka_record set \<Rightarrow> related_db \<Rightarrow> bool" where
  "mirror_ok E evs db \<longleftrightarrow> related_db_ok db
     \<and> (\<forall>u\<in>set (processed_ids db). env_foreign E u \<or> u \<in> record_id ` evs)
     \<and> (\<forall>i f. related_mirror (rdb_posts db) i = Some f \<longrightarrow> put_in evs i f)
     \<and> (\<forall>k\<in>evs. \<forall>i title img body slug. record_id k \<in> set (processed_ids db)
          \<and> record_change k = Some (Put i title img body slug)
          \<longrightarrow> related_mirror (rdb_posts db) i \<noteq> None \<or> dropped evs i)"

lemma mirror_okD:
  assumes "mirror_ok E evs db"
  shows "related_db_ok db" "u \<in> set (processed_ids db) \<Longrightarrow> env_foreign E u \<or> u \<in> record_id ` evs"
    "related_mirror (rdb_posts db) i = Some f \<Longrightarrow> put_in evs i f"
    "k \<in> evs \<Longrightarrow> record_id k \<in> set (processed_ids db) \<Longrightarrow> record_change k = Some (Put i title img body slug)
      \<Longrightarrow> related_mirror (rdb_posts db) i \<noteq> None \<or> dropped evs i"
  using assms unfolding mirror_ok_def by blast+

lemma dropped_mono: "dropped evs i \<Longrightarrow> evs \<subseteq> evs' \<Longrightarrow> dropped evs' i"
  unfolding dropped_def by blast

lemma put_in_mono: "put_in evs i f \<Longrightarrow> evs \<subseteq> evs' \<Longrightarrow> put_in evs' i f"
  unfolding put_in_def by blast

lemma mirror_ok_fresh:
  assumes ok: "mirror_ok E evs db" and fresh: "record_id k \<notin> record_id ` evs" "\<not> env_foreign E (record_id k)"
  shows "mirror_ok E (insert k evs) db"
proof -
  note D = mirror_okD[OF ok]
  have new: "record_id k \<notin> set (processed_ids db)" using D(2) fresh by blast
  show ?thesis
    unfolding mirror_ok_def
  proof (intro conjI ballI allI impI)
    show "related_db_ok db" by (rule D(1))
    show "env_foreign E u \<or> u \<in> record_id ` insert k evs" if "u \<in> set (processed_ids db)" for u
      using D(2)[OF that] by blast
    show "put_in (insert k evs) i f" if "related_mirror (rdb_posts db) i = Some f" for i f
      using put_in_mono[OF D(3)[OF that]] by blast
    show "related_mirror (rdb_posts db) i \<noteq> None \<or> dropped (insert k evs) i"
      if "k' \<in> insert k evs" "record_id k' \<in> set (processed_ids db) \<and> record_change k' = Some (Put i title img body slug)"
      for k' i title img body slug
      using that new D(4)[of k' i title img body slug] dropped_mono[of evs i "insert k evs"] by blast
  qed
qed

text \<open>What a record does to the table when it is applied for the first time.\<close>

definition effect :: "change \<Rightarrow> mirror \<Rightarrow> mirror \<Rightarrow> bool" where
  "effect c m m' \<longleftrightarrow> m' = apply_change c m
     \<or> (case c of Put i _ _ _ _ \<Rightarrow> m i \<noteq> None \<and> m' = m | Drop _ \<Rightarrow> False)"

lemma created_effect:
  assumes C: "cosine_law (lib_cosine R)"
    and r: "apply_created R now (post_payload i title img body slug extra) db = Inr db1"
  shows "effect (Put i title img body slug) (related_mirror (rdb_posts db)) (related_mirror (rdb_posts db1))"
  using apply_created_InrD[OF C r]
proof
  assume "db1 = db \<and> row_at rp_id i (rdb_posts db) \<noteq> None"
  then show ?thesis by (auto simp: effect_def related_mirror_def)
next
  assume "row_at rp_id i (rdb_posts db) = None \<and>
    db1 = db\<lparr>rdb_posts := map (with_score (lib_cosine R) slug title) (rdb_posts db)
              @ [created_row (lib_cosine R) now i title img body slug (rdb_posts db)]\<rparr>"
  then show ?thesis by (auto simp: effect_def related_mirror_append_map related_fields_def)
qed

lemma updated_effect:
  assumes C: "cosine_law (lib_cosine R)"
    and r: "apply_updated R now (post_payload i title img body slug extra) db = Inr db1"
  shows "effect (Put i title img body slug) (related_mirror (rdb_posts db)) (related_mirror (rdb_posts db1))"
proof (cases "row_at rp_id i (rdb_posts db)")
  case None
  moreover have "int32 i" using r by (auto simp: apply_updated_def split: if_splits)
  ultimately have "apply_created R now (post_payload i title img body slug extra) db = Inr db1"
    using r by (simp add: apply_updated_unknown)
  then show ?thesis by (rule created_effect[OF C])
next
  case (Some post)
  have id: "rp_id post = i" using row_at_SomeD[OF Some] by simp
  have "related_mirror (rdb_posts db1) = (related_mirror (rdb_posts db))(i \<mapsto> (title, Some img, Some body, slug))"
    unfolding apply_updated_InrD[OF C Some r] set_post_def if_distrib[of related_mirror]
    using id Some by (simp add: related_mirror_map)
  then show ?thesis by (simp add: effect_def)
qed

lemma record_effect:
  assumes C: "cosine_law (lib_cosine R)" and typed: "well_typed k" and ok: "related_db_ok db"
    and h: "handle R now up (message_of place k) db = (Inr True, db')" and new: "record_id k \<notin> set (processed_ids db)"
  shows "related_db_ok db' \<and> processed_ids db' = processed_ids db @ [record_id k] \<and>
    (\<exists>c. record_change k = Some c \<and> effect c (related_mirror (rdb_posts db)) (related_mirror (rdb_posts db')))"
proof -
  let ?m = "message_of place k"
  have id: "event_id_for R ?m = Inr (record_id k)" by (rule event_id_for_record[OF typed])
  then have "\<not> applied R db ?m" using new by (auto simp: applied_iff processed_ids_def)
  moreover from this h have "up = Works" by (cases rule: handle_cases[of R ?m now up db]) auto
  ultimately obtain hd db1 where hd: "HANDLERS R now (k_topic k) = Some hd" "hd (k_value k) db = Inr db1" "related_db_ok db1"
    "rdb_posts db' = rdb_posts db1"
    using h handle_True_new[of R now ?m db db'] by auto
  have "processed_ids db' = processed_ids db @ [record_id k]"
    using h id \<open>\<not> applied R db ?m\<close>
    by (cases rule: handle_cases[of R ?m now up db]) (auto simp: processed_ids_def dest!: run_handler_InrD(2))
  moreover have "related_db_ok db'" using handle_db_ok[OF ok, of R now up ?m] h by simp
  moreover have "\<exists>c. record_change k = Some c \<and> effect c (related_mirror (rdb_posts db)) (related_mirror (rdb_posts db1))"
  proof (cases "put_record k")
    case True
    then obtain i title img body slug extra where v: "k_value k = post_payload i title img body slug extra"
      and t: "k_topic k = TOPIC_CREATED \<or> k_topic k = TOPIC_UPDATED"
      by (auto simp: put_record_def)
    then show ?thesis
      using hd(1,2) created_effect[OF C, of now i title img body slug extra db db1]
        updated_effect[OF C, of now i title img body slug extra db db1]
      by (auto simp: record_change_def)
  next
    case False
    then obtain i slug where v: "k_value k = JObj [(''id'', JInt i), (''slug'', JStr slug)]" "k_topic k = TOPIC_DELETED"
      using typed by (auto simp: well_typed_def drop_record_def)
    then have "apply_deleted R (JObj [(''id'', JInt i), (''slug'', JStr slug)]) db = Inr db1" using hd(1,2) by simp
    then have "related_mirror (rdb_posts db1) = apply_change (Drop slug) (related_mirror (rdb_posts db))"
      using apply_deleted_refines[OF ok, of "JObj [(''id'', JInt i), (''slug'', JStr slug)]" slug R] by auto
    with v show ?thesis by (simp add: record_change_def effect_def)
  qed
  ultimately show ?thesis using hd(4) by simp
qed

text \<open>A record of another producer leaves the posts alone and adds a foreign id.\<close>

lemma foreign_effect:
  assumes ok: "related_db_ok db" and topic: "m_topic m = ''token_revoked''"
    and h: "handle R now up m db = (Inr True, db')"
  shows "related_db_ok db' \<and> rdb_posts db' = rdb_posts db
    \<and> (\<forall>u\<in>set (processed_ids db'). u \<in> set (processed_ids db) \<or> event_id_for R m = Inr u)"
proof -
  have "related_db_ok db'" using handle_db_ok[OF ok, of R now up m] h by simp
  moreover have "rdb_posts db' = rdb_posts db
      \<and> (\<forall>u\<in>set (processed_ids db'). u \<in> set (processed_ids db) \<or> event_id_for R m = Inr u)"
  proof (cases rule: handle_cases[of R m now up db])
    case (success event_id db'')
    then have r: "run_handler R now event_id m db = Inr db'" using h by simp
    then have "rdb_posts db' = rdb_posts db"
      by (auto simp: run_handler_def HANDLERS_def topic try_then_eq_Inr_iff flush_eq_Inr_iff
          dest: apply_token_revoked_frame)
    with run_handler_InrD(2)[OF r] success(1) show ?thesis by (auto simp: processed_ids_def)
  qed (use h in auto)
  ultimately show ?thesis by blast
qed

lemma mirror_ok_handle:
  assumes C: "cosine_law (lib_cosine (env_related E))" and posts: "posts_side E pdb" and log: "log_ok E (set (events pdb)) broker"
    and m: "m \<in> set (broker tp)" and ok: "mirror_ok E (set (events pdb)) db"
    and h: "handle (env_related E) now up m db = (Inr True, db')"
  shows "mirror_ok E (set (events pdb)) db'"
proof (cases "\<exists>k\<in>set (events pdb). \<exists>place. m = message_of place k")
  case False
  let ?evs = "set (events pdb)"
  note D = mirror_okD[OF ok]
  have foreign: "m_topic m = ''token_revoked''" "\<And>u. event_id_for (env_related E) m = Inr u \<Longrightarrow> env_foreign E u"
    using log_okD[OF log m] False unfolding known_record_def by blast+
  note F = foreign_effect[OF D(1) foreign(1) h]
  have old: "record_id k \<in> set (processed_ids db)" if "k \<in> ?evs" "record_id k \<in> set (processed_ids db')" for k
    using F that foreign(2) posts_sideD(3)[OF posts that(1)] by blast
  have "env_foreign E u \<or> u \<in> record_id ` ?evs" if "u \<in> set (processed_ids db')" for u
    using F that foreign(2) D(2) by blast
  moreover have "related_mirror (rdb_posts db') = related_mirror (rdb_posts db)" using F by simp
  ultimately show ?thesis
    unfolding mirror_ok_def using F D(3) D(4) old by (metis (no_types, lifting))
next
  case True
  then obtain k place where k: "k \<in> set (events pdb)" and mk: "m = message_of place k" by blast
  let ?evs = "set (events pdb)"
  note D = mirror_okD[OF ok] and typed = posts_sideD(2)[OF posts k]
  show ?thesis
  proof (cases "record_id k \<in> set (processed_ids db)")
    case True
    then have "applied (env_related E) db m"
      using event_id_for_record[OF typed] by (auto simp: mk applied_iff processed_ids_def)
    then have "db' = db" using handle_skip[of "env_related E" db m now up] h by simp
    with ok show ?thesis by simp
  next
    case new: False
    from record_effect[OF C typed D(1) h[unfolded mk] new] obtain c where c: "record_change k = Some c"
      and eff: "effect c (related_mirror (rdb_posts db)) (related_mirror (rdb_posts db'))"
      and db': "related_db_ok db'" "processed_ids db' = processed_ids db @ [record_id k]" by blast
    have rows: "put_in ?evs i f" if "related_mirror (rdb_posts db') i = Some f" for i f
      using eff that D(3)[of i f] c k unfolding effect_def put_in_def
      by (cases c) (fastforce split: if_splits option.splits)+
    have kept: "related_mirror (rdb_posts db') i \<noteq> None \<or> dropped ?evs i"
      if "related_mirror (rdb_posts db) i \<noteq> None" for i
    proof (cases c)
      case (Put j t im bo sl)
      then show ?thesis using eff that by (auto simp: effect_def)
    next
      case (Drop slug)
      show ?thesis
      proof (cases "related_mirror (rdb_posts db') i")
        case None
        from that obtain f where f: "related_mirror (rdb_posts db) i = Some f" by blast
        with None eff Drop have "slug_of f = slug" by (auto simp: effect_def split: if_splits)
        with D(3)[OF f] c k Drop show ?thesis unfolding dropped_def put_in_def slug_of_def by fastforce
      qed simp
    qed
    have "related_mirror (rdb_posts db') i \<noteq> None \<or> dropped ?evs i"
      if k': "k' \<in> ?evs" "record_id k' \<in> set (processed_ids db')" "record_change k' = Some (Put i t im bo sl)"
      for k' i t im bo sl
    proof (cases "record_id k' = record_id k")
      case True
      then have "k' = k" using events_same_id[OF posts_sideD(1)[OF posts] k'(1) k] by simp
      then show ?thesis using eff c k'(3) by (auto simp: effect_def)
    next
      case False
      then have "record_id k' \<in> set (processed_ids db)" using k'(2) db'(2) by simp
      from D(4)[OF k'(1) this k'(3)] kept show ?thesis by blast
    qed
    then show ?thesis
      unfolding mirror_ok_def using db' rows D(2) k by (auto 4 3)
  qed
qed

subsection \<open>The invariant of the system\<close>

definition system_inv :: "system_env \<Rightarrow> system \<Rightarrow> bool" where
  "system_inv E s \<longleftrightarrow> posts_side E (sys_posts s)
     \<and> log_ok E (set (events (sys_posts s))) (c_log (sys_consumer s))
     \<and> nothing_lost E (sys_posts s) (c_log (sys_consumer s))
     \<and> mirror_ok E (set (events (sys_posts s))) (c_db (sys_consumer s))
     \<and> consumer_inv (env_related E) (sys_consumer s)"

lemma system_invD:
  assumes "system_inv E s"
  shows "posts_side E (sys_posts s)" "log_ok E (set (events (sys_posts s))) (c_log (sys_consumer s))"
    "nothing_lost E (sys_posts s) (c_log (sys_consumer s))"
    "mirror_ok E (set (events (sys_posts s))) (c_db (sys_consumer s))"
    "consumer_inv (env_related E) (sys_consumer s)"
  using assms by (simp_all add: system_inv_def)

lemma set_log_fields [simp]:
  "sys_posts (set_log b s) = sys_posts s" "c_log (sys_consumer (set_log b s)) = b"
  "c_db (sys_consumer (set_log b s)) = c_db (sys_consumer s)"
  by (simp_all add: set_log_def)

lemma consumer_inv_prefix:
  assumes "consumer_inv L c" "\<And>tp. prefix (c_log c tp) (broker tp)"
  shows "consumer_inv L (c\<lparr>c_log := broker\<rparr>)"
  unfolding consumer_inv_def settled_def
proof (intro allI conjI impI)
  fix tp
  obtain rest where rest: "broker tp = c_log c tp @ rest" using assms(2)[of tp] by (auto simp: prefix_def)
  note inv = consumer_invD[OF assms(1), where tp = tp]
  show "c_committed (c\<lparr>c_log := broker\<rparr>) tp \<le> c_position (c\<lparr>c_log := broker\<rparr>) tp" using inv(1) by simp
  show "c_position (c\<lparr>c_log := broker\<rparr>) tp \<le> length (c_log (c\<lparr>c_log := broker\<rparr>) tp)"
    using inv(2) by (simp add: rest)
  fix off assume "off < c_position (c\<lparr>c_log := broker\<rparr>) tp"
  then have "off < c_position c tp" by simp
  moreover from this inv(2) have "off < length (c_log c tp)" by (rule order_less_le_trans)
  ultimately show "applied L (c_db (c\<lparr>c_log := broker\<rparr>)) (c_log (c\<lparr>c_log := broker\<rparr>) tp ! off)
      \<or> (tp, off) \<in> set (c_failures (c\<lparr>c_log := broker\<rparr>))"
    using inv(3) by (simp add: rest nth_append settled_def)
qed

lemma new_system_inv: "system_inv E new_system"
  by (simp add: system_inv_def new_system_def posts_side_def events_def empty_posts_db_def posts_db_ok_def
      log_ok_def nothing_lost_def mirror_ok_def new_consumer_def consumer_inv_def empty_related_db_def
      related_db_ok_def processed_ids_def related_mirror_def)

lemma system_inv_request:
  assumes inv: "system_inv E s" and id: "event_id_ok (req_uuid req)" "\<not> env_foreign E (req_uuid req)"
  shows "system_inv E (s\<lparr>sys_posts := snd (run_view P req op (sys_posts s))\<rparr>)"
proof -
  note I = system_invD[OF inv]
  obtain r db' where r: "run_view P req op (sys_posts s) = (r, db')" by fastforce
  note ok = posts_sideD(1)[OF I(1)]
  have side: "posts_side E db'" using posts_side_run_view[OF I(1) id, of P op] by (simp add: r)
  have lost: "nothing_lost E db' (c_log (sys_consumer s))"
    using nothing_lost_run_view[OF ok id(1) I(3), of P op] by (simp add: r)
  have "log_ok E (set (events db')) (c_log (sys_consumer s)) \<and> mirror_ok E (set (events db')) (c_db (sys_consumer s))"
  proof (cases "events db' = events (sys_posts s)")
    case True
    with I(2,4) show ?thesis by simp
  next
    case False
    with run_view_record[OF ok id(1) r] obtain k where k: "events db' = events (sys_posts s) @ [k]" "record_id k = req_uuid req"
      and ok': "posts_db_ok db'" by auto
    have "record_id k \<notin> record_id ` set (events (sys_posts s))"
    proof -
      have "map record_id (events db') = map o_id (pdb_outbox db')" by (simp add: events_def)
      then have "distinct (map record_id (events db'))" using ok' by (simp add: posts_db_ok_def)
      then show ?thesis by (simp add: k(1))
    qed
    from mirror_ok_fresh[OF I(4) this] id(2) k(2) have "mirror_ok E (insert k (set (events (sys_posts s)))) (c_db (sys_consumer s))"
      by simp
    moreover have "log_ok E (insert k (set (events (sys_posts s)))) (c_log (sys_consumer s))"
      by (rule log_ok_mono[OF I(2)]) blast
    ultimately show ?thesis by (simp add: k(1))
  qed
  with side lost I(5) show ?thesis by (simp add: system_inv_def r)
qed

lemma system_inv_relay:
  assumes inv: "system_inv E s" and legal: "legal_pass (env_batch E, p)"
  shows "system_inv E (system_relay E p s)"
proof -
  note I = system_invD[OF inv]
  let ?st = "\<lparr>rs_outbox = pdb_outbox (sys_posts s), rs_log = []\<rparr>"
  let ?broker = "store_records (env_partition E) (rs_log (snd (run_once (env_batch E) p ?st))) (c_log (sys_consumer s))"
  have consumer: "sys_consumer (system_relay E p s) = (sys_consumer s)\<lparr>c_log := ?broker\<rparr>"
    by (simp add: system_relay_def set_log_def Let_def)
  have "set (rs_log (snd (run_once (env_batch E) p ?st))) \<subseteq> set (events (sys_posts s))"
    using run_once_log[of "env_batch E" p ?st] by (simp add: events_def)
  from log_ok_store_records[OF I(2) this]
  have log: "log_ok E (set (events (sys_posts s))) ?broker" .
  have inv': "consumer_inv (env_related E) ((sys_consumer s)\<lparr>c_log := ?broker\<rparr>)"
    by (rule consumer_inv_prefix[OF I(5)]) (rule store_records_prefix)
  note lost = nothing_lost_relay[OF posts_sideD(1)[OF I(1)] legal I(3)]
  have "posts_side E (sys_posts (system_relay E p s))" by (rule system_relay_posts(2)[OF I(1)])
  then show ?thesis
    using lost log I(4) inv' by (simp add: system_inv_def system_relay_posts(1) consumer)
qed

lemma system_inv_foreign:
  assumes inv: "system_inv E s" and topic: "m_topic m = ''token_revoked''"
    and ids: "\<And>u. event_id_for (env_related E) m = Inr u \<Longrightarrow> env_foreign E u"
  shows "system_inv E (set_log ((c_log (sys_consumer s))((''token_revoked'', n) := c_log (sys_consumer s) (''token_revoked'', n) @ [m])) s)"
proof -
  note I = system_invD[OF inv]
  let ?broker = "(c_log (sys_consumer s))((''token_revoked'', n) := c_log (sys_consumer s) (''token_revoked'', n) @ [m])"
  have "log_ok E (set (events (sys_posts s))) ?broker"
  proof (rule log_okI)
    fix tp m' assume "m' \<in> set (?broker tp)"
    then have "m' \<in> set (c_log (sys_consumer s) tp) \<or> m' = m \<and> fst tp = m_topic m"
      by (auto simp: topic split: if_splits)
    moreover have "known_record E (set (events (sys_posts s))) m"
      using topic ids by (simp add: known_record_def)
    ultimately show "fst tp = m_topic m' \<and> known_record E (set (events (sys_posts s))) m'"
      using log_okD[OF I(2)] by blast
  qed
  moreover have "nothing_lost E (sys_posts s) ?broker"
    by (rule nothing_lost_grow[OF I(3)]) auto
  moreover have "consumer_inv (env_related E) ((sys_consumer s)\<lparr>c_log := ?broker\<rparr>)"
    by (rule consumer_inv_append[OF I(5)])
  ultimately show ?thesis using I(1,4) by (simp add: system_inv_def set_log_def)
qed

lemma system_inv_consume:
  assumes C: "cosine_law (lib_cosine (env_related E))" and inv: "system_inv E s"
    and c: "consumer_step (env_related E) (sys_consumer s) c" "c_log c = c_log (sys_consumer s)"
  shows "system_inv E (s\<lparr>sys_consumer := c\<rparr>)"
proof -
  note I = system_invD[OF inv]
  have "mirror_ok E (set (events (sys_posts s))) (c_db c)"
    using consumer_step_applies[OF c(1)]
  proof
    assume "c_db c = c_db (sys_consumer s)"
    with I(4) show ?thesis by simp
  next
    assume "\<exists>tp. \<exists>m\<in>set (c_log (sys_consumer s) tp). \<exists>now up. handle (env_related E) now up m (c_db (sys_consumer s)) = (Inr True, c_db c)"
    then obtain tp m now up where "m \<in> set (c_log (sys_consumer s) tp)"
      "handle (env_related E) now up m (c_db (sys_consumer s)) = (Inr True, c_db c)" by blast
    with mirror_ok_handle[OF C I(1,2) _ I(4)] show ?thesis by blast
  qed
  moreover have "consumer_inv (env_related E) c" by (rule consumer_step_inv[OF c(1) I(5)])
  ultimately show ?thesis using I(1-3) c(2) by (simp add: system_inv_def)
qed

lemma system_step_inv:
  assumes "cosine_law (lib_cosine (env_related E))" "system_step E s s'" "system_inv E s"
  shows "system_inv E s'"
  using assms(2,3)
  by (induction rule: system_step.induct)
    (auto intro: system_inv_request system_inv_relay system_inv_foreign system_inv_consume[OF assms(1)])

lemma system_reachable_inv:
  assumes "cosine_law (lib_cosine (env_related E))" "system_reachable E s"
  shows "system_inv E s"
  using assms(2)
  by (induction rule: system_reachable.induct) (auto intro: new_system_inv system_step_inv[OF assms(1)])

subsection \<open>Catching up\<close>

lemma record_raises_not:
  assumes C: "cosine_law (lib_cosine R)" and typed: "well_typed k"
  shows "\<exists>b. fst (handle R now up (message_of place k) db) = Inr b"
proof (cases "fst (handle R now up (message_of place k) db)")
  case (Inl e)
  then obtain db' where "handle R now up (message_of place k) db = (Inl e, db')" by (metis prod.collapse)
  from handle_exc[OF C this] have False
    using typed event_id_for_record[OF typed, of R place]
    by (auto simp: well_typed_def put_record_def drop_record_def TOPIC_CREATED_def TOPIC_UPDATED_def TOPIC_DELETED_def)
  then show ?thesis ..
qed simp

lemma consume_one_advances:
  assumes "c_position c tp < length (c_log c tp)" "fst (handle L now up (c_log c tp ! c_position c tp) (c_db c)) = Inr b"
  shows "c_position (consume_one L now up tp c) = (c_position c)(tp := Suc (c_position c tp))
    \<and> c_running (consume_one L now up tp c) = c_running c"
  using assms by (cases b) (auto simp: consume_one_def Let_def split: prod.splits sum.splits)

definition unchanged :: "system \<Rightarrow> system \<Rightarrow> bool" where
  "unchanged s s' \<longleftrightarrow> sys_posts s' = sys_posts s \<and> c_log (sys_consumer s') = c_log (sys_consumer s)
     \<and> (\<forall>tp. c_position (sys_consumer s) tp \<le> c_position (sys_consumer s') tp) \<and> c_running (sys_consumer s')"

lemma unchanged_trans: "unchanged s s' \<Longrightarrow> unchanged s' s'' \<Longrightarrow> unchanged s s''"
  unfolding unchanged_def using le_trans by metis

lemma catch_up_one:
  assumes C: "cosine_law (lib_cosine (env_related E))" and inv: "system_inv E s" and run: "c_running (sys_consumer s)"
    and tp: "fst tp \<noteq> ''token_revoked''" and more: "c_position (sys_consumer s) tp < length (c_log (sys_consumer s) tp)"
  shows "\<exists>s'. system_step E s s' \<and> system_inv E s' \<and> unchanged s s'
    \<and> c_position (sys_consumer s') tp = Suc (c_position (sys_consumer s) tp)"
proof -
  let ?c = "sys_consumer s" and ?R = "env_related E"
  let ?m = "c_log ?c tp ! c_position ?c tp"
  let ?c' = "consume_one ?R (Timestamp 0) Works tp ?c"
  note I = system_invD[OF inv]
  have "?m \<in> set (c_log ?c tp)" using more by simp
  from log_okD[OF I(2) this] tp obtain k place where "k \<in> set (events (sys_posts s))" "?m = message_of place k"
    by (auto simp: known_record_def)
  then obtain b where "fst (handle ?R (Timestamp 0) Works ?m (c_db ?c)) = Inr b"
    using record_raises_not[OF C posts_sideD(2)[OF I(1)]] by metis
  from consume_one_advances[OF more this]
  have adv: "c_position ?c' = (c_position ?c)(tp := Suc (c_position ?c tp))" "c_running ?c' = c_running ?c" by auto
  have cs: "consumer_step ?R ?c ?c'" by (rule consumer_step.round[OF run])
  then have "system_step E s (s\<lparr>sys_consumer := ?c'\<rparr>)" by (rule system_step.consume) simp
  moreover have "system_inv E (s\<lparr>sys_consumer := ?c'\<rparr>)" by (rule system_inv_consume[OF C inv cs]) simp
  ultimately show ?thesis
    using adv run by (intro exI[of _ "s\<lparr>sys_consumer := ?c'\<rparr>"]) (simp add: unchanged_def)
qed

lemma catch_up_partition:
  assumes C: "cosine_law (lib_cosine (env_related E))" and "system_inv E s" "c_running (sys_consumer s)"
    and tp: "fst tp \<noteq> ''token_revoked''"
  shows "\<exists>s'. (system_step E)\<^sup>*\<^sup>* s s' \<and> system_inv E s' \<and> unchanged s s'
    \<and> length (c_log (sys_consumer s) tp) \<le> c_position (sys_consumer s') tp"
  using assms(2,3)
proof (induction "length (c_log (sys_consumer s) tp) - c_position (sys_consumer s) tp" arbitrary: s)
  case 0
  then have "unchanged s s" by (simp add: unchanged_def)
  with 0 show ?case by (intro exI[of _ s]) simp
next
  case (Suc n)
  have more: "c_position (sys_consumer s) tp < length (c_log (sys_consumer s) tp)" using Suc.hyps(2) by linarith
  obtain s1 where s1: "system_step E s s1" "system_inv E s1" "unchanged s s1"
    "c_position (sys_consumer s1) tp = Suc (c_position (sys_consumer s) tp)"
    using catch_up_one[OF C Suc.prems tp more] by blast
  then have log: "c_log (sys_consumer s1) = c_log (sys_consumer s)" and run: "c_running (sys_consumer s1)"
    by (auto simp: unchanged_def)
  have "n = length (c_log (sys_consumer s1) tp) - c_position (sys_consumer s1) tp"
    using Suc.hyps(2) s1(4) by (simp add: log)
  from Suc.hyps(1)[OF this s1(2) run] obtain s2 where "(system_step E)\<^sup>*\<^sup>* s1 s2" "system_inv E s2" "unchanged s1 s2"
    "length (c_log (sys_consumer s1) tp) \<le> c_position (sys_consumer s2) tp" by blast
  with s1(1,3) log show ?case by (metis converse_rtranclp_into_rtranclp unchanged_trans)
qed

lemma catch_up_partitions:
  assumes C: "cosine_law (lib_cosine (env_related E))"
    and "system_inv E s" "c_running (sys_consumer s)" "\<forall>tp\<in>set tps. fst tp \<noteq> ''token_revoked''"
  shows "\<exists>s'. (system_step E)\<^sup>*\<^sup>* s s' \<and> system_inv E s' \<and> unchanged s s'
    \<and> (\<forall>tp\<in>set tps. length (c_log (sys_consumer s) tp) \<le> c_position (sys_consumer s') tp)"
  using assms(2-)
proof (induction tps arbitrary: s)
  case Nil
  then have "unchanged s s" by (simp add: unchanged_def)
  with Nil show ?case by (intro exI[of _ s]) simp
next
  case (Cons tp tps)
  then obtain s1 where s1: "(system_step E)\<^sup>*\<^sup>* s s1" "system_inv E s1" "unchanged s s1"
    "length (c_log (sys_consumer s) tp) \<le> c_position (sys_consumer s1) tp"
    using catch_up_partition[OF C Cons.prems(1,2), of tp] by auto
  then have log: "c_log (sys_consumer s1) = c_log (sys_consumer s)" and run: "c_running (sys_consumer s1)"
    by (auto simp: unchanged_def)
  from Cons.IH[OF s1(2) run] Cons.prems(3) obtain s2 where s2: "(system_step E)\<^sup>*\<^sup>* s1 s2" "system_inv E s2" "unchanged s1 s2"
    "\<forall>tp\<in>set tps. length (c_log (sys_consumer s) tp) \<le> c_position (sys_consumer s2) tp" by (auto simp: log)
  have "length (c_log (sys_consumer s) tp) \<le> c_position (sys_consumer s2) tp"
    using s1(4) s2(3) unfolding unchanged_def by (metis le_trans)
  with s1 s2 show ?case by (intro exI[of _ s2]) (auto intro: unchanged_trans)
qed

lemma relay_catch_up:
  assumes "1 \<le> env_batch E" "system_inv E s"
  shows "\<exists>s'. (system_step E)\<^sup>*\<^sup>* s s' \<and> system_inv E s' \<and> events (sys_posts s') = events (sys_posts s)
    \<and> pending_records (sys_posts s') = []"
  using assms(2)
proof (induction "length (pending_records (sys_posts s))" arbitrary: s rule: less_induct)
  case less
  show ?case
  proof (cases "pending_records (sys_posts s) = []")
    case True
    with less.prems show ?thesis by blast
  next
    case False
    let ?p = "sample_pass (\<lambda>_. delivers)"
    let ?st = "\<lparr>rs_outbox = pdb_outbox (sys_posts s), rs_log = []\<rparr>"
    let ?s = "system_relay E ?p s"
    have good: "good_pass (env_batch E, ?p)" using assms(1) by simp
    have "relay_inv ?st" using posts_sideD(1)[OF system_invD(1)[OF less.prems]] by (simp add: relay_inv_def posts_db_ok_def)
    from relay.progress[OF this good]
    have "length (pending_records (sys_posts ?s)) < length (pending_records (sys_posts s))"
      using False by (simp add: relay_pending_def relay_pass_def pending_records_def system_relay_def Let_def)
    moreover have "system_inv E ?s" by (rule system_inv_relay[OF less.prems good_legal_pass[OF good]])
    ultimately obtain s' where s': "(system_step E)\<^sup>*\<^sup>* ?s s'" "system_inv E s'" "events (sys_posts s') = events (sys_posts ?s)"
      "pending_records (sys_posts s') = []" using less.hyps by blast
    have "system_step E s ?s" by (rule system_step.relay[OF good_legal_pass[OF good]])
    with s' show ?thesis by (metis converse_rtranclp_into_rtranclp system_relay_posts(1))
  qed
qed

lemma start_consumer:
  assumes C: "cosine_law (lib_cosine (env_related E))" and inv: "system_inv E s"
  shows "\<exists>s'. system_step E s s' \<and> system_inv E s' \<and> sys_posts s' = sys_posts s \<and> c_running (sys_consumer s')"
proof -
  let ?c = "restart (sys_consumer s)"
  have cs: "consumer_step (env_related E) (sys_consumer s) ?c" by (rule consumer_step.crash)
  then have "system_step E s (s\<lparr>sys_consumer := ?c\<rparr>)" by (rule system_step.consume) (simp add: restart_def)
  moreover have "system_inv E (s\<lparr>sys_consumer := ?c\<rparr>)"
    by (rule system_inv_consume[OF C inv cs]) (simp add: restart_def)
  ultimately show ?thesis by (intro exI[of _ "s\<lparr>sys_consumer := ?c\<rparr>"]) (simp add: restart_def)
qed

subsection \<open>What holds of the system\<close>

lemma event_in_log:
  assumes inv: "system_inv E s" and e: "e \<in> set (pdb_outbox (sys_posts s))" and p: "o_published_at e \<noteq> None"
  shows "\<exists>place. message_of place (record_of e) \<in> set (c_log (sys_consumer s) (o_topic e, env_partition E (record_of e)))"
proof -
  note I = system_invD[OF inv]
  have k: "record_of e \<in> set (events (sys_posts s))" using e by (simp add: events_def)
  have "record_of e \<notin> set (pending_records (sys_posts s))"
  proof
    assume "record_of e \<in> set (pending_records (sys_posts s))"
    then obtain e' where e': "e' \<in> set (pdb_outbox (sys_posts s))" "o_published_at e' = None" "record_of e' = record_of e"
      by (auto simp: pending_records_def unpublished_def)
    then have "o_id e' = o_id e" by (metis record_of_fields(3))
    then have "e' = e"
      using posts_sideD(1)[OF I(1)] e' e distinct_map_inj_on_set[of o_id "pdb_outbox (sys_posts s)"] by (simp add: posts_db_ok_def)
    with e'(2) p show False by simp
  qed
  with I(3) k show ?thesis by (force simp: nothing_lost_def)
qed

lemma event_typed: "system_inv E s \<Longrightarrow> e \<in> set (pdb_outbox (sys_posts s)) \<Longrightarrow> well_typed (record_of e)"
  using posts_sideD(2)[OF system_invD(1)] by (simp add: events_def)

text \<open>The place of an event in the log, and whether the consumer has dealt with it.\<close>

definition dealt_with :: "system_env \<Rightarrow> system \<Rightarrow> outbox_event \<Rightarrow> nat \<Rightarrow> bool" where
  "dealt_with E s e off \<longleftrightarrow> o_id e \<in> set (processed_ids (c_db (sys_consumer s)))
     \<or> ((o_topic e, env_partition E (record_of e)), off) \<in> set (c_failures (sys_consumer s))"

definition log_has :: "system_env \<Rightarrow> system \<Rightarrow> outbox_event \<Rightarrow> nat \<Rightarrow> bool" where
  "log_has E s e off \<longleftrightarrow> (let recs = c_log (sys_consumer s) (o_topic e, env_partition E (record_of e))
     in off < length recs \<and> (\<exists>place. recs ! off = message_of place (record_of e)))"

lemma event_log_has:
  assumes "system_inv E s" "e \<in> set (pdb_outbox (sys_posts s))" "o_published_at e \<noteq> None"
  shows "\<exists>off. log_has E s e off"
  using event_in_log[OF assms] by (auto simp: log_has_def in_set_conv_nth Let_def)

lemma passed_is_dealt_with:
  assumes inv: "system_inv E s" and e: "e \<in> set (pdb_outbox (sys_posts s))" and has: "log_has E s e off"
    and off: "off < c_position (sys_consumer s) (o_topic e, env_partition E (record_of e))"
  shows "dealt_with E s e off"
proof -
  obtain place where m: "c_log (sys_consumer s) (o_topic e, env_partition E (record_of e)) ! off = message_of place (record_of e)"
    using has by (auto simp: log_has_def Let_def)
  have "settled (env_related E) (sys_consumer s) (o_topic e, env_partition E (record_of e)) off"
    by (rule consumer_invD(3)[OF system_invD(5)[OF inv] off])
  then show ?thesis
    using event_id_for_record[OF event_typed[OF inv e]]
    by (auto simp: settled_def m applied_iff dealt_with_def processed_ids_def)
qed

subsection \<open>A run to evaluate on\<close>

text \<open>One post is created, the relay publishes its event, the consumer applies it.\<close>

definition sample_env :: system_env where
  "sample_env = \<lparr>env_posts = plain_posts_lib, env_related = plain_related_lib, env_partition = (\<lambda>_. 0),
     env_batch = 10, env_foreign = (\<lambda>u. CHR '':'' \<in> set u)\<rparr>"

lemma sample_env_fields [simp]:
  "cosine_law (lib_cosine (env_related sample_env))" "env_batch sample_env = 10" "env_partition sample_env = (\<lambda>_. 0)"
  "env_posts sample_env = plain_posts_lib" "env_related sample_env = plain_related_lib"
  by (simp_all add: sample_env_def)

definition first_event :: outbox_event where
  "first_event = recorded (sample_request ''u1'' 1) TOPIC_CREATED ''s1''
     (post_payload 1 ''kafka'' [] ''b'' ''s1'' [(''created_at'', JStr (show_int 1)), (''updated_at'', JStr (show_int 1))])"

lemma first_event_fields [simp]:
  "o_id first_event = ''u1''" "o_topic first_event = TOPIC_CREATED" "o_published_at first_event = None"
  "event_change (o_topic first_event) (o_payload first_event) = Some (Put 1 ''kafka'' [] ''b'' ''s1'')"
  "o_payload first_event = post_payload 1 ''kafka'' [] ''b'' ''s1'' [(''created_at'', JStr (show_int 1)), (''updated_at'', JStr (show_int 1))]"
  by (simp_all add: first_event_def sample_request_def)

definition after_request :: system where
  "after_request = new_system\<lparr>sys_posts := snd (run_view plain_posts_lib (sample_request ''u1'' 1)
     (Create (sample_data ''kafka'' ''s1'')) (sys_posts new_system))\<rparr>"

definition after_pass :: system where
  "after_pass = system_relay sample_env (sample_pass (\<lambda>_. delivers)) after_request"

definition after_round :: system where
  "after_round = after_pass\<lparr>sys_consumer := consume_one plain_related_lib (Timestamp 5) Works (TOPIC_CREATED, 0) (sys_consumer after_pass)\<rparr>"

lemma after_request_outbox: "pdb_outbox (sys_posts after_request) = [first_event]"
  by (simp add: after_request_def new_system_def create_post_def is_valid_def plain_posts_lib_def text_field_def
      sample_data_def then_do_def atomic_def insert_post_def record_event_def statement_def returns_def Let_def
      posts_db_ok_def empty_posts_db_def post_row_ok_def outbox_row_ok_def first_event_def recorded_def
      sample_request_def post_data_payload)

lemma after_pass_eval:
  "pdb_outbox (sys_posts after_pass) = [first_event\<lparr>o_published_at := Some (Timestamp 9)\<rparr>]"
  "c_log (sys_consumer after_pass) (TOPIC_CREATED, 0) = [message_of (0, 0) (record_of first_event)]"
  "c_db (sys_consumer after_pass) = empty_related_db" "c_position (sys_consumer after_pass) = (\<lambda>_. 0)"
  "c_running (sys_consumer after_pass)"
proof -
  have u: "unpublished [first_event] = [first_event]" by (simp add: unpublished_def)
  have run: "run_once 10 (sample_pass (\<lambda>_. delivers)) \<lparr>rs_outbox = [first_event], rs_log = []\<rparr>
      = (Inr 1, \<lparr>rs_outbox = mark_published (Timestamp 9) [''u1''] [first_event], rs_log = [record_of first_event]\<rparr>)"
    using good_pass_run(2)[OF good_sample_pass, of 10 "\<lparr>rs_outbox = [first_event], rs_log = []\<rparr>"]
    by (simp add: u sample_pass_def[THEN arg_cong[where f = ps_now]])
  have c: "sys_consumer after_request = new_consumer empty_related_db" by (simp add: after_request_def new_system_def)
  show "pdb_outbox (sys_posts after_pass) = [first_event\<lparr>o_published_at := Some (Timestamp 9)\<rparr>]"
    "c_log (sys_consumer after_pass) (TOPIC_CREATED, 0) = [message_of (0, 0) (record_of first_event)]"
    "c_db (sys_consumer after_pass) = empty_related_db" "c_position (sys_consumer after_pass) = (\<lambda>_. 0)"
    "c_running (sys_consumer after_pass)"
    by (simp_all add: after_pass_def system_relay_def after_request_outbox run set_log_def c new_consumer_def
        mark_published_def store_records_def store_record_def Let_def)
qed

lemma sample_reachable:
  "system_reachable sample_env after_request" "system_reachable sample_env after_pass" "system_reachable sample_env after_round"
proof -
  have "system_step sample_env new_system after_request"
    using system_step.request[of "sample_request ''u1'' 1" sample_env new_system "Create (sample_data ''kafka'' ''s1'')"]
    by (simp add: after_request_def sample_env_def sample_request_def event_id_ok_def code_def)
  then show r1: "system_reachable sample_env after_request"
    using system_reachable.start system_reachable.step by blast
  have "legal_pass (env_batch sample_env, sample_pass (\<lambda>_. delivers))" by (simp add: good_legal_pass)
  then show r2: "system_reachable sample_env after_pass"
    using system_reachable.step[OF r1] system_step.relay unfolding after_pass_def by blast
  have "consumer_step plain_related_lib (sys_consumer after_pass)
      (consume_one plain_related_lib (Timestamp 5) Works (TOPIC_CREATED, 0) (sys_consumer after_pass))"
    by (rule consumer_step.round) (rule after_pass_eval)
  then show "system_reachable sample_env after_round"
    using system_reachable.step[OF r2] system_step.consume[of sample_env after_pass] unfolding after_round_def by simp
qed

lemma after_round_eval:
  "pdb_outbox (sys_posts after_round) = [first_event\<lparr>o_published_at := Some (Timestamp 9)\<rparr>]"
  "''u1'' \<in> set (processed_ids (c_db (sys_consumer after_round)))"
  "message_of (0, 0) (record_of first_event) \<in> set (c_log (sys_consumer after_round) (TOPIC_CREATED, 0))"
  "0 < c_committed (sys_consumer after_round) (TOPIC_CREATED, 0)"
  "c_log (sys_consumer after_round) (TOPIC_CREATED, 0) = [message_of (0, 0) (record_of first_event)]"
proof -
  let ?m = "message_of (0, 0) (record_of first_event)"
  have fit: "fields_fit 1 ''kafka'' [] ''b'' ''s1''" by (simp add: fields_fit_def int32_def)
  have id: "event_id_for plain_related_lib ?m = Inr ''u1''"
    by (simp add: event_id_for_def message_of_def decode_bytes_def code_def)
  have m: "m_topic ?m = TOPIC_CREATED"
    "m_value ?m = post_payload 1 ''kafka'' [] ''b'' ''s1'' [(''created_at'', JStr (show_int 1)), (''updated_at'', JStr (show_int 1))]"
    by simp_all
  obtain db' where h: "handle plain_related_lib (Timestamp 5) Works ?m empty_related_db = (Inr True, db')"
    "processed_ids db' = processed_ids empty_related_db @ [''u1'']"
    using handle_create_new[OF plain_related_lib_laws(1) empty_related_db_ok fit m id, of "Timestamp 5"]
    by (auto simp: processed_ids_def empty_related_db_def)
  show "pdb_outbox (sys_posts after_round) = [first_event\<lparr>o_published_at := Some (Timestamp 9)\<rparr>]"
    "''u1'' \<in> set (processed_ids (c_db (sys_consumer after_round)))"
    "?m \<in> set (c_log (sys_consumer after_round) (TOPIC_CREATED, 0))"
    "0 < c_committed (sys_consumer after_round) (TOPIC_CREATED, 0)"
    "c_log (sys_consumer after_round) (TOPIC_CREATED, 0) = [message_of (0, 0) (record_of first_event)]"
    using h by (simp_all add: after_round_def after_pass_eval consume_one_def Let_def)
qed

text \<open>
  C1: No event is lost, whatever happens and in whatever order: in every state the system can reach,
  each event of the outbox is unpublished or in the log, and where the consumer has committed an
  offset beyond it, the event has been applied or its failure has been logged.
\<close>

theorem system_loses_nothing:
  assumes "cosine_law (lib_cosine (env_related E))" "system_reachable E s" "e \<in> set (pdb_outbox (sys_posts s))"
  shows "(o_published_at e = None \<or> (\<exists>off. log_has E s e off))
    \<and> (\<forall>off. log_has E s e off \<and> off < c_committed (sys_consumer s) (o_topic e, env_partition E (record_of e))
         \<longrightarrow> dealt_with E s e off)"
proof -
  note inv = system_reachable_inv[OF assms(1,2)]
  have "dealt_with E s e off"
    if "log_has E s e off" "off < c_committed (sys_consumer s) (o_topic e, env_partition E (record_of e))" for off
    using passed_is_dealt_with[OF inv assms(3) that(1)] that(2) consumer_invD(1)[OF system_invD(5)[OF inv]]
    by (meson order_less_le_trans)
  then show ?thesis using event_log_has[OF inv assms(3)] by blast
qed

theorem system_loses_nothing_witness:
  "\<exists>off. log_has sample_env after_round (first_event\<lparr>o_published_at := Some (Timestamp 9)\<rparr>) off
    \<and> dealt_with sample_env after_round (first_event\<lparr>o_published_at := Some (Timestamp 9)\<rparr>) off"
proof -
  let ?e = "first_event\<lparr>o_published_at := Some (Timestamp 9)\<rparr>"
  have "?e \<in> set (pdb_outbox (sys_posts after_round))" by (simp add: after_round_eval)
  note claim = system_loses_nothing[OF sample_env_fields(1) sample_reachable(3) this]
  then obtain off where off: "log_has sample_env after_round ?e off" by auto
  then have "off = 0" by (simp add: log_has_def after_round_eval(5))
  then have "dealt_with sample_env after_round ?e off" using claim off after_round_eval(4) by simp
  with off show ?thesis by blast
qed

text \<open>
  C7: The related service invents nothing: in every reachable state the title, image, body and slug of
  each of its posts are those of one event that the posts service recorded for that id, and the
  constraints of its tables hold.
\<close>

theorem related_rows_come_from_events:
  assumes "cosine_law (lib_cosine (env_related E))" "system_reachable E s"
  shows "related_db_ok (c_db (sys_consumer s)) \<and> (\<forall>r\<in>set (rdb_posts (c_db (sys_consumer s))).
    \<exists>e\<in>set (pdb_outbox (sys_posts s)). \<exists>title img body slug.
      event_change (o_topic e) (o_payload e) = Some (Put (rp_id r) title img body slug)
      \<and> related_fields r = (title, Some img, Some body, slug))"
proof -
  note D = mirror_okD[OF system_invD(4)[OF system_reachable_inv[OF assms]]]
  have "put_in (set (events (sys_posts s))) (rp_id r) (related_fields r)" if r: "r \<in> set (rdb_posts (c_db (sys_consumer s)))" for r
    by (rule D(3)) (simp add: related_mirror_def row_at_distinct[OF related_db_ok_distinct(1)[OF D(1)] r])
  then show ?thesis
    using D(1) by (auto simp: put_in_def record_change_def events_def)
qed

theorem related_rows_come_from_events_witness:
  "related_db_ok (c_db (sys_consumer after_round))
    \<and> related_fields ` set (rdb_posts (c_db (sys_consumer after_round))) \<subseteq> {(''kafka'', Some [], Some ''b'', ''s1'')}"
  using related_rows_come_from_events[OF sample_env_fields(1) sample_reachable(3)]
  by (auto simp: after_round_eval(1))

text \<open>
  A post that is recorded once and not deleted arrives as it was recorded, whatever overtakes its
  event: once the event has been processed, the row of the related service has its fields.
\<close>

lemma undisturbed_post_arrives:
  assumes "cosine_law (lib_cosine (env_related E))" "system_reachable E s"
    and "e \<in> set (pdb_outbox (sys_posts s))" "event_change (o_topic e) (o_payload e) = Some (Put i title img body slug)"
    and "o_id e \<in> set (processed_ids (c_db (sys_consumer s)))"
    and "\<forall>e'\<in>set (pdb_outbox (sys_posts s)). case event_change (o_topic e') (o_payload e') of
        Some (Put i' title' img' body' slug') \<Rightarrow> i' = i \<longrightarrow> (title', img', body', slug') = (title, img, body, slug)
      | Some (Drop slug') \<Rightarrow> slug' \<noteq> slug
      | None \<Rightarrow> True"
  shows "related_mirror (rdb_posts (c_db (sys_consumer s))) i = Some (title, Some img, Some body, slug)"
proof -
  let ?evs = "set (events (sys_posts s))"
  note D = mirror_okD[OF system_invD(4)[OF system_reachable_inv[OF assms(1,2)]]]
  have put: "title' = title \<and> img' = img \<and> body' = body \<and> slug' = slug"
    if "k \<in> ?evs" "record_change k = Some (Put i title' img' body' slug')" for k title' img' body' slug'
    using assms(6) that by (fastforce simp: events_def record_change_def)
  have drop: "record_change k \<noteq> Some (Drop slug)" if "k \<in> ?evs" for k
    using assms(6) that by (fastforce simp: events_def record_change_def)
  have "\<not> dropped ?evs i" unfolding dropped_def using put drop by blast
  moreover have "record_of e \<in> ?evs" using assms(3) by (simp add: events_def)
  ultimately obtain f where f: "related_mirror (rdb_posts (c_db (sys_consumer s))) i = Some f"
    using D(4)[of "record_of e" i title img body slug] assms(4,5) by (auto simp: record_change_def)
  with D(3)[OF f] put show ?thesis unfolding put_in_def by blast
qed

lemma undisturbed_post_arrives_witness:
  "related_mirror (rdb_posts (c_db (sys_consumer after_round))) 1 = Some (''kafka'', Some [], Some ''b'', ''s1'')"
  by (rule undisturbed_post_arrives[OF sample_env_fields(1) sample_reachable(3),
        where e = "first_event\<lparr>o_published_at := Some (Timestamp 9)\<rparr>"])
    (simp_all add: after_round_eval)

text \<open>
  C20: What the posts service publishes is well typed for the consumer: in every reachable state a record
  in a partition of the three post topics has a payload with the fields and types the handlers
  read, and \<open>handle\<close> returns for it, on any database and at any time: it never raises.
\<close>

theorem published_events_are_handled:
  assumes "cosine_law (lib_cosine (env_related E))" "system_reachable E s"
    and "m \<in> set (c_log (sys_consumer s) tp)" "fst tp \<noteq> ''token_revoked''"
  shows "fst tp = m_topic m \<and> m_topic m \<in> {TOPIC_CREATED, TOPIC_UPDATED, TOPIC_DELETED}
    \<and> event_change (m_topic m) (m_value m) \<noteq> None
    \<and> (\<forall>now up db. fst (handle (env_related E) now up m db) \<in> {Inr True, Inr False})"
proof -
  note I = system_invD[OF system_reachable_inv[OF assms(1,2)]]
  from log_okD[OF I(2) assms(3)] assms(4) obtain k place where k: "k \<in> set (events (sys_posts s))" "m = message_of place k"
    and tp: "fst tp = m_topic m" by (auto simp: known_record_def)
  note typed = posts_sideD(2)[OF I(1) k(1)]
  have "fst (handle (env_related E) now up m db) \<in> {Inr True, Inr False}" for now up db
    using record_raises_not[OF assms(1) typed, of now up place db] by (auto simp: k(2))
  with typed tp show ?thesis
    by (auto simp: k(2) well_typed_def put_record_def drop_record_def)
qed

theorem published_events_are_handled_witness:
  "fst (handle plain_related_lib (Timestamp 7) Fails (message_of (0, 0) (record_of first_event)) empty_related_db) \<in> {Inr True, Inr False}"
  using published_events_are_handled[OF sample_env_fields(1) sample_reachable(3) after_round_eval(3)]
  by (simp add: TOPIC_CREATED_def)

text \<open>
  C5: The system can always catch up: from every reachable state, passes of the relay and rounds of the
  consumer lead to a state in which every event of the outbox has been published and the consumer
  has read past its record: it has been applied, or its failure has been logged.
\<close>

theorem system_can_catch_up:
  assumes "cosine_law (lib_cosine (env_related E))" "1 \<le> env_batch E" "system_reachable E s"
  shows "\<exists>s'. (system_step E)\<^sup>*\<^sup>* s s' \<and> events (sys_posts s') = events (sys_posts s)
    \<and> unpublished (pdb_outbox (sys_posts s')) = []
    \<and> (\<forall>e\<in>set (pdb_outbox (sys_posts s')). \<exists>off. log_has E s' e off \<and> dealt_with E s' e off)"
proof -
  note C = assms(1)
  obtain s1 where s1: "(system_step E)\<^sup>*\<^sup>* s s1" "system_inv E s1" "events (sys_posts s1) = events (sys_posts s)"
    "pending_records (sys_posts s1) = []"
    using relay_catch_up[OF assms(2) system_reachable_inv[OF C assms(3)]] by blast
  obtain s2 where s2: "system_step E s1 s2" "system_inv E s2" "sys_posts s2 = sys_posts s1" "c_running (sys_consumer s2)"
    using start_consumer[OF C s1(2)] by blast
  let ?tps = "map (\<lambda>k. (k_topic k, env_partition E k)) (events (sys_posts s2))"
  have "\<forall>tp\<in>set ?tps. fst tp \<noteq> ''token_revoked''"
    using posts_sideD(2)[OF system_invD(1)[OF s2(2)]]
    by (fastforce simp: well_typed_def put_record_def drop_record_def TOPIC_CREATED_def TOPIC_UPDATED_def TOPIC_DELETED_def)
  from catch_up_partitions[OF C s2(2,4) this] obtain s3 where s3: "(system_step E)\<^sup>*\<^sup>* s2 s3" "system_inv E s3" "unchanged s2 s3"
    "\<forall>tp\<in>set ?tps. length (c_log (sys_consumer s2) tp) \<le> c_position (sys_consumer s3) tp" by blast
  then have same: "sys_posts s3 = sys_posts s1" "c_log (sys_consumer s3) = c_log (sys_consumer s2)"
    using s2(3) by (auto simp: unchanged_def)
  have none: "unpublished (pdb_outbox (sys_posts s3)) = []" using s1(4) by (simp add: same pending_records_def)
  have "\<exists>off. log_has E s3 e off \<and> dealt_with E s3 e off" if e: "e \<in> set (pdb_outbox (sys_posts s3))" for e
  proof -
    let ?tp = "(o_topic e, env_partition E (record_of e))"
    have "o_published_at e \<noteq> None" using none e by (auto simp: unpublished_def filter_empty_conv)
    from event_log_has[OF s3(2) e this] obtain off where off: "log_has E s3 e off" by blast
    have "?tp \<in> set ?tps" using e by (force simp: events_def s2(3) same)
    from bspec[OF s3(4) this] have "length (c_log (sys_consumer s3) ?tp) \<le> c_position (sys_consumer s3) ?tp"
      unfolding same(2) .
    moreover have "off < length (c_log (sys_consumer s3) ?tp)" using off by (simp add: log_has_def Let_def)
    ultimately have "off < c_position (sys_consumer s3) ?tp" by (rule order_less_le_trans[rotated])
    from passed_is_dealt_with[OF s3(2) e off this] off show ?thesis by blast
  qed
  moreover have "(system_step E)\<^sup>*\<^sup>* s s3" using s1(1) s2(1) s3(1) by (meson rtranclp.rtrancl_into_rtrancl rtranclp_trans)
  ultimately show ?thesis using s1(3) none by (auto simp: same)
qed

theorem system_can_catch_up_witness:
  "\<exists>s'. (system_step sample_env)\<^sup>*\<^sup>* after_request s' \<and> unpublished (pdb_outbox (sys_posts s')) = []
    \<and> events (sys_posts s') = [record_of first_event]"
  using system_can_catch_up[OF sample_env_fields(1) _ sample_reachable(1)]
  by (auto simp: events_def after_request_outbox)

end
