(* ===== verification/Relays.thy ===== *)
theory Relays
  imports Relay
begin

section \<open>Several relays at the same time (services/relay/relay.py)\<close>

text \<open>
  A pass of \<open>run_once\<close> is a transaction of three steps that other relays and the posts service
  interleave with: \<open>claim_batch\<close> locks its rows (FOR UPDATE SKIP LOCKED leaves the rows of others
  out), \<open>publish_batch\<close> sends them, \<open>mark_published\<close> and the commit end it; an exception, a crash or a
  lost connection releases the locks. \<open>fl_wasted\<close> is not in the code: it notes the ids of records that
  the broker has stored and whose rows the transaction did not mark.
\<close>

datatype phase = Idle | Claimed "outbox_event list" | Sent "outbox_event list" "string list" "kafka_record list"

fun held :: "phase \<Rightarrow> outbox_event list" where
  "held Idle = []"
| "held (Claimed rows) = rows"
| "held (Sent rows delivered stored) = rows"

fun in_flight :: "phase \<Rightarrow> kafka_record list" where
  "in_flight (Sent rows delivered stored) = stored"
| "in_flight _ = []"

record fleet =
  fl_outbox :: "outbox_event list"
  fl_log :: "kafka_record list"
  fl_phase :: "nat \<Rightarrow> phase"
  fl_wasted :: "string list"

definition new_fleet :: fleet where
  "new_fleet = \<lparr>fl_outbox = [], fl_log = [], fl_phase = (\<lambda>_. Idle), fl_wasted = []\<rparr>"

definition set_phase :: "nat \<Rightarrow> phase \<Rightarrow> fleet \<Rightarrow> fleet" where
  "set_phase i ph s = s\<lparr>fl_phase := (fl_phase s)(i := ph)\<rparr>"

definition locked_ids :: "fleet \<Rightarrow> string set" where
  "locked_ids s = (\<Union>i. o_id ` set (held (fl_phase s i)))"

inductive fleet_step :: "int \<Rightarrow> fleet \<Rightarrow> fleet \<Rightarrow> bool" for b where
  record_row: "o_id e \<notin> o_id ` set (fl_outbox s) \<Longrightarrow> o_published_at e = None \<Longrightarrow>
    fleet_step b s (s\<lparr>fl_outbox := fl_outbox s @ [e]\<rparr>)"
| claim: "fl_phase s i = Idle \<Longrightarrow> set locked = locked_ids s \<Longrightarrow> claim_batch locked b (fl_outbox s) = Inr rows \<Longrightarrow>
    fleet_step b s (set_phase i (Claimed rows) s)"
| send: "fl_phase s i = Claimed rows \<Longrightarrow> legal_pass (b, p) \<Longrightarrow> publish_batch p rows = (Inr delivered, stored) \<Longrightarrow>
    fleet_step b s (set_phase i (Sent rows delivered stored) (s\<lparr>fl_log := fl_log s @ stored\<rparr>))"
| send_fails: "fl_phase s i = Claimed rows \<Longrightarrow> publish_batch p rows = (Inl e, stored) \<Longrightarrow>
    fleet_step b s (set_phase i Idle (s\<lparr>fl_log := fl_log s @ stored, fl_wasted := fl_wasted s @ map record_id stored\<rparr>))"
| commit: "fl_phase s i = Sent rows delivered stored \<Longrightarrow>
    fleet_step b s (set_phase i Idle (s\<lparr>fl_outbox := mark_published now delivered (fl_outbox s),
      fl_wasted := fl_wasted s @ filter (\<lambda>u. u \<notin> set delivered) (map record_id stored)\<rparr>))"
| abort: "fleet_step b s (set_phase i Idle (s\<lparr>fl_wasted := fl_wasted s @ map record_id (in_flight (fl_phase s i))\<rparr>))"

inductive fleet_reachable :: "int \<Rightarrow> fleet \<Rightarrow> bool" for b where
  start: "fleet_reachable b new_fleet"
| step: "fleet_reachable b s \<Longrightarrow> fleet_step b s s' \<Longrightarrow> fleet_reachable b s'"

inductive_cases fleet_stepE: "fleet_step b s s'"

subsection \<open>What one relay holds\<close>

fun phase_ok :: "outbox_event list \<Rightarrow> phase \<Rightarrow> bool" where
  "phase_ok box Idle = True"
| "phase_ok box (Claimed rows) \<longleftrightarrow> set rows \<subseteq> set (unpublished box) \<and> distinct (map o_id rows)"
| "phase_ok box (Sent rows delivered stored) \<longleftrightarrow> set rows \<subseteq> set (unpublished box) \<and> distinct (map o_id rows)
     \<and> distinct (map record_id stored) \<and> record_id ` set stored \<subseteq> o_id ` set rows \<and> set delivered \<subseteq> record_id ` set stored"

lemma phase_ok_held: "phase_ok box ph \<Longrightarrow> set (held ph) \<subseteq> set (unpublished box)"
  by (cases ph) auto

lemma phase_ok_in_flight:
  "phase_ok box ph \<Longrightarrow> distinct (map record_id (in_flight ph)) \<and> record_id ` set (in_flight ph) \<subseteq> o_id ` set (held ph)"
  by (cases ph) auto

text \<open>Rows of a relay stay as they are while others work.\<close>

lemma phase_ok_other:
  assumes "phase_ok box ph" "set (held ph) \<inter> set (unpublished box) \<subseteq> set (unpublished box')"
  shows "phase_ok box' ph"
  using assms by (cases ph) auto

lemma publish_batch_ok:
  assumes legal: "legal_pass (b, p)" and pub: "publish_batch p rows = (Inr delivered, stored)"
    and rows: "phase_ok box (Claimed rows)"
  shows "phase_ok box (Sent rows delivered stored)"
proof -
  note pb = publish_batch_Inr[OF pub]
  have ids: "map record_id stored = map o_id (filter (\<lambda>r. f_stored (ps_fate p r)) rows)" by (simp add: pb(2) comp_def)
  then have "record_id ` set stored \<subseteq> o_id ` set rows" by (force simp: pb(2))
  moreover have "distinct (map o_id (filter (\<lambda>r. f_stored (ps_fate p r)) rows))"
    using rows by (simp add: distinct_map_filter_key)
  moreover have "set delivered \<subseteq> record_id ` set stored"
    using legal by (force simp: pb legal_pass_def image_iff)
  ultimately show ?thesis
    using rows ids by simp
qed

subsection \<open>The invariant\<close>

definition marked :: "outbox_event list \<Rightarrow> string \<Rightarrow> bool" where
  "marked box u \<longleftrightarrow> (\<exists>r\<in>set box. o_id r = u \<and> o_published_at r \<noteq> None)"

definition flying :: "fleet \<Rightarrow> string \<Rightarrow> bool" where
  "flying s u \<longleftrightarrow> (\<exists>i. u \<in> record_id ` set (in_flight (fl_phase s i)))"

definition fleet_inv :: "fleet \<Rightarrow> bool" where
  "fleet_inv s \<longleftrightarrow> distinct (map o_id (fl_outbox s)) \<and> (\<forall>i. phase_ok (fl_outbox s) (fl_phase s i))
     \<and> (\<forall>i j. i \<noteq> j \<longrightarrow> o_id ` set (held (fl_phase s i)) \<inter> o_id ` set (held (fl_phase s j)) = {})
     \<and> (\<forall>u. count_list (map record_id (fl_log s)) u
            = count_list (fl_wasted s) u + (if marked (fl_outbox s) u \<or> flying s u then 1 else 0))"

lemma fleet_invD:
  assumes "fleet_inv s"
  shows "distinct (map o_id (fl_outbox s))" "phase_ok (fl_outbox s) (fl_phase s i)"
    "i \<noteq> j \<Longrightarrow> o_id ` set (held (fl_phase s i)) \<inter> o_id ` set (held (fl_phase s j)) = {}"
    "count_list (map record_id (fl_log s)) u
       = count_list (fl_wasted s) u + (if marked (fl_outbox s) u \<or> flying s u then 1 else 0)"
  using assms unfolding fleet_inv_def by blast+

lemma count_list_distinct: "distinct xs \<Longrightarrow> count_list xs u = (if u \<in> set xs then 1 else 0)"
  by (induction xs) auto

lemma held_not_marked:
  assumes "distinct (map o_id box)" "phase_ok box ph" "u \<in> o_id ` set (held ph)"
  shows "\<not> marked box u"
proof
  assume "marked box u"
  then obtain r where r: "r \<in> set box" "o_id r = u" "o_published_at r \<noteq> None" by (auto simp: marked_def)
  obtain q where q: "q \<in> set box" "o_id q = u" "o_published_at q = None"
    using assms(3) phase_ok_held[OF assms(2)] by (auto simp: unpublished_def)
  have "q = r" using distinct_map_inj_on_set[OF assms(1) q(1) r(1)] q(2) r(2) by simp
  with q(3) r(3) show False by simp
qed

text \<open>What one relay has in flight, nobody else has, and it is not marked yet.\<close>

lemma flying_alone:
  assumes "fleet_inv s" "u \<in> record_id ` set (in_flight (fl_phase s i))"
  shows "\<not> marked (fl_outbox s) u" "j \<noteq> i \<Longrightarrow> u \<notin> o_id ` set (held (fl_phase s j))"
proof -
  note I = fleet_invD[OF assms(1)]
  have u: "u \<in> o_id ` set (held (fl_phase s i))" using assms(2) phase_ok_in_flight[OF I(2)] by blast
  show "\<not> marked (fl_outbox s) u" by (rule held_not_marked[OF I(1) I(2) u])
  show "u \<notin> o_id ` set (held (fl_phase s j))" if "j \<noteq> i" using I(3)[OF that] u by blast
qed

lemma flying_set_phase:
  "flying (set_phase i ph s) u \<longleftrightarrow> u \<in> record_id ` set (in_flight ph) \<or> (\<exists>j. j \<noteq> i \<and> u \<in> record_id ` set (in_flight (fl_phase s j)))"
  by (auto simp: flying_def set_phase_def)

lemma flying_split:
  "flying s u \<longleftrightarrow> u \<in> record_id ` set (in_flight (fl_phase s i)) \<or> (\<exists>j. j \<noteq> i \<and> u \<in> record_id ` set (in_flight (fl_phase s j)))"
  unfolding flying_def by metis

subsection \<open>Every step keeps the invariant\<close>

lemma fleet_inv_record:
  assumes inv: "fleet_inv s" and e: "o_id e \<notin> o_id ` set (fl_outbox s)" "o_published_at e = None"
  shows "fleet_inv (s\<lparr>fl_outbox := fl_outbox s @ [e]\<rparr>)"
proof -
  note I = fleet_invD[OF inv]
  have "phase_ok (fl_outbox s @ [e]) (fl_phase s i)" for i
    by (rule phase_ok_other[OF I(2)]) (auto simp: unpublished_def)
  moreover have "marked (fl_outbox s @ [e]) u = marked (fl_outbox s) u" for u
    using e(2) by (auto simp: marked_def)
  moreover have "flying (s\<lparr>fl_outbox := fl_outbox s @ [e]\<rparr>) u = flying s u" for u
    by (simp add: flying_def)
  ultimately show ?thesis using I(1,3,4) e(1) by (auto simp: fleet_inv_def)
qed

text \<open>A step of relay \<open>i\<close> that keeps the rows of the others and the count.\<close>

lemma fleet_inv_phase:
  assumes inv: "fleet_inv s"
    and box: "distinct (map o_id (fl_outbox s'))" "phase_ok (fl_outbox s') ph"
    and others: "\<And>j. j \<noteq> i \<Longrightarrow> phase_ok (fl_outbox s') (fl_phase s j)"
    and apart: "\<And>j. j \<noteq> i \<Longrightarrow> o_id ` set (held ph) \<inter> o_id ` set (held (fl_phase s j)) = {}"
    and count: "\<And>u. count_list (map record_id (fl_log s')) u = count_list (fl_wasted s') u
      + (if marked (fl_outbox s') u \<or> u \<in> record_id ` set (in_flight ph)
            \<or> (\<exists>j. j \<noteq> i \<and> u \<in> record_id ` set (in_flight (fl_phase s j))) then 1 else 0)"
    and phases: "fl_phase s' = fl_phase s"
  shows "fleet_inv (set_phase i ph s')"
proof -
  note I = fleet_invD[OF inv]
  have "o_id ` set (held (fl_phase (set_phase i ph s') j)) \<inter> o_id ` set (held (fl_phase (set_phase i ph s') k)) = {}"
    if "j \<noteq> k" for j k
    using that apart[of j] apart[of k] I(3)[of j k] by (auto simp: set_phase_def phases)
  moreover have "phase_ok (fl_outbox s') (fl_phase (set_phase i ph s') j)" for j
    using box(2) others by (simp add: set_phase_def phases)
  ultimately show ?thesis
    unfolding fleet_inv_def flying_set_phase phases using box(1) count by (simp add: set_phase_def)
qed

lemma others_apart:
  assumes "fleet_inv s" "set (held ph) \<subseteq> set (held (fl_phase s i))" "j \<noteq> i"
  shows "o_id ` set (held ph) \<inter> o_id ` set (held (fl_phase s j)) = {}"
  using fleet_invD(3)[OF assms(1), of i j] assms(2,3) by blast

lemma fleet_inv_claim:
  assumes inv: "fleet_inv s" and idle: "fl_phase s i = Idle" and locked: "set locked = locked_ids s"
    and claim: "claim_batch locked b (fl_outbox s) = Inr rows"
  shows "fleet_inv (set_phase i (Claimed rows) s)"
proof (rule fleet_inv_phase[OF inv])
  note I = fleet_invD[OF inv]
  show "distinct (map o_id (fl_outbox s))" by (rule I(1))
  show "phase_ok (fl_outbox s) (Claimed rows)"
    using claim_batch_InrD(1)[OF claim] claim_batch_InrD(5)[OF claim I(1)] by simp
  show "phase_ok (fl_outbox s) (fl_phase s j)" for j by (rule I(2))
  show "o_id ` set (held (Claimed rows)) \<inter> o_id ` set (held (fl_phase s j)) = {}" for j
    using claim_batch_InrD(4)[OF claim] locked by (auto simp: locked_ids_def)
  show "count_list (map record_id (fl_log s)) u = count_list (fl_wasted s) u
      + (if marked (fl_outbox s) u \<or> u \<in> record_id ` set (in_flight (Claimed rows))
            \<or> (\<exists>j. j \<noteq> i \<and> u \<in> record_id ` set (in_flight (fl_phase s j))) then 1 else 0)" for u
    using I(4)[of u] idle by (simp add: flying_split[of s u i])
qed simp

lemma fleet_inv_send:
  assumes inv: "fleet_inv s" and ph: "fl_phase s i = Claimed rows" and legal: "legal_pass (b, p)"
    and pub: "publish_batch p rows = (Inr delivered, stored)"
  shows "fleet_inv (set_phase i (Sent rows delivered stored) (s\<lparr>fl_log := fl_log s @ stored\<rparr>))"
proof (rule fleet_inv_phase[OF inv])
  note I = fleet_invD[OF inv]
  have "phase_ok (fl_outbox s) (Claimed rows)" using I(2)[of i] by (simp only: ph)
  from publish_batch_ok[OF legal pub this]
  show ok: "phase_ok (fl_outbox (s\<lparr>fl_log := fl_log s @ stored\<rparr>)) (Sent rows delivered stored)" by simp
  show "distinct (map o_id (fl_outbox (s\<lparr>fl_log := fl_log s @ stored\<rparr>)))" using I(1) by simp
  show "phase_ok (fl_outbox (s\<lparr>fl_log := fl_log s @ stored\<rparr>)) (fl_phase s j)" for j using I(2) by simp
  show "o_id ` set (held (Sent rows delivered stored)) \<inter> o_id ` set (held (fl_phase s j)) = {}" if "j \<noteq> i" for j
    by (rule others_apart[OF inv _ that]) (simp add: ph)
  show "count_list (map record_id (fl_log (s\<lparr>fl_log := fl_log s @ stored\<rparr>))) u
      = count_list (fl_wasted (s\<lparr>fl_log := fl_log s @ stored\<rparr>)) u
      + (if marked (fl_outbox (s\<lparr>fl_log := fl_log s @ stored\<rparr>)) u \<or> u \<in> record_id ` set (in_flight (Sent rows delivered stored))
            \<or> (\<exists>j. j \<noteq> i \<and> u \<in> record_id ` set (in_flight (fl_phase s j))) then 1 else 0)" for u
  proof (cases "u \<in> record_id ` set stored")
    case True
    have u: "u \<in> o_id ` set (held (fl_phase s i))" using True ok by (auto simp: ph)
    then have "\<not> marked (fl_outbox s) u" by (rule held_not_marked[OF I(1) I(2)])
    moreover have "u \<notin> record_id ` set (in_flight (fl_phase s j))" if "j \<noteq> i" for j
      using I(3)[OF that] u phase_ok_in_flight[OF I(2)[of j]] by blast
    moreover have "\<not> flying s u" using calculation by (auto simp: flying_split[of s u i] ph)
    moreover have "count_list (map record_id stored) u = 1"
      using True ok by (simp add: count_list_distinct)
    ultimately show ?thesis using I(4)[of u] True by simp
  next
    case False
    then have "count_list (map record_id stored) u = 0" by (simp add: count_list_0_iff)
    with I(4)[of u] False show ?thesis by (simp add: flying_split[of s u i] ph)
  qed
qed simp

lemma fleet_inv_send_fails:
  assumes inv: "fleet_inv s" and ph: "fl_phase s i = Claimed rows"
  shows "fleet_inv (set_phase i Idle (s\<lparr>fl_log := fl_log s @ stored, fl_wasted := fl_wasted s @ map record_id stored\<rparr>))"
proof (rule fleet_inv_phase[OF inv])
  note I = fleet_invD[OF inv]
  let ?s = "s\<lparr>fl_log := fl_log s @ stored, fl_wasted := fl_wasted s @ map record_id stored\<rparr>"
  show "count_list (map record_id (fl_log ?s)) u = count_list (fl_wasted ?s) u
      + (if marked (fl_outbox ?s) u \<or> u \<in> record_id ` set (in_flight Idle)
            \<or> (\<exists>j. j \<noteq> i \<and> u \<in> record_id ` set (in_flight (fl_phase s j))) then 1 else 0)" for u
    using I(4)[of u] by (simp add: flying_split[of s u i] ph)
qed (use fleet_invD[OF inv] in simp_all)

lemma fleet_inv_abort:
  assumes inv: "fleet_inv s"
  shows "fleet_inv (set_phase i Idle (s\<lparr>fl_wasted := fl_wasted s @ map record_id (in_flight (fl_phase s i))\<rparr>))"
proof (rule fleet_inv_phase[OF inv])
  note I = fleet_invD[OF inv]
  let ?s = "s\<lparr>fl_wasted := fl_wasted s @ map record_id (in_flight (fl_phase s i))\<rparr>"
  show "count_list (map record_id (fl_log ?s)) u = count_list (fl_wasted ?s) u
      + (if marked (fl_outbox ?s) u \<or> u \<in> record_id ` set (in_flight Idle)
            \<or> (\<exists>j. j \<noteq> i \<and> u \<in> record_id ` set (in_flight (fl_phase s j))) then 1 else 0)" for u
  proof (cases "u \<in> record_id ` set (in_flight (fl_phase s i))")
    case True
    note alone = flying_alone[OF inv True]
    have "u \<notin> record_id ` set (in_flight (fl_phase s j))" if "j \<noteq> i" for j
      using alone(2)[OF that] phase_ok_in_flight[OF I(2)[of j]] by blast
    moreover have "count_list (map record_id (in_flight (fl_phase s i))) u = 1"
      using True phase_ok_in_flight[OF I(2)[of i]] by (simp add: count_list_distinct)
    ultimately show ?thesis using I(4)[of u] True alone(1) by (auto simp: flying_split[of s u i])
  next
    case False
    then have "count_list (map record_id (in_flight (fl_phase s i))) u = 0" by (simp add: count_list_0_iff)
    with I(4)[of u] False show ?thesis by (simp add: flying_split[of s u i])
  qed
qed (use fleet_invD[OF inv] in simp_all)

lemma fleet_inv_commit:
  assumes inv: "fleet_inv s" and ph: "fl_phase s i = Sent rows delivered stored"
  shows "fleet_inv (set_phase i Idle (s\<lparr>fl_outbox := mark_published now delivered (fl_outbox s),
      fl_wasted := fl_wasted s @ filter (\<lambda>u. u \<notin> set delivered) (map record_id stored)\<rparr>))"
proof (rule fleet_inv_phase[OF inv])
  note I = fleet_invD[OF inv]
  let ?box = "mark_published now delivered (fl_outbox s)"
  let ?s = "s\<lparr>fl_outbox := ?box, fl_wasted := fl_wasted s @ filter (\<lambda>u. u \<notin> set delivered) (map record_id stored)\<rparr>"
  have ok: "phase_ok (fl_outbox s) (Sent rows delivered stored)" using I(2)[of i] by (simp only: ph)
  show "distinct (map o_id (fl_outbox ?s))" using I(1) by simp
  show "phase_ok (fl_outbox ?s) (fl_phase s j)" if "j \<noteq> i" for j
  proof (rule phase_ok_other[OF I(2)])
    have "set delivered \<subseteq> o_id ` set (held (fl_phase s i))" using ok by (auto simp: ph)
    with I(3)[OF that] have "set delivered \<inter> o_id ` set (held (fl_phase s j)) = {}" by blast
    then show "set (held (fl_phase s j)) \<inter> set (unpublished (fl_outbox s)) \<subseteq> set (unpublished (fl_outbox ?s))"
      by (auto simp: unpublished_mark)
  qed
  have marked: "marked ?box u \<longleftrightarrow> marked (fl_outbox s) u \<or> u \<in> set delivered" for u
  proof -
    have "u \<in> o_id ` set (fl_outbox s)" if "u \<in> set delivered"
    proof -
      have "u \<in> o_id ` set rows" "set rows \<subseteq> set (unpublished (fl_outbox s))" using that ok by auto
      then show ?thesis by (auto simp: unpublished_def)
    qed
    then have "\<exists>r\<in>set (fl_outbox s). o_id r = u" if "u \<in> set delivered" using that by auto
    then show ?thesis
      unfolding marked_def mark_published_def set_map bex_simps(7)
      by (cases "u \<in> set delivered") (auto split: if_splits)
  qed
  show "count_list (map record_id (fl_log ?s)) u = count_list (fl_wasted ?s) u
      + (if marked (fl_outbox ?s) u \<or> u \<in> record_id ` set (in_flight Idle)
            \<or> (\<exists>j. j \<noteq> i \<and> u \<in> record_id ` set (in_flight (fl_phase s j))) then 1 else 0)" for u
  proof (cases "u \<in> record_id ` set stored")
    case True
    then have "u \<in> record_id ` set (in_flight (fl_phase s i))" by (simp add: ph)
    note alone = flying_alone[OF inv this]
    have others: "u \<notin> record_id ` set (in_flight (fl_phase s j))" if "j \<noteq> i" for j
      using alone(2)[OF that] phase_ok_in_flight[OF I(2)[of j]] by blast
    have "count_list (filter (\<lambda>u. u \<notin> set delivered) (map record_id stored)) u = (if u \<in> set delivered then 0 else 1)"
      using True ok by (auto simp: count_list_distinct distinct_filter)
    then show ?thesis
      using I(4)[of u] True alone(1) others by (auto simp: flying_split[of s u i] ph marked)
  next
    case False
    then have "count_list (filter (\<lambda>u. u \<notin> set delivered) (map record_id stored)) u = 0" "u \<notin> set delivered"
      using ok by (auto simp: count_list_0_iff)
    with I(4)[of u] False show ?thesis by (simp add: flying_split[of s u i] ph marked)
  qed
qed simp_all

lemma fleet_step_inv: "fleet_step b s s' \<Longrightarrow> fleet_inv s \<Longrightarrow> fleet_inv s'"
  by (induction rule: fleet_step.induct)
    (auto intro: fleet_inv_record fleet_inv_claim fleet_inv_send fleet_inv_send_fails fleet_inv_commit fleet_inv_abort)

lemma fleet_reachable_inv: "fleet_reachable b s \<Longrightarrow> fleet_inv s"
proof (induction rule: fleet_reachable.induct)
  case start
  show ?case by (simp add: fleet_inv_def new_fleet_def marked_def flying_def)
qed (rule fleet_step_inv)

subsection \<open>A pass of \<open>run_once\<close> is one way through the steps\<close>

text \<open>
  \<open>run_once\<close> runs the three steps in one go, with the locks of the other relays; the steps of the
  fleet have the same effect. So what holds of every interleaving holds of every pass.
\<close>

lemma set_phase_idle: "fl_phase s i = Idle \<Longrightarrow> (fl_phase s)(i := Idle) = fl_phase s"
  by auto

lemma pass_in_fleet:
  assumes idle: "fl_phase s i = Idle" and locked: "set (ps_locked p) = locked_ids s" and legal: "legal_pass (b, p)"
  shows "\<exists>s'. (fleet_step b)\<^sup>*\<^sup>* s s' \<and> fl_phase s' = fl_phase s
    \<and> \<lparr>rs_outbox = fl_outbox s', rs_log = fl_log s'\<rparr> = snd (run_once b p \<lparr>rs_outbox = fl_outbox s, rs_log = fl_log s\<rparr>)"
proof (cases "claim_batch (ps_locked p) b (fl_outbox s)")
  case (Inl e)
  then show ?thesis by (intro exI[of _ s]) (simp add: run_once_def)
next
  case (Inr rows)
  show ?thesis
  proof (cases "rows = []")
    case True
    with Inr show ?thesis by (intro exI[of _ s]) (simp add: run_once_def)
  next
    case False
    let ?s1 = "set_phase i (Claimed rows) s"
    have s1: "fleet_step b s ?s1" by (rule fleet_step.claim[OF idle locked Inr])
    have ph1: "fl_phase ?s1 i = Claimed rows" by (simp add: set_phase_def)
    obtain r stored where pub: "publish_batch p rows = (r, stored)" by fastforce
    show ?thesis
    proof (cases r)
      case (Inl e)
      from fleet_step.send_fails[OF ph1 pub[unfolded Inl], of b] s1
      have "(fleet_step b)\<^sup>*\<^sup>* s (set_phase i Idle (?s1\<lparr>fl_log := fl_log ?s1 @ stored,
          fl_wasted := fl_wasted ?s1 @ map record_id stored\<rparr>))" by auto
      then show ?thesis
        using Inr False pub Inl idle
        by (intro exI conjI) (assumption, simp_all add: set_phase_def run_once_def set_phase_idle)
    next
      case (Inr delivered)
      note ok = Inr
      let ?s2 = "set_phase i (Sent rows delivered stored) (?s1\<lparr>fl_log := fl_log ?s1 @ stored\<rparr>)"
      have s2: "fleet_step b ?s1 ?s2" by (rule fleet_step.send[OF ph1 legal pub[unfolded ok]])
      have ph2: "fl_phase ?s2 i = Sent rows delivered stored" by (simp add: set_phase_def)
      have none: "mark_published now [] xs = xs" for now xs by (simp add: mark_published_def)
      show ?thesis
      proof (cases "ps_commit p")
        case None
        from fleet_step.commit[OF ph2, of b "ps_now p"] s1 s2
        have "(fleet_step b)\<^sup>*\<^sup>* s (set_phase i Idle (?s2\<lparr>fl_outbox := mark_published (ps_now p) delivered (fl_outbox ?s2),
          fl_wasted := fl_wasted ?s2 @ filter (\<lambda>u. u \<notin> set delivered) (map record_id stored)\<rparr>))" by auto
        then show ?thesis
          using \<open>claim_batch (ps_locked p) b (fl_outbox s) = Inr rows\<close> False pub ok idle None
          by (intro exI conjI) (assumption, auto simp: set_phase_def run_once_def set_phase_idle none)
      next
        case (Some e)
        from fleet_step.abort[of b ?s2 i] s1 s2
        have "(fleet_step b)\<^sup>*\<^sup>* s (set_phase i Idle (?s2\<lparr>fl_wasted := fl_wasted ?s2 @ map record_id (in_flight (fl_phase ?s2 i))\<rparr>))"
          by auto
        then show ?thesis
          using \<open>claim_batch (ps_locked p) b (fl_outbox s) = Inr rows\<close> False pub ok idle Some
          by (intro exI conjI) (assumption, simp_all add: set_phase_def run_once_def set_phase_idle)
      qed
    qed
  qed
qed

subsection \<open>What holds of several relays\<close>

definition two_rows :: fleet where
  "two_rows = new_fleet\<lparr>fl_outbox := [sample_event ''u1'' 1, sample_event ''u2'' 2]\<rparr>"

definition two_relays :: fleet where
  "two_relays = set_phase 2 (Claimed [sample_event ''u2'' 2]) (set_phase 1 (Claimed [sample_event ''u1'' 1]) two_rows)"

lemma two_rows_reachable: "fleet_reachable b two_rows"
proof -
  have "fleet_step b new_fleet (new_fleet\<lparr>fl_outbox := [sample_event ''u1'' 1]\<rparr>)"
    using fleet_step.record_row[of "sample_event ''u1'' 1" new_fleet b] by (simp add: new_fleet_def sample_event_def)
  moreover have "fleet_step b (new_fleet\<lparr>fl_outbox := [sample_event ''u1'' 1]\<rparr>) two_rows"
    using fleet_step.record_row[of "sample_event ''u2'' 2" "new_fleet\<lparr>fl_outbox := [sample_event ''u1'' 1]\<rparr>" b]
    by (simp add: new_fleet_def two_rows_def sample_event_def)
  ultimately show ?thesis using fleet_reachable.start fleet_reachable.step by blast
qed

lemma two_relays_reachable: "fleet_reachable 1 two_relays"
proof -
  let ?s = "set_phase 1 (Claimed [sample_event ''u1'' 1]) two_rows"
  have "fleet_step 1 two_rows ?s"
    by (rule fleet_step.claim[where locked = "[]"])
      (simp_all add: two_rows_def new_fleet_def locked_ids_def claim_batch_def unpublished_def sample_event_def)
  moreover have "fleet_step 1 ?s two_relays"
    unfolding two_relays_def
    by (rule fleet_step.claim[where locked = "[''u1'']"])
      (auto simp: two_rows_def new_fleet_def locked_ids_def claim_batch_def unpublished_def sample_event_def set_phase_def split: if_splits)
  ultimately show ?thesis using two_rows_reachable fleet_reachable.step by blast
qed

text \<open>
  C22: Relays do not get in each other's way: however the steps of several relays and of the posts
  service interleave, the batches that two relays hold have no row in common, and every row that is
  held is unpublished.
\<close>

theorem relays_hold_apart:
  assumes "fleet_reachable b s"
  shows "(\<forall>i j. i \<noteq> j \<longrightarrow> o_id ` set (held (fl_phase s i)) \<inter> o_id ` set (held (fl_phase s j)) = {})
    \<and> (\<forall>i. set (held (fl_phase s i)) \<subseteq> set (unpublished (fl_outbox s)))"
  using fleet_invD(2,3)[OF fleet_reachable_inv[OF assms]] phase_ok_held by blast

theorem relays_hold_apart_witness:
  "held (fl_phase two_relays 1) = [sample_event ''u1'' 1] \<and> held (fl_phase two_relays 2) = [sample_event ''u2'' 2]
   \<and> o_id ` set (held (fl_phase two_relays 1)) \<inter> o_id ` set (held (fl_phase two_relays 2)) = {}"
proof -
  have "(1::nat) \<noteq> 2" by simp
  then have "o_id ` set (held (fl_phase two_relays 1)) \<inter> o_id ` set (held (fl_phase two_relays 2)) = {}"
    using relays_hold_apart[OF two_relays_reachable] by blast
  then show ?thesis by (simp add: two_relays_def set_phase_def)
qed

text \<open>
  C21: How often an event is published: the records of an event in the log are those that failed attempts
  left behind, and one more if its row is marked or a relay is about to mark it. Without failures
  every event is in the log at most once, however many relays run.
\<close>

theorem one_record_per_success:
  assumes "fleet_reachable b s"
  shows "count_list (map record_id (fl_log s)) u
      = count_list (fl_wasted s) u + (if marked (fl_outbox s) u \<or> flying s u then 1 else 0)
    \<and> (fl_wasted s = [] \<longrightarrow> distinct (map record_id (fl_log s)))"
proof -
  note count = fleet_invD(4)[OF fleet_reachable_inv[OF assms]]
  have "distinct xs" if "\<And>u. count_list xs u \<le> 1" for xs :: "string list"
    using that
  proof (induction xs)
    case (Cons x xs)
    have "x \<notin> set xs" using Cons.prems[of x] by (auto simp: count_list_0_iff)
    moreover have "count_list xs u \<le> 1" for u using Cons.prems[of u] by (simp split: if_splits)
    ultimately show ?case using Cons.IH by simp
  qed simp
  then show ?thesis using count by (auto split: if_splits)
qed

theorem one_record_per_success_witness:
  "count_list (map record_id (fl_log two_relays)) ''u1'' = 0 \<and> distinct (map record_id (fl_log two_relays))"
  using one_record_per_success[OF two_relays_reachable, of "''u1''"]
  by (simp add: two_relays_def two_rows_def new_fleet_def set_phase_def)

text \<open>
  C23: A pass of \<open>run_once\<close> refines the steps: with the locks that the other relays hold, whatever
  it returns or raises, its effect on outbox and log is that of steps of one relay, which is
  idle again afterwards.
\<close>

theorem run_once_refines_steps:
  assumes "fl_phase s i = Idle" "set (ps_locked p) = locked_ids s" "legal_pass (b, p)"
  shows "\<exists>s'. (fleet_step b)\<^sup>*\<^sup>* s s' \<and> fl_phase s' = fl_phase s
    \<and> \<lparr>rs_outbox = fl_outbox s', rs_log = fl_log s'\<rparr> = snd (run_once b p \<lparr>rs_outbox = fl_outbox s, rs_log = fl_log s\<rparr>)"
  by (rule pass_in_fleet) (fact assms)+

theorem run_once_refines_steps_witness:
  "\<exists>s'. (fleet_step 5)\<^sup>*\<^sup>* two_rows s' \<and> fl_phase s' = fl_phase two_rows
    \<and> \<lparr>rs_outbox = fl_outbox s', rs_log = fl_log s'\<rparr>
      = snd (run_once 5 (sample_pass (\<lambda>_. delivers)) \<lparr>rs_outbox = fl_outbox two_rows, rs_log = fl_log two_rows\<rparr>)"
  by (rule run_once_refines_steps[where i = 0])
    (simp_all add: two_rows_def new_fleet_def locked_ids_def sample_pass_def good_legal_pass[OF good_sample_pass, unfolded sample_pass_def])

end
