(* ===== verification/PostsAuth.thy ===== *)
theory PostsAuth
  imports PostsService Settings
begin

section \<open>Authentication of the posts service (services/posts/posts/jwtauth.py, urls.py)\<close>

text \<open>
  \<open>jwk_client\<close>, \<open>TokenUser\<close>, \<open>JWTAuthentication\<close> and the routes of the API. PyJWT is not under
  src: fetching the signing key of a token and decoding it are parameters, with the exceptions
  they raise; the text of a PyJWTError is part of it. Nor is the REST framework, which looks up the
  classes the settings name: what its own classes do is a parameter, too.
\<close>

record jwk_client =
  jc_url :: string
  jc_cache_keys :: bool
  jc_lifespan :: nat

record jwt_lib =
  get_signing_key_from_jwt :: "jwk_client \<Rightarrow> string \<Rightarrow> string res"
  jwt_decode :: "string \<Rightarrow> string \<Rightarrow> string list \<Rightarrow> string \<Rightarrow> string \<Rightarrow> string list \<Rightarrow> json res"
  jwt_str :: "json \<Rightarrow> string"

text \<open>\<open>_jwk_client\<close>, the client of the process, made on first use.\<close>

definition jwk_client_of :: "auth_settings \<Rightarrow> jwk_client option \<Rightarrow> jwk_client \<times> jwk_client option" where
  "jwk_client_of S cache =
     (case cache of
        None \<Rightarrow> (let c = \<lparr>jc_url = AUTH_JWKS_URL S, jc_cache_keys = True, jc_lifespan = 300\<rparr> in (c, Some c))
      | Some c \<Rightarrow> (c, Some c))"

text \<open>Signing key and claims: the body of the \<open>try\<close>, and of \<open>verify\<close> in the related service.\<close>

definition verify :: "jwt_lib \<Rightarrow> auth_settings \<Rightarrow> jwk_client \<Rightarrow> string \<Rightarrow> json res" where
  "verify L S client token =
     try_then (get_signing_key_from_jwt L client token) (\<lambda>key.
       jwt_decode L token key [''RS256''] (AUTH_AUDIENCE S) (AUTH_ISSUER S) [''exp'', ''sub'', ''jti''])"

record token_user =
  tu_id :: json
  tu_email :: json
  tu_token_id :: json

text \<open>\<open>str(user)\<close> is the email; its \<open>is_authenticated\<close> is always true.\<close>

definition token_user_str :: "token_user \<Rightarrow> json" where
  "token_user_str u = tu_email u"

definition is_authenticated :: "token_user option \<Rightarrow> bool" where
  "is_authenticated u = (u \<noteq> None)"

text \<open>The header of a request, None when it has none.\<close>

definition authenticate :: "jwt_lib \<Rightarrow> auth_settings \<Rightarrow> posts_db \<Rightarrow> string option \<Rightarrow> jwk_client option
    \<Rightarrow> (token_user \<times> string) option res \<times> jwk_client option" where
  "authenticate L S db authorization cache =
     (let header = (case authorization of None \<Rightarrow> [] | Some h \<Rightarrow> h) in
      if \<not> starts_with ''bearer '' (py_lower header) then (Inr None, cache)
      else
        (let token = py_strip (drop 7 header) in
         if token = [] then (Inl (AuthenticationFailed ''bearer token is empty''), cache)
         else
           (let (client, cache') = jwk_client_of S cache in
            (case verify L S client token of
               Inl (PyJWTError msg) \<Rightarrow> Inl (AuthenticationFailed (''token is not valid: '' @ msg))
             | Inl _ \<Rightarrow> Inl (AuthenticationFailed ''cannot verify token right now'')
             | Inr claims \<Rightarrow>
                 try_then (get_or claims ''jti'' (JStr [])) (\<lambda>token_id.
                   if is_revoked (jwt_str L) db token_id
                   then Inl (AuthenticationFailed ''token has been revoked'')
                   else try_then (getitem claims ''sub'') (\<lambda>sub.
                        try_then (get_or claims ''email'' (JStr [])) (\<lambda>email.
                          Inr (Some (\<lparr>tu_id = sub, tu_email = email, tu_token_id = token_id\<rparr>, token))))),
             cache'))))"

text \<open>\<open>authenticate_header\<close>: what makes an unauthenticated request a 401 and not a 403.\<close>

definition authenticate_header :: string where
  "authenticate_header = ''Bearer''"

subsection \<open>What the check decides\<close>

text \<open>
  What PyJWT 2.10 documents of \<open>decode\<close>: it returns a dictionary that has every required claim.
\<close>

definition decode_law :: "jwt_lib \<Rightarrow> bool" where
  "decode_law L \<longleftrightarrow> (\<forall>token key algs aud iss req claims. jwt_decode L token key algs aud iss req = Inr claims \<longrightarrow>
     (\<exists>kvs. claims = JObj kvs \<and> (\<forall>k\<in>set req. map_of kvs k \<noteq> None)))"

definition bearer_token :: "string option \<Rightarrow> string option" where
  "bearer_token authorization =
     (case authorization of
        None \<Rightarrow> None
      | Some h \<Rightarrow> if starts_with ''bearer '' (py_lower h) then Some (py_strip (drop 7 h)) else None)"

lemma starts_with_Nil [simp]: "\<not> starts_with (c # cs) []"
  by (simp add: starts_with_def)

lemma verify_claims:
  assumes "decode_law L" "verify L S client token = Inr claims"
  shows "\<exists>kvs jti sub. claims = JObj kvs \<and> map_of kvs ''jti'' = Some jti \<and> map_of kvs ''sub'' = Some sub"
  using assms unfolding decode_law_def verify_def by (fastforce simp: try_then_eq_Inr_iff)

text \<open>The outcomes of \<open>authenticate\<close>, one rule per way out.\<close>

lemma authenticate_cases:
  assumes law: "decode_law L"
  obtains
    (anonymous) "bearer_token h = None" "authenticate L S db h cache = (Inr None, cache)"
  | (empty) "bearer_token h = Some []"
      "authenticate L S db h cache = (Inl (AuthenticationFailed ''bearer token is empty''), cache)"
  | (unverified) token e msg where "bearer_token h = Some token" "token \<noteq> []"
      "verify L S (fst (jwk_client_of S cache)) token = Inl e"
      "msg = (case e of PyJWTError m \<Rightarrow> ''token is not valid: '' @ m | _ \<Rightarrow> ''cannot verify token right now'')"
      "authenticate L S db h cache = (Inl (AuthenticationFailed msg), snd (jwk_client_of S cache))"
  | (revoked) token kvs jti where "bearer_token h = Some token" "token \<noteq> []"
      "verify L S (fst (jwk_client_of S cache)) token = Inr (JObj kvs)" "map_of kvs ''jti'' = Some jti"
      "is_revoked (jwt_str L) db jti"
      "authenticate L S db h cache = (Inl (AuthenticationFailed ''token has been revoked''), snd (jwk_client_of S cache))"
  | (accepted) token kvs jti sub user where "bearer_token h = Some token" "token \<noteq> []"
      "verify L S (fst (jwk_client_of S cache)) token = Inr (JObj kvs)" "map_of kvs ''jti'' = Some jti"
      "map_of kvs ''sub'' = Some sub" "\<not> is_revoked (jwt_str L) db jti" "tu_id user = sub" "tu_token_id user = jti"
      "authenticate L S db h cache = (Inr (Some (user, token)), snd (jwk_client_of S cache))"
proof (cases "bearer_token h")
  case None
  then show ?thesis
    by (intro anonymous) (auto simp: authenticate_def bearer_token_def Let_def split: option.splits if_splits)
next
  case (Some token)
  then obtain hd where h: "h = Some hd" "starts_with ''bearer '' (py_lower hd)" "token = py_strip (drop 7 hd)"
    by (auto simp: bearer_token_def split: option.splits if_splits)
  note bearer = Some
  show ?thesis
  proof (cases "token = []")
    case True
    with h bearer show ?thesis by (intro empty) (auto simp: authenticate_def Let_def)
  next
    case ne: False
    note auth = authenticate_def[of L S db h cache] h(1)
    show ?thesis
    proof (cases "verify L S (fst (jwk_client_of S cache)) token")
      case (Inl e)
      then show ?thesis
        using ne h(2) unfolding h(3)
        by (intro unverified[OF bearer ne Inl refl])
          (simp add: authenticate_def h(1) Let_def case_prod_beta split: exc.splits)
    next
      case (Inr claims)
      obtain kvs jti sub where c: "claims = JObj kvs" "map_of kvs ''jti'' = Some jti" "map_of kvs ''sub'' = Some sub"
        using verify_claims[OF law Inr] by blast
      note v = Inr[unfolded c(1)]
      show ?thesis
      proof (cases "is_revoked (jwt_str L) db jti")
        case True
        with ne h(2) v c show ?thesis
          unfolding h(3)
          by (intro revoked[OF bearer ne v c(2) True])
            (simp add: authenticate_def h(1) Let_def case_prod_beta)
      next
        case False
        with ne h(2) v c show ?thesis
          unfolding h(3)
          by (intro accepted[OF bearer ne v c(2,3) False, where user = "\<lparr>tu_id = sub,
              tu_email = (case map_of kvs ''email'' of None \<Rightarrow> JStr [] | Some e \<Rightarrow> e), tu_token_id = jti\<rparr>"])
            (simp_all add: authenticate_def h(1) h(3) Let_def case_prod_beta)
      qed
    qed
  qed
qed

text \<open>One client per process: once made, it stays.\<close>

lemma authenticate_cache:
  "snd (authenticate L S db h (Some c)) = Some c"
  by (simp add: authenticate_def jwk_client_of_def Let_def)

subsection \<open>Routes\<close>

text \<open>\<open>urlpatterns\<close> of the application, which config/urls.py mounts under api/.\<close>

definition urlpatterns :: "(string \<times> (string \<times> string) list) list" where
  "urlpatterns =
     [(''posts'', [(''get'', ''list''), (''post'', ''create'')]),
      (''posts/<slug:slug>'', [(''get'', ''retrieve''), (''put'', ''update''), (''delete'', ''destroy'')])]"

text \<open>
  The action of a method: the REST framework routes HEAD as GET. OPTIONS is no action (the framework
  answers it with a description of the view) and is left out.
\<close>

definition action_for :: "string \<Rightarrow> string \<Rightarrow> string option" where
  "action_for pattern request_method =
     (let m = py_lower request_method in
      Option.bind (map_of urlpatterns pattern) (\<lambda>actions. map_of actions (if m = ''head'' then ''get'' else m)))"

text \<open>A request: method, pattern and slug it was routed by, header, parsed data.\<close>

record http_request =
  h_method :: string
  h_pattern :: string
  h_slug :: string
  h_authorization :: "string option"
  h_data :: json

definition PostViewSet :: "posts_lib \<Rightarrow> request \<Rightarrow> http_request \<Rightarrow> string \<Rightarrow> json response action" where
  "PostViewSet P req h name =
     (if name = ''list'' then list_posts P
      else if name = ''create'' then create_post P req (h_data h)
      else if name = ''retrieve'' then retrieve_post P (h_slug h)
      else if name = ''update'' then update_post P req (h_slug h) (h_data h)
      else if name = ''destroy'' then destroy_post req (h_slug h)
      else raises OtherError)"

text \<open>
  The classes the REST framework finds under the paths of the settings: whether a permission class
  admits a method to a caller who is authenticated or not, and what an authentication class other
  than the project's own makes of the header.
\<close>

record drf_lib =
  has_permission :: "string \<Rightarrow> string \<Rightarrow> bool \<Rightarrow> bool"
  other_authenticate :: "string \<Rightarrow> string option \<Rightarrow> (token_user \<times> string) option res"

text \<open>The authentication classes are tried in order; the first that knows the caller decides.\<close>

fun perform_authentication :: "(string \<Rightarrow> (token_user \<times> string) option res) \<Rightarrow> string list \<Rightarrow> (token_user \<times> string) option res" where
  "perform_authentication by [] = Inr None"
| "perform_authentication by (cls # classes) =
     (case by cls of
        Inl e \<Rightarrow> Inl e
      | Inr None \<Rightarrow> perform_authentication by classes
      | Inr (Some caller) \<Rightarrow> Inr (Some caller))"

definition authenticator :: "drf_lib \<Rightarrow> jwt_lib \<Rightarrow> auth_settings \<Rightarrow> posts_db \<Rightarrow> string option \<Rightarrow> jwk_client option
    \<Rightarrow> string \<Rightarrow> (token_user \<times> string) option res" where
  "authenticator D L S db authorization cache cls =
     (if cls = ''posts.jwtauth.JWTAuthentication'' then fst (authenticate L S db authorization cache)
      else other_authenticate D cls authorization)"

text \<open>
  A view of the framework authenticates the request by the classes of the settings, asks each
  permission class of the settings (\<open>PostViewSet\<close> names none of its own) and runs the action of the
  route.
\<close>

definition api :: "drf_lib \<Rightarrow> posts_lib \<Rightarrow> jwt_lib \<Rightarrow> auth_settings \<Rightarrow> request \<Rightarrow> http_request
    \<Rightarrow> jwk_client option \<Rightarrow> json response action" where
  "api D P L S req h cache db =
     (case perform_authentication (authenticator D L S db (h_authorization h) cache) DEFAULT_AUTHENTICATION_CLASSES of
        Inl e \<Rightarrow> (Inl e, db)
      | Inr caller \<Rightarrow>
          if \<not> list_all (\<lambda>cls. has_permission D cls (h_method h) (is_authenticated (map_option fst caller)))
                DEFAULT_PERMISSION_CLASSES
          then (Inl NotAuthenticated, db)
          else
            (case action_for (h_pattern h) (h_method h) of
               None \<Rightarrow> (Inl MethodNotAllowed, db)
             | Some name \<Rightarrow> PostViewSet P req h name db))"

text \<open>
  What the framework documents of its class \<open>IsAuthenticatedOrReadOnly\<close>, and of no other: it admits
  an authenticated caller, and anyone to a safe method.
\<close>

definition read_only_law :: "drf_lib \<Rightarrow> bool" where
  "read_only_law D \<longleftrightarrow> (\<forall>m a. has_permission D ''rest_framework.permissions.IsAuthenticatedOrReadOnly'' m a \<longleftrightarrow>
     a \<or> m \<in> {''GET'', ''HEAD'', ''OPTIONS''})"

text \<open>With the classes the settings name, the framework calls \<open>authenticate\<close>, and the law decides.\<close>

lemma api_unfolded:
  assumes "read_only_law D"
  shows "api D P L S req h cache db =
     (case fst (authenticate L S db (h_authorization h) cache) of
        Inl e \<Rightarrow> (Inl e, db)
      | Inr caller \<Rightarrow>
          if caller = None \<and> h_method h \<notin> {''GET'', ''HEAD'', ''OPTIONS''} then (Inl NotAuthenticated, db)
          else
            (case action_for (h_pattern h) (h_method h) of
               None \<Rightarrow> (Inl MethodNotAllowed, db)
             | Some name \<Rightarrow> PostViewSet P req h name db))"
proof -
  have caller: "perform_authentication (authenticator D L S db (h_authorization h) cache) DEFAULT_AUTHENTICATION_CLASSES
      = fst (authenticate L S db (h_authorization h) cache)"
    by (simp add: DEFAULT_AUTHENTICATION_CLASSES_def authenticator_def split: sum.split option.split)
  have admitted: "list_all (\<lambda>cls. has_permission D cls (h_method h) (is_authenticated (map_option fst who))) DEFAULT_PERMISSION_CLASSES
      \<longleftrightarrow> who \<noteq> None \<or> h_method h \<in> {''GET'', ''HEAD'', ''OPTIONS''}" for who :: "(token_user \<times> string) option"
    using assms unfolding DEFAULT_PERMISSION_CLASSES_def read_only_law_def list.pred_inject is_authenticated_def by simp
  show ?thesis unfolding api_def caller admitted by (simp only: de_Morgan_disj not_not)
qed

lemma action_for_safe:
  assumes "m \<in> {''GET'', ''HEAD'', ''OPTIONS''}" "action_for pattern m = Some name"
  shows "name = ''list'' \<or> name = ''retrieve''"
proof -
  have lower: "py_lower ''GET'' = ''get''" "py_lower ''HEAD'' = ''head''" "py_lower ''OPTIONS'' = ''options''"
    by code_simp+
  have "action_for pattern ''GET'' \<in> {None, Some ''list'', Some ''retrieve''}"
    "action_for pattern ''HEAD'' = action_for pattern ''GET''" "action_for pattern ''OPTIONS'' = None"
    by (simp_all add: action_for_def urlpatterns_def lower Let_def del: py_lower_simps)
  then show ?thesis using assms by (elim insertE) auto
qed

lemma reads_change_nothing:
  "name = ''list'' \<or> name = ''retrieve'' \<Longrightarrow> snd (PostViewSet P req h name db) = db"
  by (auto simp: PostViewSet_def list_posts_def retrieve_post_def then_do_def returns_def
      get_object_or_404_def split: option.splits)

lemma action_for_writes:
  assumes "action_for pattern m = Some name" "snd (PostViewSet P req h name db) \<noteq> db"
  shows "(py_lower m, pattern, name) \<in> {(''post'', ''posts'', ''create''),
    (''put'', ''posts/<slug:slug>'', ''update''), (''delete'', ''posts/<slug:slug>'', ''destroy'')}"
proof -
  have "name \<noteq> ''list''" "name \<noteq> ''retrieve''" using assms(2) reads_change_nothing by blast+
  with assms(1) show ?thesis
    by (auto simp: action_for_def urlpatterns_def Let_def bind_eq_Some_conv split: if_splits)
qed

subsection \<open>What holds of the authentication\<close>

text \<open>A token library to evaluate on: every token is signed, and its text is its identity.\<close>

definition plain_jwt_lib :: jwt_lib where
  "plain_jwt_lib = \<lparr>get_signing_key_from_jwt = (\<lambda>_ token. if token = ''bad'' then Inl (PyJWTError ''bad token'') else Inr ''key''),
     jwt_decode = (\<lambda>token key algs aud iss req. Inr (JObj ((''jti'', JStr token) # (''sub'', JStr ''me'') # (''exp'', JInt 9)
       # map (\<lambda>k. (k, JNull)) req))),
     jwt_str = (\<lambda>_. [])\<rparr>"

lemma plain_decode_law [simp]: "decode_law plain_jwt_lib"
  by (auto simp: decode_law_def plain_jwt_lib_def map_of_eq_None_iff image_image)

definition plain_auth :: auth_settings where
  "plain_auth = auth_settings_of Map.empty"

lemma plain_bearer: "bearer_token (Some ''Bearer t1'') = Some ''t1''"
proof -
  have "starts_with ''bearer '' (py_lower ''Bearer t1'')" "py_strip ''t1'' = ''t1''" by code_simp+
  then show ?thesis by (simp add: bearer_token_def del: py_lower_simps)
qed

lemma plain_verify: "\<exists>kvs. verify plain_jwt_lib S c ''t1'' = Inr (JObj kvs) \<and> map_of kvs ''jti'' = Some (JStr ''t1'') \<and> map_of kvs ''sub'' = Some (JStr ''me'')"
  by (simp add: verify_def plain_jwt_lib_def)

text \<open>
  C31: Nobody is let in without a valid token. If \<open>authenticate\<close> returns a caller, the header carried a
  bearer token that was verified with RS256 against the issuer and audience of the settings, its id is
  not on the denylist, and the caller is the subject of the token.
\<close>

theorem authenticate_accepts_only_verified:
  assumes "decode_law L" "fst (authenticate L S db h cache) = Inr (Some (user, token))"
  shows "bearer_token h = Some token \<and> token \<noteq> [] \<and>
    (\<exists>kvs jti. verify L S (fst (jwk_client_of S cache)) token = Inr (JObj kvs) \<and> map_of kvs ''jti'' = Some jti
       \<and> \<not> is_revoked (jwt_str L) db jti \<and> map_of kvs ''sub'' = Some (tu_id user) \<and> tu_token_id user = jti)"
  using assms by (cases rule: authenticate_cases[OF assms(1), of h S db cache]) auto

lemma plain_accepted:
  "\<exists>user. fst (authenticate plain_jwt_lib plain_auth empty_posts_db (Some ''Bearer t1'') None) = Inr (Some (user, ''t1''))"
proof -
  obtain kvs where v: "verify plain_jwt_lib plain_auth (fst (jwk_client_of plain_auth None)) ''t1'' = Inr (JObj kvs)"
    "map_of kvs ''jti'' = Some (JStr ''t1'')" "map_of kvs ''sub'' = Some (JStr ''me'')"
    using plain_verify by blast
  have "\<not> is_revoked (jwt_str plain_jwt_lib) empty_posts_db (JStr ''t1'')"
    by (simp add: is_revoked_def empty_posts_db_def)
  then show ?thesis
    using v plain_bearer
    by (cases rule: authenticate_cases[OF plain_decode_law, of "Some ''Bearer t1''" plain_auth empty_posts_db None]) auto
qed

theorem authenticate_accepts_only_verified_witness:
  "\<exists>user. fst (authenticate plain_jwt_lib plain_auth empty_posts_db (Some ''Bearer t1'') None) = Inr (Some (user, ''t1''))
    \<and> (\<exists>kvs jti. verify plain_jwt_lib plain_auth (fst (jwk_client_of plain_auth None)) ''t1'' = Inr (JObj kvs)
         \<and> map_of kvs ''jti'' = Some jti \<and> \<not> is_revoked (jwt_str plain_jwt_lib) empty_posts_db jti)"
proof -
  obtain user where u: "fst (authenticate plain_jwt_lib plain_auth empty_posts_db (Some ''Bearer t1'') None) = Inr (Some (user, ''t1''))"
    using plain_accepted by blast
  from authenticate_accepts_only_verified[OF plain_decode_law u] u show ?thesis by blast
qed

text \<open>A framework to evaluate on: its class admits as documented, and there are no others.\<close>

definition plain_drf :: drf_lib where
  "plain_drf = \<lparr>has_permission = (\<lambda>cls m a. cls = ''rest_framework.permissions.IsAuthenticatedOrReadOnly''
       \<and> (a \<or> m \<in> {''GET'', ''HEAD'', ''OPTIONS''})),
     other_authenticate = (\<lambda>_ _. Inl OtherError)\<rparr>"

lemma plain_drf_law [simp]: "read_only_law plain_drf"
  by (simp add: read_only_law_def plain_drf_def)

text \<open>
  C32: Writes need a token. A request to the API that changes the database is a POST of the list or a PUT
  or DELETE of a post; its header carries a bearer token that was verified with RS256 against the
  issuer and audience of the settings, whose id is not on the denylist and which has a subject. So
  the classes the settings name protect every route that writes.
\<close>

theorem writes_need_a_token:
  assumes "read_only_law D" "decode_law L" "snd (api D P L S req h cache db) \<noteq> db"
  shows "(py_lower (h_method h), h_pattern h) \<in> {(''post'', ''posts''), (''put'', ''posts/<slug:slug>''), (''delete'', ''posts/<slug:slug>'')}
    \<and> (\<exists>token kvs jti sub. bearer_token (h_authorization h) = Some token \<and> token \<noteq> []
         \<and> verify L S (fst (jwk_client_of S cache)) token = Inr (JObj kvs)
         \<and> map_of kvs ''jti'' = Some jti \<and> map_of kvs ''sub'' = Some sub \<and> \<not> is_revoked (jwt_str L) db jti)"
proof -
  from assms(3) obtain caller name where caller: "fst (authenticate L S db (h_authorization h) cache) = Inr caller"
    and permitted: "caller \<noteq> None \<or> h_method h \<in> {''GET'', ''HEAD'', ''OPTIONS''}"
    and name: "action_for (h_pattern h) (h_method h) = Some name" "snd (PostViewSet P req h name db) \<noteq> db"
    unfolding api_unfolded[OF assms(1)] by (auto split: sum.splits if_splits option.splits)
  have "h_method h \<notin> {''GET'', ''HEAD'', ''OPTIONS''}"
    using action_for_safe[OF _ name(1)] name(2) reads_change_nothing by blast
  with permitted have "caller \<noteq> None" by blast
  then have "fst (authenticate L S db (h_authorization h) cache) \<noteq> Inr None" using caller by simp
  moreover note action_for_writes[OF name]
  ultimately show ?thesis
    using caller by (cases rule: authenticate_cases[OF assms(2), of "h_authorization h" S db cache]) auto
qed

text \<open>A serializer that accepts one post, and a request to create it.\<close>

definition one_post_lib :: posts_lib where
  "one_post_lib = \<lparr>validate = (\<lambda>db inst data. Some \<lparr>v_title = ''t'', v_image = None, v_body = ''b'', v_slug = ''s''\<rparr>),
     iso = (\<lambda>_. [])\<rparr>"

definition post_request :: http_request where
  "post_request = \<lparr>h_method = ''POST'', h_pattern = ''posts'', h_slug = [], h_authorization = Some ''Bearer t1'', h_data = JNull\<rparr>"

lemma post_request_writes:
  "snd (api plain_drf one_post_lib plain_jwt_lib plain_auth \<lparr>req_now = Timestamp 1, req_uuid = ''u''\<rparr> post_request None empty_posts_db)
    \<noteq> empty_posts_db"
proof -
  obtain user where "fst (authenticate plain_jwt_lib plain_auth empty_posts_db (Some ''Bearer t1'') None) = Inr (Some (user, ''t1''))"
    using plain_accepted by blast
  moreover have "action_for ''posts'' ''POST'' = Some ''create''" by code_simp
  moreover have "snd (create_post one_post_lib \<lparr>req_now = Timestamp 1, req_uuid = ''u''\<rparr> JNull empty_posts_db) \<noteq> empty_posts_db"
    by (simp add: create_post_def then_do_def is_valid_def atomic_def insert_post_def statement_def one_post_lib_def
        returns_def record_event_def empty_posts_db_def posts_db_ok_def post_row_ok_def outbox_row_ok_def TOPIC_CREATED_def Let_def)
  ultimately show ?thesis
    by (simp add: api_unfolded[OF plain_drf_law] post_request_def PostViewSet_def)
qed

theorem writes_need_a_token_witness:
  "snd (api plain_drf one_post_lib plain_jwt_lib plain_auth \<lparr>req_now = Timestamp 1, req_uuid = ''u''\<rparr> post_request None empty_posts_db)
     \<noteq> empty_posts_db
   \<and> (\<exists>token kvs jti. bearer_token (Some ''Bearer t1'') = Some token
        \<and> verify plain_jwt_lib plain_auth (fst (jwk_client_of plain_auth None)) token = Inr (JObj kvs)
        \<and> map_of kvs ''jti'' = Some jti \<and> \<not> is_revoked (jwt_str plain_jwt_lib) empty_posts_db jti)"
  using writes_need_a_token[OF plain_drf_law plain_decode_law post_request_writes] post_request_writes
  by (auto simp: post_request_def)

end
