(* ===== verification/Denylist.thy ===== *)
theory Denylist
  imports Prelude
begin

section \<open>The contract of a denylist\<close>

text \<open>
  Both services keep a table of revoked tokens that a consumer writes and the token check reads.
  The contract: an operation at a clock reading may revoke tokens (\<open>adds\<close>); a revoked token is
  denied until it expires, and nothing else ever is. \<open>honest\<close> operations name a token with the
  expiry it was issued with, \<open>exp\<close>.
\<close>

locale denylist =
  fixes inv :: "'s \<Rightarrow> bool"
    and denied :: "'s \<Rightarrow> 'k \<Rightarrow> bool"
    and exp :: "'k \<Rightarrow> timestamp"
    and adds :: "'op \<Rightarrow> 'k set"
    and honest :: "'op \<Rightarrow> bool"
    and step :: "timestamp \<Rightarrow> 'op \<Rightarrow> 's \<Rightarrow> 's"
  assumes inv_step: "inv s \<Longrightarrow> honest x \<Longrightarrow> inv (step now x s)"
    and denies: "inv s \<Longrightarrow> honest x \<Longrightarrow> k \<in> adds x \<Longrightarrow> now < exp k \<Longrightarrow> denied (step now x s) k"
    and keeps: "inv s \<Longrightarrow> honest x \<Longrightarrow> denied s k \<Longrightarrow> now < exp k \<Longrightarrow> denied (step now x s) k"
    and only: "inv s \<Longrightarrow> honest x \<Longrightarrow> denied (step now x s) k \<Longrightarrow> denied s k \<or> k \<in> adds x"
begin

lemma inv_steps: "inv s \<Longrightarrow> \<forall>(now, x)\<in>set xs. honest x \<Longrightarrow> inv (fold (\<lambda>(now, x). step now x) xs s)"
  by (induction xs arbitrary: s) (auto intro: inv_step)

text \<open>As long as a token has not expired, it is denied exactly if it was, or has been revoked since.\<close>

lemma denied_iff_revoked:
  assumes "inv s" "\<forall>(now, x)\<in>set xs. honest x \<and> now < exp k"
  shows "denied (fold (\<lambda>(now, x). step now x) xs s) k \<longleftrightarrow> denied s k \<or> (\<exists>(now, x)\<in>set xs. k \<in> adds x)"
  using assms
proof (induction xs arbitrary: s)
  case (Cons a xs)
  obtain now x where a: "a = (now, x)" by fastforce
  with Cons.prems have x: "honest x" "now < exp k" by auto
  have "denied (step now x s) k \<longleftrightarrow> denied s k \<or> k \<in> adds x"
    using Cons.prems(1) x denies keeps only by blast
  moreover have "inv (step now x s)" using Cons.prems(1) x by (simp add: inv_step)
  ultimately show ?case using Cons by (auto simp: a)
qed simp

text \<open>Whatever the clock reads: a token nobody revoked is not denied.\<close>

lemma not_denied:
  assumes "inv s" "\<forall>(now, x)\<in>set xs. honest x" "\<not> denied s k" "\<forall>(now, x)\<in>set xs. k \<notin> adds x"
  shows "\<not> denied (fold (\<lambda>(now, x). step now x) xs s) k"
  using assms
proof (induction xs arbitrary: s)
  case (Cons a xs)
  obtain now x where a: "a = (now, x)" by fastforce
  with Cons.prems have x: "honest x" "k \<notin> adds x" by auto
  then have "\<not> denied (step now x s) k" using only Cons.prems(1,3) by blast
  moreover have "inv (step now x s)" using Cons.prems(1) x(1) by (rule inv_step)
  ultimately show ?case using Cons by (simp add: a)
qed simp

end

end
