(* ===== verification/RelatedAuth.thy ===== *)
theory RelatedAuth
  imports Relations PostsAuth Denylist
begin

section \<open>Authentication of the related service (services/related/jwtauth.py)\<close>

text \<open>
  \<open>jwk_client\<close>, \<open>verify\<close> and the decorator \<open>requires_auth\<close>, over the denylist that
  \<open>apply_token_revoked\<close> fills; PyJWT is the same parameter as in the posts service.
\<close>

definition related_auth_settings :: "environment \<Rightarrow> auth_settings" where
  "related_auth_settings env =
     \<lparr>AUTH_JWKS_URL = getenv env ''AUTH_JWKS_URL'' ''http://auth:8080/.well-known/jwks.json'',
      AUTH_ISSUER = getenv env ''AUTH_ISSUER'' ''http://auth:8080'',
      AUTH_AUDIENCE = getenv env ''AUTH_AUDIENCE'' ''django-flask-kafka''\<rparr>"

definition related_jwk_client :: "auth_settings \<Rightarrow> jwk_client option \<Rightarrow> jwk_client \<times> jwk_client option" where
  "related_jwk_client S cache =
     (case cache of
        None \<Rightarrow> (let c = \<lparr>jc_url = AUTH_JWKS_URL S, jc_cache_keys = True, jc_lifespan = 300\<rparr> in (c, Some c))
      | Some c \<Rightarrow> (c, Some c))"

definition related_verify :: "jwt_lib \<Rightarrow> auth_settings \<Rightarrow> jwk_client option \<Rightarrow> string \<Rightarrow> json res \<times> jwk_client option" where
  "related_verify L S cache token =
     (let (client, cache') = related_jwk_client S cache in
      (try_then (get_signing_key_from_jwt L client token) (\<lambda>key.
         jwt_decode L token key [''RS256''] (AUTH_AUDIENCE S) (AUTH_ISSUER S) [''exp'', ''sub'', ''jti'']),
       cache'))"

text \<open>\<open>db.session.get(RevokedToken, key)\<close>; a null key identifies no row.\<close>

definition get_revoked :: "related_lib \<Rightarrow> related_db \<Rightarrow> json \<Rightarrow> related_revoked option res" where
  "get_revoked L db key =
     try_then (bind_text L key) (\<lambda>t. Inr (Option.bind t (\<lambda>t. row_at rt_token_id t (rdb_revoked db))))"

text \<open>What the decorator leaves in \<open>flask.g\<close> for the view; a reply is an error or the view's.\<close>

record caller =
  g_user_id :: json
  g_email :: json

type_synonym 'b reply = "((string \<times> string) + 'b) response"

definition requires_auth :: "jwt_lib \<Rightarrow> related_lib \<Rightarrow> auth_settings \<Rightarrow> related_db \<Rightarrow> (caller \<Rightarrow> 'b reply res)
    \<Rightarrow> string option \<Rightarrow> jwk_client option \<Rightarrow> 'b reply res \<times> jwk_client option" where
  "requires_auth J L S db view authorization cache =
     (let header = (case authorization of None \<Rightarrow> [] | Some h \<Rightarrow> h) in
      if \<not> starts_with ''bearer '' (py_lower header)
      then (Inr (Response 401 (Inl (''error'', ''bearer token required''))), cache)
      else
        (let (r, cache') = related_verify J S cache (py_strip (drop 7 header)) in
         (case r of
            Inl (PyJWTError msg) \<Rightarrow> Inr (Response 401 (Inl (''error'', ''token is not valid: '' @ msg)))
          | Inl _ \<Rightarrow> Inr (Response 503 (Inl (''error'', ''cannot verify token right now'')))
          | Inr claims \<Rightarrow>
              try_then (get_or claims ''jti'' (JStr [])) (\<lambda>jti.
              try_then (get_revoked L db jti) (\<lambda>row.
                if row \<noteq> None then Inr (Response 401 (Inl (''error'', ''token has been revoked'')))
                else try_then (getitem claims ''sub'') (\<lambda>sub.
                     try_then (get_or claims ''email'' (JStr [])) (\<lambda>email.
                       view \<lparr>g_user_id = sub, g_email = email\<rparr>)))),
          cache')))"

subsection \<open>What the decorator decides\<close>

lemma same_auth_settings: "related_auth_settings env = auth_settings_of env"
  by (simp add: related_auth_settings_def auth_settings_of_def)

lemma related_verify_eq:
  "related_verify L S cache token = (verify L S (fst (jwk_client_of S cache)) token, snd (jwk_client_of S cache))"
  by (simp add: related_verify_def verify_def related_jwk_client_def jwk_client_of_def Let_def split: option.splits)

lemma get_revoked_JStr [simp]: "get_revoked L db (JStr k) = Inr (row_at rt_token_id k (rdb_revoked db))"
  by (simp add: get_revoked_def)

text \<open>The view runs only for a verified token that has not been revoked.\<close>

lemma requires_auth_outcome:
  assumes law: "decode_law J" and h: "bearer_token h = Some token"
    and v: "verify J S (fst (jwk_client_of S cache)) token = r"
  shows "fst (requires_auth J L S db view h cache) =
    (case r of
       Inl (PyJWTError msg) \<Rightarrow> Inr (Response 401 (Inl (''error'', ''token is not valid: '' @ msg)))
     | Inl _ \<Rightarrow> Inr (Response 503 (Inl (''error'', ''cannot verify token right now'')))
     | Inr claims \<Rightarrow>
         try_then (try_then (getitem claims ''jti'') (get_revoked L db)) (\<lambda>row.
           if row \<noteq> None then Inr (Response 401 (Inl (''error'', ''token has been revoked'')))
           else try_then (getitem claims ''sub'') (\<lambda>sub.
                try_then (get_or claims ''email'' (JStr [])) (\<lambda>email. view \<lparr>g_user_id = sub, g_email = email\<rparr>))))"
proof -
  obtain hd where hd: "h = Some hd" "starts_with ''bearer '' (py_lower hd)" "token = py_strip (drop 7 hd)"
    using h by (auto simp: bearer_token_def split: option.splits if_splits)
  show ?thesis
  proof (cases r)
    case (Inl e)
    with hd v show ?thesis
      by (simp add: requires_auth_def related_verify_eq Let_def split: exc.splits)
  next
    case (Inr claims)
    obtain kvs jti where "claims = JObj kvs" "map_of kvs ''jti'' = Some jti"
      using verify_claims[OF law] v Inr by blast
    with hd v Inr show ?thesis
      by (simp add: requires_auth_def related_verify_eq Let_def)
  qed
qed

subsection \<open>The handler of token_revoked keeps the contract of a denylist\<close>

text \<open>The token, user and expiry that the handler reads from a payload.\<close>

definition event_revocation :: "related_lib \<Rightarrow> json \<Rightarrow> (string \<times> string \<times> timestamp) option" where
  "event_revocation L payload =
     (case (try_then (try_then (getitem payload ''expires_at'') as_str)
              (\<lambda>s. fromisoformat (iso_other L) (replace_char (CHR ''Z'') ''+00:00'' s)),
            try_then (getitem payload ''token_id'') (bind_text L),
            try_then (getitem payload ''user_id'') (bind_text L)) of
        (Inr d, Inr (Some k), Inr (Some u)) \<Rightarrow>
          if length k \<le> 64 \<and> length u \<le> 64 then Some (k, u, wall d) else None
      | _ \<Rightarrow> None)"

definition token_revoked :: "related_lib \<Rightarrow> timestamp \<Rightarrow> json \<Rightarrow> related_db \<Rightarrow> related_db" where
  "token_revoked L now payload db =
     (case apply_token_revoked L now payload db of Inl _ \<Rightarrow> db | Inr db' \<Rightarrow> db')"

definition unexpired :: "timestamp \<Rightarrow> related_revoked list \<Rightarrow> related_revoked list" where
  "unexpired now rows = filter (\<lambda>r. \<not> rt_expires_at r \<le> now) rows"

lemma related_db_ok_revoked:
  "related_db_ok db \<Longrightarrow> related_db_ok (db\<lparr>rdb_revoked := rows\<rparr>) \<longleftrightarrow>
     list_all revoked_ok rows \<and> distinct (map rt_token_id rows)"
  by (auto simp: related_db_ok_def)

lemma related_db_ok_unexpired:
  "related_db_ok db \<Longrightarrow> related_db_ok (db\<lparr>rdb_revoked := unexpired now (rdb_revoked db)\<rparr>)"
  by (auto simp: related_db_ok_def unexpired_def list_all_iff distinct_map_filter_key)

text \<open>A revocation that can be read is stored, unless its token is there already; then expired rows go.\<close>

lemma apply_token_revoked_reads:
  assumes ok: "related_db_ok db" and r: "event_revocation L payload = Some (k, u, t)"
  shows "apply_token_revoked L now payload db = Inr (db\<lparr>rdb_revoked := unexpired now
    (if row_at rt_token_id k (rdb_revoked db) \<noteq> None then rdb_revoked db
     else rdb_revoked db @ [\<lparr>rt_token_id = k, rt_user_id = u, rt_expires_at = t, rt_revoked_at = now\<rparr>])\<rparr>)"
proof -
  obtain e s d tok usr where p: "getitem payload ''expires_at'' = Inr e" "as_str e = Inr s"
    "fromisoformat (iso_other L) (replace_char (CHR ''Z'') ''+00:00'' s) = Inr d"
    "getitem payload ''token_id'' = Inr tok" "bind_text L tok = Inr (Some k)"
    "getitem payload ''user_id'' = Inr usr" "bind_text L usr = Inr (Some u)"
    and len: "length k \<le> 64" "length u \<le> 64" and t: "t = wall d"
    using r by (auto simp: event_revocation_def try_then_eq_Inr_iff split: sum.splits option.splits if_splits)
  let ?new = "\<lparr>rt_token_id = k, rt_user_id = u, rt_expires_at = wall d, rt_revoked_at = now\<rparr>"
  show ?thesis
  proof (cases "row_at rt_token_id k (rdb_revoked db)")
    case None
    then have "related_db_ok (db\<lparr>rdb_revoked := rdb_revoked db @ [?new]\<rparr>)"
      using ok len by (auto simp: related_db_ok_def revoked_ok_def row_at_None_iff)
    with None show ?thesis
      by (simp add: apply_token_revoked_def p t flush_def unexpired_def)
  next
    case (Some r)
    with ok show ?thesis
      by (simp add: apply_token_revoked_def p flush_def unexpired_def)
  qed
qed

text \<open>Any other payload: an exception, or only the expired rows go (the token was there already).\<close>

lemma apply_token_revoked_skips:
  assumes ok: "related_db_ok db" and r: "event_revocation L payload = None"
  shows "(\<exists>e. apply_token_revoked L now payload db = Inl e) \<or>
    apply_token_revoked L now payload db = Inr (db\<lparr>rdb_revoked := unexpired now (rdb_revoked db)\<rparr>)"
proof (cases "apply_token_revoked L now payload db")
  case (Inr db')
  then obtain e s d tok tk where p: "getitem payload ''expires_at'' = Inr e" "as_str e = Inr s"
    "fromisoformat (iso_other L) (replace_char (CHR ''Z'') ''+00:00'' s) = Inr d"
    "getitem payload ''token_id'' = Inr tok" "bind_text L tok = Inr tk"
    by (auto simp: apply_token_revoked_def try_then_eq_Inr_iff)
  show ?thesis
  proof (cases "Option.bind tk (\<lambda>t. row_at rt_token_id t (rdb_revoked db))")
    case None
    then obtain usr u k where "getitem payload ''user_id'' = Inr usr" "bind_text L usr = Inr (Some u)" "tk = Some k"
      "related_db_ok (db\<lparr>rdb_revoked := rdb_revoked db @
        [\<lparr>rt_token_id = k, rt_user_id = u, rt_expires_at = wall d, rt_revoked_at = now\<rparr>]\<rparr>)"
      using Inr p by (auto simp: apply_token_revoked_def try_then_eq_Inr_iff flush_eq_Inr_iff
          or_db_error_def split: option.splits)
    then have "event_revocation L payload = Some (k, u, wall d)"
      using p ok by (simp add: event_revocation_def related_db_ok_revoked revoked_ok_def)
    with r show ?thesis by simp
  next
    case (Some row)
    with ok show ?thesis by (simp add: apply_token_revoked_def p flush_def unexpired_def)
  qed
qed simp

definition revokes_event :: "related_lib \<Rightarrow> json \<Rightarrow> string set" where
  "revokes_event L payload = (case event_revocation L payload of None \<Rightarrow> {} | Some (k, u, t) \<Rightarrow> {k})"

definition event_honest :: "related_lib \<Rightarrow> (string \<Rightarrow> timestamp) \<Rightarrow> json \<Rightarrow> bool" where
  "event_honest L issued payload =
     (case event_revocation L payload of None \<Rightarrow> True | Some (k, u, t) \<Rightarrow> t = issued k)"

definition related_denylist_inv :: "(string \<Rightarrow> timestamp) \<Rightarrow> related_db \<Rightarrow> bool" where
  "related_denylist_inv issued db \<longleftrightarrow> related_db_ok db
     \<and> (\<forall>r\<in>set (rdb_revoked db). rt_expires_at r = issued (rt_token_id r))"

definition refuses :: "related_lib \<Rightarrow> related_db \<Rightarrow> string \<Rightarrow> bool" where
  "refuses L db k \<longleftrightarrow> get_revoked L db (JStr k) \<noteq> Inr None"

lemma refuses_iff: "refuses L db k \<longleftrightarrow> k \<in> rt_token_id ` set (rdb_revoked db)"
  by (auto simp: refuses_def row_at_None_iff)

lemma unexpired_iff:
  assumes "\<forall>r\<in>set rows. rt_expires_at r = issued (rt_token_id r)"
  shows "k \<in> rt_token_id ` set (unexpired now rows) \<longleftrightarrow> k \<in> rt_token_id ` set rows \<and> now < issued k"
  using assms by (force simp: unexpired_def not_le)

lemma token_revoked_denylist:
  assumes inv: "related_denylist_inv issued db" and h: "event_honest L issued payload"
  shows "related_denylist_inv issued (token_revoked L now payload db)"
    and "refuses L (token_revoked L now payload db) k \<Longrightarrow> refuses L db k \<or> k \<in> revokes_event L payload"
    and "now < issued k \<Longrightarrow> refuses L (token_revoked L now payload db) k \<longleftrightarrow> refuses L db k \<or> k \<in> revokes_event L payload"
proof -
  have ok: "related_db_ok db" and iss: "\<forall>r\<in>set (rdb_revoked db). rt_expires_at r = issued (rt_token_id r)"
    using inv by (auto simp: related_denylist_inv_def)
  have "related_denylist_inv issued (token_revoked L now payload db) \<and>
    (refuses L (token_revoked L now payload db) k \<longrightarrow> refuses L db k \<or> k \<in> revokes_event L payload) \<and>
    (now < issued k \<longrightarrow> (refuses L (token_revoked L now payload db) k \<longleftrightarrow> refuses L db k \<or> k \<in> revokes_event L payload))"
  proof (cases "event_revocation L payload")
    case None
    have gone: "related_db_ok (db\<lparr>rdb_revoked := unexpired now (rdb_revoked db)\<rparr>)"
      by (rule related_db_ok_unexpired[OF ok])
    have sub: "set (unexpired now (rdb_revoked db)) \<subseteq> set (rdb_revoked db)" by (auto simp: unexpired_def)
    from apply_token_revoked_skips[OF ok None, of now] show ?thesis
    proof
      assume "\<exists>e. apply_token_revoked L now payload db = Inl e"
      with inv None show ?thesis by (auto simp: token_revoked_def revokes_event_def)
    next
      assume *: "apply_token_revoked L now payload db = Inr (db\<lparr>rdb_revoked := unexpired now (rdb_revoked db)\<rparr>)"
      with None gone sub iss show ?thesis
        by (auto simp: token_revoked_def revokes_event_def related_denylist_inv_def refuses_iff unexpired_iff[OF iss])
    qed
  next
    case (Some x)
    obtain k' u t where x: "x = (k', u, t)" by (cases x) auto
    let ?rows = "if row_at rt_token_id k' (rdb_revoked db) \<noteq> None then rdb_revoked db
      else rdb_revoked db @ [\<lparr>rt_token_id = k', rt_user_id = u, rt_expires_at = t, rt_revoked_at = now\<rparr>]"
    have t: "t = issued k'" using h Some x by (simp add: event_honest_def)
    have iss': "\<forall>r\<in>set ?rows. rt_expires_at r = issued (rt_token_id r)" using iss t by auto
    have tokens: "rt_token_id ` set ?rows = insert k' (rt_token_id ` set (rdb_revoked db))"
      by (auto simp: row_at_None_iff)
    have step: "token_revoked L now payload db = db\<lparr>rdb_revoked := unexpired now ?rows\<rparr>"
      using apply_token_revoked_reads[OF ok Some[unfolded x], of now] by (simp add: token_revoked_def)
    have "length k' \<le> 64" "length u \<le> 64"
      using Some x by (auto simp: event_revocation_def split: sum.splits option.splits if_splits)
    then have "related_db_ok (db\<lparr>rdb_revoked := ?rows\<rparr>)"
      using ok by (auto simp: related_db_ok_def revoked_ok_def row_at_None_iff)
    from related_db_ok_unexpired[OF this, of now]
    have ok': "related_db_ok (db\<lparr>rdb_revoked := unexpired now ?rows\<rparr>)" by simp
    have "related_denylist_inv issued (db\<lparr>rdb_revoked := unexpired now ?rows\<rparr>)"
      using ok' iss' unfolding related_denylist_inv_def by (simp only: unexpired_def) auto
    moreover have "refuses L (db\<lparr>rdb_revoked := unexpired now ?rows\<rparr>) k \<longleftrightarrow>
        (k = k' \<or> k \<in> rt_token_id ` set (rdb_revoked db)) \<and> now < issued k"
      using unexpired_iff[OF iss', of k now] by (simp only: refuses_iff tokens) auto
    moreover have "revokes_event L payload = {k'}" using Some x by (simp add: revokes_event_def)
    ultimately show ?thesis unfolding step by (auto simp: refuses_iff)
  qed
  then show "related_denylist_inv issued (token_revoked L now payload db)"
    "refuses L (token_revoked L now payload db) k \<Longrightarrow> refuses L db k \<or> k \<in> revokes_event L payload"
    "now < issued k \<Longrightarrow> refuses L (token_revoked L now payload db) k \<longleftrightarrow> refuses L db k \<or> k \<in> revokes_event L payload"
    by blast+
qed

interpretation related_denylist: denylist "related_denylist_inv issued" "refuses L" issued
    "revokes_event L" "event_honest L issued" "token_revoked L" for L issued
  by unfold_locales (auto dest: token_revoked_denylist(2) simp: token_revoked_denylist(1,3))

subsection \<open>What holds of the decorator\<close>

text \<open>
  C33: A protected view runs only for a verified token that is not on the denylist: any reply but a 401 or
  a 503 is the one that the view gives the subject of the token.
\<close>

theorem requires_auth_protects:
  assumes "decode_law J" "fst (requires_auth J L S db view h cache) = Inr r" "resp_status r \<notin> {401, 503}"
  shows "\<exists>token kvs jti sub email. bearer_token h = Some token
    \<and> verify J S (fst (jwk_client_of S cache)) token = Inr (JObj kvs)
    \<and> map_of kvs ''jti'' = Some jti \<and> get_revoked L db jti = Inr None
    \<and> map_of kvs ''sub'' = Some sub \<and> view \<lparr>g_user_id = sub, g_email = email\<rparr> = Inr r"
proof (cases "bearer_token h")
  case None
  then have "fst (requires_auth J L S db view h cache) = Inr (Response 401 (Inl (''error'', ''bearer token required'')))"
    by (auto simp: requires_auth_def bearer_token_def split: option.splits if_splits)
  with assms(2,3) show ?thesis by auto
next
  case (Some token)
  obtain x where x: "verify J S (fst (jwk_client_of S cache)) token = x" by blast
  note out = requires_auth_outcome[OF assms(1) Some x, of L db view]
  show ?thesis
  proof (cases x)
    case (Inl e)
    with out assms(2,3) show ?thesis by (cases e) auto
  next
    case (Inr claims)
    obtain kvs jti sub where c: "claims = JObj kvs" "map_of kvs ''jti'' = Some jti" "map_of kvs ''sub'' = Some sub"
      using verify_claims[OF assms(1)] x Inr by blast
    have free: "get_revoked L db jti = Inr None"
      using out assms(2,3) Inr c by (cases "get_revoked L db jti") (auto split: if_splits)
    obtain email where "get_or claims ''email'' (JStr []) = Inr email" by (simp add: c(1))
    then have "view \<lparr>g_user_id = sub, g_email = email\<rparr> = Inr r"
      using out assms(2) Inr c free by simp
    with Some x Inr c free show ?thesis by blast
  qed
qed

theorem requires_auth_protects_witness:
  "let out = fst (requires_auth plain_jwt_lib plain_related_lib plain_auth empty_related_db
         (\<lambda>g. Inr (Response 200 (Inr (g_user_id g)))) (Some ''Bearer t1'') None)
   in out = Inr (Response 200 (Inr (JStr ''me''))) \<and> get_revoked plain_related_lib empty_related_db (JStr ''t1'') = Inr None"
proof -
  let ?view = "\<lambda>g. Inr (Response 200 (Inr (g_user_id g)))"
  obtain kvs where v: "verify plain_jwt_lib plain_auth (fst (jwk_client_of plain_auth None)) ''t1'' = Inr (JObj kvs)"
    "map_of kvs ''jti'' = Some (JStr ''t1'')" "map_of kvs ''sub'' = Some (JStr ''me'')"
    using plain_verify by blast
  have free: "get_revoked plain_related_lib empty_related_db (JStr ''t1'') = Inr None"
    by (simp add: empty_related_db_def)
  have out: "fst (requires_auth plain_jwt_lib plain_related_lib plain_auth empty_related_db ?view (Some ''Bearer t1'') None)
      = Inr (Response 200 (Inr (JStr ''me'')))"
    using requires_auth_outcome[OF plain_decode_law plain_bearer v(1), of plain_related_lib empty_related_db ?view] v free
    by simp
  have "\<exists>token kvs jti sub email. bearer_token (Some ''Bearer t1'') = Some token
    \<and> verify plain_jwt_lib plain_auth (fst (jwk_client_of plain_auth None)) token = Inr (JObj kvs)
    \<and> map_of kvs ''jti'' = Some jti \<and> get_revoked plain_related_lib empty_related_db jti = Inr None
    \<and> map_of kvs ''sub'' = Some sub \<and> ?view \<lparr>g_user_id = sub, g_email = email\<rparr> = Inr (Response 200 (Inr (JStr ''me'')))"
    using requires_auth_protects[OF plain_decode_law out] by simp
  with out free show ?thesis by (simp add: Let_def)
qed

end
