(* ===== verification/Revocations.thy ===== *)
theory Revocations
  imports PostsService Denylist
begin

section \<open>The consumer of revocations (services/posts/posts/management/commands/consume_revocations.py)\<close>

text \<open>
  \<open>_apply\<close>, the loop of \<open>handle\<close> and \<open>purge_expired_revocations\<close> of jwtauth.py.
  \<open>parse_datetime\<close> is Django's: on a string it returns an instant, or None for a string that is
  not a date, or raises ValueError for a date that does not exist; anything else than a string is
  a TypeError. \<open>str_of\<close> is \<open>str(...)\<close> of a JSON value that is not a string.
\<close>

record revocation_lib =
  parse_datetime :: "string \<Rightarrow> timestamp option res"
  str_of :: "json \<Rightarrow> string"

definition parse_expiry :: "revocation_lib \<Rightarrow> json \<Rightarrow> timestamp option res" where
  "parse_expiry L j = (case j of JStr s \<Rightarrow> parse_datetime L s | _ \<Rightarrow> Inl TypeError)"

text \<open>
  \<open>RevokedToken.objects.update_or_create\<close>: the three columns are not null, the token is the
  primary key; \<open>revoked_at\<close> is set on insertion only. It runs in a transaction of its own.
\<close>

definition update_or_create :: "revocation_lib \<Rightarrow> timestamp \<Rightarrow> json \<Rightarrow> json \<Rightarrow> timestamp option \<Rightarrow> unit action" where
  "update_or_create L now token user expires =
     (case expires of
        None \<Rightarrow> raises DatabaseError
      | Some t \<Rightarrow>
          if token = JNull \<or> user = JNull then raises DatabaseError
          else atomic (statement (\<lambda>db.
            let k = text_value (str_of L) token; u = text_value (str_of L) user in
            db\<lparr>pdb_revoked :=
              (if row_at rv_token_id k (pdb_revoked db) \<noteq> None
               then map (\<lambda>r. if rv_token_id r = k then r\<lparr>rv_user_id := u, rv_expires_at := t\<rparr> else r) (pdb_revoked db)
               else pdb_revoked db @ [\<lparr>rv_token_id = k, rv_user_id = u, rv_expires_at = t, rv_revoked_at = now\<rparr>])\<rparr>)))"

definition malformed :: "exc set" where
  "malformed = {KeyError, TypeError, ValueError}"

definition apply_revocation :: "revocation_lib \<Rightarrow> timestamp \<Rightarrow> json \<Rightarrow> bool action" where
  "apply_revocation L now payload db =
     (case try_then (getitem payload ''expires_at'') (\<lambda>e.
           try_then (parse_expiry L e) (\<lambda>expires.
           try_then (getitem payload ''token_id'') (\<lambda>token.
           try_then (getitem payload ''user_id'') (\<lambda>user. Inr (token, user, expires))))) of
        Inl e \<Rightarrow> (if e \<in> malformed then Inr True else Inl e, db)
      | Inr (token, user, expires) \<Rightarrow>
          (case update_or_create L now token user expires db of
             (Inl e, db') \<Rightarrow> (if e \<in> malformed then Inr True else Inl e, db')
           | (Inr _, db') \<Rightarrow> (Inr True, db')))"

definition purge_expired_revocations :: "timestamp \<Rightarrow> posts_db \<Rightarrow> nat \<times> posts_db" where
  "purge_expired_revocations now db =
     (let keep = filter (\<lambda>r. \<not> rv_expires_at r \<le> now) (pdb_revoked db)
      in (length (pdb_revoked db) - length keep, db\<lparr>pdb_revoked := keep\<rparr>))"

text \<open>
  The command: its database, the position in the (single) partition it reads, the offset it has
  committed, the flag \<open>running\<close>. One round of \<open>while self.running\<close> takes the messages the
  iterator yields before its timeout, each with the clock reading and whether a signal arrived
  meanwhile, and then purges; an exception ends the process.
\<close>

record revocation_state =
  rc_db :: posts_db
  rc_position :: nat
  rc_committed :: nat
  rc_running :: bool

definition stop_revocations :: "revocation_state \<Rightarrow> revocation_state" where
  "stop_revocations st = st\<lparr>rc_running := False\<rparr>"

fun revocation_messages :: "revocation_lib \<Rightarrow> (timestamp \<times> bool \<times> json) list \<Rightarrow> revocation_state
    \<Rightarrow> unit res \<times> revocation_state" where
  "revocation_messages L [] st = (Inr (), st)"
| "revocation_messages L ((now, signalled, payload) # msgs) st =
     (case apply_revocation L now payload (rc_db st) of
        (Inl e, db') \<Rightarrow> (Inl e, st\<lparr>rc_db := db', rc_position := Suc (rc_position st)\<rparr>)
      | (Inr ok, db') \<Rightarrow>
          (let st1 = st\<lparr>rc_db := db', rc_position := Suc (rc_position st)\<rparr>;
               st2 = (if ok then st1\<lparr>rc_committed := rc_position st1\<rparr> else st1);
               st3 = (if signalled then stop_revocations st2 else st2)
           in if \<not> rc_running st3 then (Inr (), st3) else revocation_messages L msgs st3))"

definition revocation_round :: "revocation_lib \<Rightarrow> timestamp \<Rightarrow> (timestamp \<times> bool \<times> json) list
    \<Rightarrow> revocation_state \<Rightarrow> unit res \<times> revocation_state" where
  "revocation_round L now msgs st =
     (case revocation_messages L msgs st of
        (Inl e, st') \<Rightarrow> (Inl e, st')
      | (Inr _, st') \<Rightarrow> (Inr (), st'\<lparr>rc_db := snd (purge_expired_revocations now (rc_db st'))\<rparr>))"

subsection \<open>One revocation\<close>

text \<open>What Django documents of \<open>parse_datetime\<close> on strings.\<close>

definition parse_datetime_law :: "revocation_lib \<Rightarrow> bool" where
  "parse_datetime_law L \<longleftrightarrow> (\<forall>s e. parse_datetime L s = Inl e \<longrightarrow> e = ValueError)"

text \<open>The token, user and expiry of a payload that a row can be made of.\<close>

definition revocation_of :: "revocation_lib \<Rightarrow> json \<Rightarrow> (string \<times> string \<times> timestamp) option" where
  "revocation_of L payload =
     (case (try_then (getitem payload ''expires_at'') (parse_expiry L), getitem payload ''token_id'', getitem payload ''user_id'') of
        (Inr (Some t), Inr token, Inr user) \<Rightarrow>
          if token = JNull \<or> user = JNull \<or> 64 < length (text_value (str_of L) token)
             \<or> 64 < length (text_value (str_of L) user) then None
          else Some (text_value (str_of L) token, text_value (str_of L) user, t)
      | _ \<Rightarrow> None)"

definition deny_row :: "timestamp \<Rightarrow> string \<Rightarrow> string \<Rightarrow> timestamp \<Rightarrow> revoked_token list \<Rightarrow> revoked_token list" where
  "deny_row now k u t rows =
     (if row_at rv_token_id k rows \<noteq> None
      then map (\<lambda>r. if rv_token_id r = k then r\<lparr>rv_user_id := u, rv_expires_at := t\<rparr> else r) rows
      else rows @ [\<lparr>rv_token_id = k, rv_user_id = u, rv_expires_at = t, rv_revoked_at = now\<rparr>])"

lemma deny_row_tokens: "map rv_token_id (deny_row now k u t rows)
    = (if k \<in> rv_token_id ` set rows then map rv_token_id rows else map rv_token_id rows @ [k])"
  by (auto simp: deny_row_def row_at_None_iff)

lemma deny_row_set: "r \<in> set (deny_row now k u t rows) \<Longrightarrow>
    rv_token_id r = k \<and> rv_user_id r = u \<and> rv_expires_at r = t \<or> r \<in> set rows \<and> rv_token_id r \<noteq> k"
  by (auto simp: deny_row_def row_at_None_iff split: if_splits)

lemma deny_row_ok:
  assumes ok: "posts_db_ok db" and len: "length k \<le> 64" "length u \<le> 64"
  shows "posts_db_ok (db\<lparr>pdb_revoked := deny_row now k u t (pdb_revoked db)\<rparr>)"
proof -
  have "revoked_row_ok r" if "r \<in> set (deny_row now k u t (pdb_revoked db))" for r
    using deny_row_set[OF that] ok len by (auto simp: posts_db_ok_def revoked_row_ok_def list_all_iff)
  then show ?thesis
    using ok by (auto simp: posts_db_ok_def list_all_iff deny_row_tokens)
qed

lemma deny_row_too_long:
  assumes "64 < length k \<or> 64 < length u"
  shows "\<not> posts_db_ok (db\<lparr>pdb_revoked := deny_row now k u t (pdb_revoked db)\<rparr>)"
proof -
  have "\<exists>r\<in>set (deny_row now k u t rows). rv_token_id r = k \<and> rv_user_id r = u" for rows
  proof (cases "row_at rv_token_id k rows")
    case (Some r)
    with row_at_SomeD[OF Some] show ?thesis
      by (intro bexI[of _ "r\<lparr>rv_user_id := u, rv_expires_at := t\<rparr>"]) (auto simp: deny_row_def)
  qed (simp add: deny_row_def)
  then show ?thesis
    using assms by (fastforce simp: posts_db_ok_def list_all_iff revoked_row_ok_def)
qed

lemma update_or_create_eq:
  "update_or_create L now token user (Some t) =
     (if token = JNull \<or> user = JNull then raises DatabaseError
      else atomic (statement (\<lambda>db. db\<lparr>pdb_revoked := deny_row now (text_value (str_of L) token)
        (text_value (str_of L) user) t (pdb_revoked db)\<rparr>)))"
  by (simp add: update_or_create_def deny_row_def Let_def)

text \<open>
  The outcomes: a revocation is stored; a payload that cannot be read is skipped; the database
  refuses the row, and the exception ends the consumer. A payload without an expiry that
  \<open>parse_datetime\<close> can read is of the third kind.
\<close>

lemma apply_revocation_stored:
  assumes ok: "posts_db_ok db" and r: "revocation_of L payload = Some (k, u, t)"
  shows "apply_revocation L now payload db
    = (Inr True, db\<lparr>pdb_revoked := deny_row now k u t (pdb_revoked db)\<rparr>)"
proof -
  obtain e token user where p: "getitem payload ''expires_at'' = Inr e" "parse_expiry L e = Inr (Some t)"
    "getitem payload ''token_id'' = Inr token" "getitem payload ''user_id'' = Inr user"
    and k: "token \<noteq> JNull" "user \<noteq> JNull" "k = text_value (str_of L) token" "u = text_value (str_of L) user"
      "length k \<le> 64" "length u \<le> 64"
    using r by (auto simp: revocation_of_def try_then_eq_Inr_iff not_less split: sum.splits option.splits if_splits)
  have "posts_db_ok (db\<lparr>pdb_revoked := deny_row now k u t (pdb_revoked db)\<rparr>)"
    by (rule deny_row_ok[OF ok k(5,6)])
  then show ?thesis
    using k by (simp add: apply_revocation_def p update_or_create_eq atomic_def statement_def)
qed

lemma apply_revocation_refused:
  assumes law: "parse_datetime_law L" and none: "revocation_of L payload = None"
  shows "apply_revocation L now payload db = (Inr True, db) \<or> apply_revocation L now payload db = (Inl DatabaseError, db)"
proof (cases "try_then (getitem payload ''expires_at'') (\<lambda>e.
           try_then (parse_expiry L e) (\<lambda>expires.
           try_then (getitem payload ''token_id'') (\<lambda>token.
           try_then (getitem payload ''user_id'') (\<lambda>user. Inr (token, user, expires)))))")
  case (Inl e)
  have "parse_expiry L j = Inl x \<Longrightarrow> x \<in> malformed" for j x
    using law by (auto simp: parse_expiry_def parse_datetime_law_def malformed_def split: json.splits)
  then have "e \<in> malformed"
    using Inl by (auto simp: try_then_eq_Inl_iff malformed_def dest: getitem_exc)
  with Inl show ?thesis by (simp add: apply_revocation_def)
next
  case (Inr x)
  obtain token user expires where x: "x = (token, user, expires)" by (cases x) auto
  show ?thesis
  proof (cases expires)
    case None
    with Inr x show ?thesis
      by (simp add: apply_revocation_def update_or_create_def raises_def malformed_def)
  next
    case (Some t)
    have "token = JNull \<or> user = JNull \<or> 64 < length (text_value (str_of L) token) \<or> 64 < length (text_value (str_of L) user)"
      using none Inr by (auto simp: revocation_of_def x Some try_then_eq_Inr_iff split: if_splits)
    then have "update_or_create L now token user (Some t) db = (Inl DatabaseError, db)"
      using deny_row_too_long[where k = "text_value (str_of L) token" and u = "text_value (str_of L) user"
        and db = db and now = now and t = t]
      by (auto simp: update_or_create_eq raises_def atomic_def statement_def)
    with Inr x Some show ?thesis by (simp add: apply_revocation_def malformed_def)
  qed
qed

lemma apply_revocation_cases:
  assumes "parse_datetime_law L" "posts_db_ok db"
  obtains (stored) k u t where "revocation_of L payload = Some (k, u, t)"
      "apply_revocation L now payload db = (Inr True, db\<lparr>pdb_revoked := deny_row now k u t (pdb_revoked db)\<rparr>)"
  | (skipped) "revocation_of L payload = None" "apply_revocation L now payload db = (Inr True, db)"
  | (crashed) "revocation_of L payload = None" "apply_revocation L now payload db = (Inl DatabaseError, db)"
  using apply_revocation_stored[OF assms(2)] apply_revocation_refused[OF assms(1)]
  by (metis option.exhaust prod_cases3)

text \<open>Applying a revocation again changes nothing.\<close>

lemma deny_row_idem: "deny_row now' k u t (deny_row now k u t rows) = deny_row now k u t rows"
proof -
  have "row_at rv_token_id k (deny_row now k u t rows) \<noteq> None"
    by (auto simp: row_at_None_iff deny_row_tokens simp flip: set_map)
  then show ?thesis
    unfolding deny_row_def[of now' k u t "deny_row now k u t rows"]
    by (auto simp: deny_row_def row_at_None_iff intro!: map_idI) (metis image_eqI)
qed

subsection \<open>The loop\<close>

text \<open>
  The offset is committed after every message that did not raise, so the commit follows the
  position; a message that raises is not committed.
\<close>

lemma revocation_messages_committed:
  assumes "parse_datetime_law L" "posts_db_ok (rc_db st)" "rc_committed st = rc_position st"
    and "revocation_messages L msgs st = (r, st')"
  shows "posts_db_ok (rc_db st') \<and>
    (r = Inr () \<and> rc_committed st' = rc_position st' \<or>
     r = Inl DatabaseError \<and> Suc (rc_committed st') = rc_position st')"
  using assms(2-)
proof (induction msgs arbitrary: st)
  case (Cons m msgs)
  obtain now signalled payload where m: "m = (now, signalled, payload)" by (cases m) auto
  have ok_next: ?case if "apply_revocation L now payload (rc_db st) = (Inr True, db1)" "posts_db_ok db1" for db1
  proof -
    let ?s = "st\<lparr>rc_db := db1, rc_position := Suc (rc_position st), rc_committed := Suc (rc_position st)\<rparr>"
    have "revocation_messages L (m # msgs) st = (if signalled \<or> \<not> rc_running st
        then (Inr (), if signalled then stop_revocations ?s else ?s) else revocation_messages L msgs ?s)"
      using that(1) by (simp add: m Let_def stop_revocations_def)
    then show ?thesis
      using Cons.IH[of ?s] Cons.prems(3) that(2)
      by (cases "signalled \<or> \<not> rc_running st") (auto simp: stop_revocations_def)
  qed
  from assms(1) Cons.prems(1) show ?case
  proof (cases rule: apply_revocation_cases[where payload = payload and now = now])
    case (stored k u t)
    then have "posts_db_ok ((rc_db st)\<lparr>pdb_revoked := deny_row now k u t (pdb_revoked (rc_db st))\<rparr>)"
      using Cons.prems(1)
      by (intro deny_row_ok) (auto simp: revocation_of_def not_less split: sum.splits option.splits if_splits)
    with stored(2) show ?thesis by (rule ok_next)
  next
    case skipped
    show ?thesis by (rule ok_next[OF skipped(2) Cons.prems(1)])
  next
    case crashed
    with Cons.prems show ?thesis by (auto simp: m)
  qed
qed auto

text \<open>
  A payload whose \<open>expires_at\<close> is a string that is no date (or whose ids do not fit) raises
  whenever it is read: the process that starts again at the committed offset ends there again.
\<close>

lemma unreadable_expiry_raises:
  assumes "getitem payload ''expires_at'' = Inr e" "parse_expiry L e = Inr None"
    and "getitem payload ''token_id'' = Inr token" "getitem payload ''user_id'' = Inr user"
  shows "apply_revocation L now payload db = (Inl DatabaseError, db)"
  using assms by (simp add: apply_revocation_def update_or_create_def raises_def malformed_def)

subsection \<open>The consumer keeps the contract of a denylist\<close>

datatype revocation_op = Revoke json | Purge

fun revocation_step :: "revocation_lib \<Rightarrow> timestamp \<Rightarrow> revocation_op \<Rightarrow> posts_db \<Rightarrow> posts_db" where
  "revocation_step L now (Revoke payload) db = snd (apply_revocation L now payload db)"
| "revocation_step L now Purge db = snd (purge_expired_revocations now db)"

fun revokes :: "revocation_lib \<Rightarrow> revocation_op \<Rightarrow> string set" where
  "revokes L (Revoke payload) = (case revocation_of L payload of None \<Rightarrow> {} | Some (k, u, t) \<Rightarrow> if k = [] then {} else {k})"
| "revokes L Purge = {}"

text \<open>The payload carries the expiry the token was issued with.\<close>

fun revokes_honestly :: "revocation_lib \<Rightarrow> (string \<Rightarrow> timestamp) \<Rightarrow> revocation_op \<Rightarrow> bool" where
  "revokes_honestly L issued (Revoke payload) \<longleftrightarrow>
     (case revocation_of L payload of None \<Rightarrow> True | Some (k, u, t) \<Rightarrow> t = issued k)"
| "revokes_honestly L issued Purge \<longleftrightarrow> True"

definition denylist_inv :: "(string \<Rightarrow> timestamp) \<Rightarrow> posts_db \<Rightarrow> bool" where
  "denylist_inv issued db \<longleftrightarrow> posts_db_ok db \<and> (\<forall>r\<in>set (pdb_revoked db). rv_expires_at r = issued (rv_token_id r))"

definition is_denied :: "revocation_lib \<Rightarrow> posts_db \<Rightarrow> string \<Rightarrow> bool" where
  "is_denied L db k = is_revoked (str_of L) db (JStr k)"

lemma is_denied_iff: "is_denied L db k \<longleftrightarrow> k \<noteq> [] \<and> k \<in> rv_token_id ` set (pdb_revoked db)"
  by (auto simp: is_denied_def is_revoked_def row_at_None_iff)

lemma purge_db: "snd (purge_expired_revocations now db) = db\<lparr>pdb_revoked := filter (\<lambda>r. \<not> rv_expires_at r \<le> now) (pdb_revoked db)\<rparr>"
  by (simp add: purge_expired_revocations_def Let_def)

lemma deny_row_denied: "rv_token_id ` set (deny_row now k u t rows) = insert k (rv_token_id ` set rows)"
  using deny_row_tokens[of now k u t rows] by (auto simp flip: set_map split: if_splits)

lemma revocation_step_inv:
  assumes law: "parse_datetime_law L" and inv: "denylist_inv issued db" and h: "revokes_honestly L issued x"
  shows "denylist_inv issued (revocation_step L now x db)"
proof (cases x)
  case (Revoke payload)
  have ok: "posts_db_ok db" using inv by (simp add: denylist_inv_def)
  from law ok show ?thesis
  proof (cases rule: apply_revocation_cases[where payload = payload and now = now])
    case (stored k u t)
    have "posts_db_ok (snd (apply_revocation L now payload db))"
      using stored(2) ok deny_row_ok[OF ok, of k u now t] stored(1)
      by (auto simp: revocation_of_def not_less split: sum.splits option.splits if_splits)
    then show ?thesis
      using stored h inv by (auto simp: Revoke denylist_inv_def dest!: deny_row_set)
  qed (use inv in \<open>simp_all add: Revoke\<close>)
next
  case Purge
  then show ?thesis
    using inv by (auto simp: denylist_inv_def purge_db posts_db_ok_def list_all_iff distinct_map_filter_key)
qed

lemma revocation_step_denied:
  assumes law: "parse_datetime_law L" and inv: "denylist_inv issued db" and h: "revokes_honestly L issued x"
  shows "is_denied L (revocation_step L now x db) k \<longleftrightarrow>
    (is_denied L db k \<or> k \<in> revokes L x) \<and> (x = Purge \<longrightarrow> now < issued k)"
proof (cases x)
  case (Revoke payload)
  have ok: "posts_db_ok db" using inv by (simp add: denylist_inv_def)
  show ?thesis
    by (cases rule: apply_revocation_cases[OF law ok, where payload = payload and now = now])
      (auto simp: Revoke is_denied_iff deny_row_denied)
next
  case Purge
  then show ?thesis
    using inv by (force simp: is_denied_iff purge_db denylist_inv_def not_le)
qed

text \<open>
  The parameters of the interpretation are the library with its law and the expiry the tokens
  were issued with; a library without the law is replaced by one that parses nothing.
\<close>

definition lawful :: "revocation_lib \<Rightarrow> revocation_lib" where
  "lawful L = L\<lparr>parse_datetime := (\<lambda>s. case parse_datetime L s of Inl _ \<Rightarrow> Inl ValueError | Inr t \<Rightarrow> Inr t)\<rparr>"

lemma lawful_law [simp]: "parse_datetime_law (lawful L)"
  by (auto simp: parse_datetime_law_def lawful_def split: sum.splits)

lemma lawful_id: "parse_datetime_law L \<Longrightarrow> lawful L = L"
proof -
  assume "parse_datetime_law L"
  then have "(\<lambda>s. case parse_datetime L s of Inl _ \<Rightarrow> Inl ValueError | Inr t \<Rightarrow> Inr t) = parse_datetime L"
    by (auto simp: parse_datetime_law_def fun_eq_iff split: sum.splits)
  then show ?thesis by (simp add: lawful_def)
qed

interpretation posts_denylist: denylist "denylist_inv issued" "is_denied (lawful L)" issued
    "revokes (lawful L)" "revokes_honestly (lawful L) issued" "revocation_step (lawful L)" for L issued
  by unfold_locales
    (simp_all add: revocation_step_inv revocation_step_denied)

subsection \<open>What holds of the denylist of the posts service\<close>

text \<open>A library to evaluate on: one date, and a string that is none.\<close>

definition plain_revocation_lib :: revocation_lib where
  "plain_revocation_lib = \<lparr>parse_datetime = (\<lambda>s. if s = ''2026-07-22T12:00:00Z'' then Inr (Some (Timestamp 100)) else Inr None),
     str_of = (\<lambda>_. ''?'')\<rparr>"

lemma plain_revocation_law [simp]: "parse_datetime_law plain_revocation_lib"
  by (simp add: parse_datetime_law_def plain_revocation_lib_def)

definition sample_revocation :: json where
  "sample_revocation = JObj [(''token_id'', JStr ''t1''), (''user_id'', JStr ''me''), (''expires_at'', JStr ''2026-07-22T12:00:00Z'')]"

lemma sample_revocation_of [simp]:
  "revocation_of plain_revocation_lib sample_revocation = Some (''t1'', ''me'', Timestamp 100)"
  by (simp add: revocation_of_def sample_revocation_def parse_expiry_def plain_revocation_lib_def)

lemma empty_denylist_inv [simp]: "denylist_inv issued empty_posts_db"
  by (simp add: denylist_inv_def posts_db_ok_def empty_posts_db_def)

text \<open>
  C30: The denylist of the posts service is right until a token expires. Through any revocations (repeated,
  malformed or refused ones included) and purges before its expiry, a token is denied exactly if it was
  denied before or one of the events revoked it.
\<close>

theorem denied_exactly_if_revoked:
  assumes "parse_datetime_law L" "denylist_inv issued db"
    and "\<forall>(now, x)\<in>set xs. revokes_honestly L issued x \<and> now < issued k"
  shows "is_denied L (fold (\<lambda>(now, x). revocation_step L now x) xs db) k
    \<longleftrightarrow> is_denied L db k \<or> (\<exists>(now, x)\<in>set xs. k \<in> revokes L x)"
  using posts_denylist.denied_iff_revoked[of issued db xs L k] assms
  by (simp add: lawful_id)

theorem denied_exactly_if_revoked_witness:
  "is_denied plain_revocation_lib (fold (\<lambda>(now, x). revocation_step plain_revocation_lib now x)
     [(Timestamp 1, Revoke JNull), (Timestamp 2, Revoke sample_revocation), (Timestamp 3, Purge)] empty_posts_db) ''t1''"
  using denied_exactly_if_revoked[of plain_revocation_lib "\<lambda>_. Timestamp 100" empty_posts_db
      "[(Timestamp 1, Revoke JNull), (Timestamp 2, Revoke sample_revocation), (Timestamp 3, Purge)]" "''t1''"]
  by (simp add: revocation_of_def[of _ JNull])

text \<open>
  The consumer of revocations commits exactly what it has dealt with. Reading any messages from a
  state whose commit is up to date, it either ends with every message it read committed, or a
  DatabaseError ends it with everything committed but the message that raised it.
\<close>

lemma revocations_commit_what_is_applied:
  assumes "parse_datetime_law L" "posts_db_ok (rc_db st)" "rc_committed st = rc_position st"
  shows "case revocation_messages L msgs st of
      (Inr _, st') \<Rightarrow> rc_committed st' = rc_position st'
    | (Inl e, st') \<Rightarrow> e = DatabaseError \<and> Suc (rc_committed st') = rc_position st'"
proof -
  obtain r st' where r: "revocation_messages L msgs st = (r, st')" by fastforce
  from revocation_messages_committed[OF assms r] show ?thesis by (auto simp: r)
qed

lemma revocations_commit_what_is_applied_witness:
  "case revocation_messages plain_revocation_lib [(Timestamp 1, False, JNull), (Timestamp 2, False, sample_revocation)]
        \<lparr>rc_db = empty_posts_db, rc_position = 0, rc_committed = 0, rc_running = True\<rparr> of
      (Inr _, st') \<Rightarrow> rc_committed st' = rc_position st'
    | (Inl e, st') \<Rightarrow> e = DatabaseError \<and> Suc (rc_committed st') = rc_position st'"
  by (rule revocations_commit_what_is_applied) (simp_all add: empty_posts_db_def posts_db_ok_def)

text \<open>
  C39: A revocation whose \<open>expires_at\<close> is a string that is no date is not skipped: it raises whenever it
  is read, so the consumer ends at it and is there again when it starts again; later revocations are
  not reached.
\<close>

theorem unreadable_expiry_blocks:
  assumes "getitem payload ''expires_at'' = Inr (JStr s)" "parse_datetime L s = Inr None"
    and "getitem payload ''token_id'' = Inr token" "getitem payload ''user_id'' = Inr user"
  shows "revocation_messages L ((now, signalled, payload) # msgs) st
    = (Inl DatabaseError, st\<lparr>rc_position := Suc (rc_position st)\<rparr>)"
  using unreadable_expiry_raises[of payload "JStr s" L token user now "rc_db st"] assms
  by (simp add: parse_expiry_def)

theorem unreadable_expiry_blocks_witness:
  "revocation_messages plain_revocation_lib
     [(Timestamp 1, False, JObj [(''token_id'', JStr ''t1''), (''user_id'', JStr ''me''), (''expires_at'', JStr ''soon'')]),
      (Timestamp 2, False, sample_revocation)] \<lparr>rc_db = empty_posts_db, rc_position = 7, rc_committed = 7, rc_running = True\<rparr>
    = (Inl DatabaseError, \<lparr>rc_db = empty_posts_db, rc_position = 8, rc_committed = 7, rc_running = True\<rparr>)"
  by (subst unreadable_expiry_blocks[of _ "''soon''"]) (simp_all add: plain_revocation_lib_def)

text \<open>A purge removes exactly the expired rows and counts them.\<close>

lemma purge_removes_expired:
  "purge_expired_revocations now db = (n, db') \<Longrightarrow>
   set (pdb_revoked db') = {r \<in> set (pdb_revoked db). now < rv_expires_at r} \<and>
   length (pdb_revoked db) = n + length (pdb_revoked db')"
  using sum_length_filter_compl[of "\<lambda>r. rv_expires_at r \<le> now" "pdb_revoked db"]
  by (auto simp: purge_expired_revocations_def Let_def not_le)

end
