(* ===== verification/RevocationProcess.thy ===== *)
theory RevocationProcess
  imports Revocations
begin

section \<open>The command consume_revocations as a process\<close>

text \<open>
  \<open>Command.handle\<close> of consume_revocations.py with what can happen to it: rounds of its loop, messages
  of the auth service, requests to the posts service on the same database, exceptions, signals, and
  crashes between any two of its commits. A process that ends is started again and reads from the
  committed offset. \<open>vp_purges\<close> notes the clock readings of the purges.
\<close>

record revocation_process =
  vp_log :: "json list"
  vp_state :: revocation_state
  vp_purges :: "timestamp list"

definition new_process :: revocation_process where
  "new_process = \<lparr>vp_log = [], vp_state = \<lparr>rc_db = empty_posts_db, rc_position = 0, rc_committed = 0, rc_running = True\<rparr>,
     vp_purges = []\<rparr>"

definition restart_revocations :: "revocation_state \<Rightarrow> revocation_state" where
  "restart_revocations st = st\<lparr>rc_position := rc_committed st, rc_running := True\<rparr>"

text \<open>The messages of a round are the next records of the partition, from the position on.\<close>

definition next_records :: "(timestamp \<times> bool \<times> json) list \<Rightarrow> revocation_process \<Rightarrow> bool" where
  "next_records msgs s \<longleftrightarrow>
     map (\<lambda>(_, _, payload). payload) msgs = take (length msgs) (drop (rc_position (vp_state s)) (vp_log s))"

inductive process_step :: "revocation_lib \<Rightarrow> revocation_process \<Rightarrow> revocation_process \<Rightarrow> bool" for L where
  publish: "process_step L s (s\<lparr>vp_log := vp_log s @ [payload]\<rparr>)"
| request: "posts_db_ok db \<Longrightarrow> pdb_revoked db = pdb_revoked (rc_db (vp_state s)) \<Longrightarrow>
    process_step L s (s\<lparr>vp_state := (vp_state s)\<lparr>rc_db := db\<rparr>\<rparr>)"
| round: "rc_running (vp_state s) \<Longrightarrow> next_records msgs s \<Longrightarrow> revocation_round L now msgs (vp_state s) = (Inr (), st') \<Longrightarrow>
    process_step L s (s\<lparr>vp_state := st', vp_purges := vp_purges s @ [now]\<rparr>)"
| interrupted: "next_records msgs s \<Longrightarrow> revocation_messages L msgs (vp_state s) = (r, st') \<Longrightarrow>
    process_step L s (s\<lparr>vp_state := restart_revocations st'\<rparr>)"
| stopped: "\<not> rc_running (vp_state s) \<Longrightarrow> process_step L s (s\<lparr>vp_state := restart_revocations (vp_state s)\<rparr>)"
| crash_before_commit: "rc_position (vp_state s) < length (vp_log s) \<Longrightarrow>
    apply_revocation L now (vp_log s ! rc_position (vp_state s)) (rc_db (vp_state s)) = (Inr True, db') \<Longrightarrow>
    process_step L s (s\<lparr>vp_state := restart_revocations ((vp_state s)\<lparr>rc_db := db'\<rparr>)\<rparr>)"

inductive process_reachable :: "revocation_lib \<Rightarrow> revocation_process \<Rightarrow> bool" for L where
  start: "process_reachable L new_process"
| step: "process_reachable L s \<Longrightarrow> process_step L s s' \<Longrightarrow> process_reachable L s'"

subsection \<open>The invariant\<close>

text \<open>
  \<open>names L log k t\<close>: a record of the log revokes the token \<open>k\<close> with expiry \<open>t\<close>. The rows of the denylist
  come from the log, and what is committed is in the denylist or was purged after an expiry
  the log gives for it.
\<close>

definition names :: "revocation_lib \<Rightarrow> json list \<Rightarrow> string \<Rightarrow> timestamp \<Rightarrow> bool" where
  "names L recs k t \<longleftrightarrow> (\<exists>payload\<in>set recs. \<exists>u. revocation_of L payload = Some (k, u, t))"

definition in_force :: "revocation_lib \<Rightarrow> json list \<Rightarrow> timestamp list \<Rightarrow> posts_db \<Rightarrow> string \<Rightarrow> bool" where
  "in_force L recs purges db k \<longleftrightarrow> k \<in> rv_token_id ` set (pdb_revoked db) \<or> (\<exists>t. names L recs k t \<and> (\<exists>now\<in>set purges. t \<le> now))"

definition process_inv :: "revocation_lib \<Rightarrow> json list \<Rightarrow> timestamp list \<Rightarrow> revocation_state \<Rightarrow> bool" where
  "process_inv L recs purges st \<longleftrightarrow> posts_db_ok (rc_db st) \<and> rc_committed st = rc_position st \<and> rc_position st \<le> length recs
     \<and> (\<forall>r\<in>set (pdb_revoked (rc_db st)). names L recs (rv_token_id r) (rv_expires_at r))
     \<and> (\<forall>off<rc_committed st. \<forall>k u t. revocation_of L (recs ! off) = Some (k, u, t) \<longrightarrow> in_force L recs purges (rc_db st) k)"

lemma process_invD:
  assumes "process_inv L recs purges st"
  shows "posts_db_ok (rc_db st)" "rc_committed st = rc_position st" "rc_position st \<le> length recs"
    "r \<in> set (pdb_revoked (rc_db st)) \<Longrightarrow> names L recs (rv_token_id r) (rv_expires_at r)"
    "off < rc_committed st \<Longrightarrow> revocation_of L (recs ! off) = Some (k, u, t) \<Longrightarrow> in_force L recs purges (rc_db st) k"
  using assms unfolding process_inv_def by blast+

lemma names_append: "names L recs k t \<Longrightarrow> names L (recs @ rest) k t"
  by (auto simp: names_def)

lemma in_force_append: "in_force L recs purges db k \<Longrightarrow> in_force L (recs @ rest) purges db k"
  unfolding in_force_def using names_append by blast

lemma process_inv_append: "process_inv L recs purges st \<Longrightarrow> process_inv L (recs @ rest) purges st"
  unfolding process_inv_def using names_append in_force_append by (auto simp: nth_append)

lemma process_inv_restart: "process_inv L recs purges st \<Longrightarrow> process_inv L recs purges (restart_revocations st)"
  by (simp add: process_inv_def restart_revocations_def)

lemma process_inv_db:
  assumes "process_inv L recs purges st" "posts_db_ok db" "pdb_revoked db = pdb_revoked (rc_db st)"
  shows "process_inv L recs purges (st\<lparr>rc_db := db\<rparr>)"
  using assms by (simp add: process_inv_def in_force_def)

text \<open>Storing a revocation of the log keeps the rows and what is in force.\<close>

lemma process_inv_stored:
  assumes inv: "process_inv L recs purges st" and p: "payload \<in> set recs" "revocation_of L payload = Some (k, u, t)"
  shows "process_inv L recs purges (st\<lparr>rc_db := (rc_db st)\<lparr>pdb_revoked := deny_row now k u t (pdb_revoked (rc_db st))\<rparr>\<rparr>)"
    and "in_force L recs purges ((rc_db st)\<lparr>pdb_revoked := deny_row now k u t (pdb_revoked (rc_db st))\<rparr>) k"
proof -
  note I = process_invD[OF inv]
  let ?db = "(rc_db st)\<lparr>pdb_revoked := deny_row now k u t (pdb_revoked (rc_db st))\<rparr>"
  show "in_force L recs purges ?db k" by (simp add: in_force_def deny_row_denied)
  have "names L recs k t" using p by (auto simp: names_def)
  then have rows: "names L recs (rv_token_id r) (rv_expires_at r)" if "r \<in> set (pdb_revoked ?db)" for r
    using deny_row_set[of r now k u t "pdb_revoked (rc_db st)"] that I(4) by auto
  have "posts_db_ok ?db"
    by (rule deny_row_ok[OF I(1)])
      (use p(2) in \<open>auto simp: revocation_of_def not_less split: sum.splits option.splits if_splits\<close>)
  moreover have "in_force L recs purges ?db k'" if "in_force L recs purges (rc_db st) k'" for k'
    using that by (auto simp: in_force_def deny_row_denied)
  ultimately show "process_inv L recs purges (st\<lparr>rc_db := ?db\<rparr>)"
    using I rows by (simp add: process_inv_def)
qed

text \<open>A record that has been dealt with is committed.\<close>

lemma process_inv_commit:
  assumes inv: "process_inv L recs purges st" and more: "rc_position st < length recs"
    and dealt: "\<And>k u t. revocation_of L (recs ! rc_position st) = Some (k, u, t) \<Longrightarrow> in_force L recs purges (rc_db st) k"
  shows "process_inv L recs purges (st\<lparr>rc_position := Suc (rc_position st), rc_committed := Suc (rc_position st)\<rparr>)"
  using process_invD[OF inv] more dealt by (auto simp: process_inv_def less_Suc_eq)

lemma process_inv_message:
  assumes law: "parse_datetime_law L" and inv: "process_inv L recs purges st" and more: "rc_position st < length recs"
    and r: "apply_revocation L now (recs ! rc_position st) (rc_db st) = (r, db')"
  shows "process_inv L recs purges (st\<lparr>rc_db := db'\<rparr>)"
    and "r = Inr ok \<Longrightarrow> ok \<and> process_inv L recs purges
      (st\<lparr>rc_db := db', rc_position := Suc (rc_position st), rc_committed := Suc (rc_position st)\<rparr>)"
proof -
  let ?p = "recs ! rc_position st"
  have p: "?p \<in> set recs" using more by simp
  have *: "process_inv L recs purges (st\<lparr>rc_db := db'\<rparr>) \<and> (r = Inr ok \<longrightarrow> ok \<and> process_inv L recs purges
      (st\<lparr>rc_db := db', rc_position := Suc (rc_position st), rc_committed := Suc (rc_position st)\<rparr>))"
    using law process_invD(1)[OF inv]
  proof (cases rule: apply_revocation_cases[where payload = ?p and now = now])
    case (stored k u t)
    have db': "db' = (rc_db st)\<lparr>pdb_revoked := deny_row now k u t (pdb_revoked (rc_db st))\<rparr>" "r = Inr True"
      using stored(2) r by auto
    note S = process_inv_stored[OF inv p stored(1), of now, folded db'(1)]
    from process_inv_commit[OF S(1)] more stored(1) S(2) db'(2) S(1) show ?thesis by auto
  next
    case skipped
    then have db': "db' = rc_db st" "r = Inr True" using r by auto
    from process_inv_commit[OF inv more] skipped(1) inv db' show ?thesis by auto
  next
    case crashed
    then show ?thesis using r inv by auto
  qed
  show "process_inv L recs purges (st\<lparr>rc_db := db'\<rparr>)" using * by blast
  show "r = Inr ok \<Longrightarrow> ok \<and> process_inv L recs purges
      (st\<lparr>rc_db := db', rc_position := Suc (rc_position st), rc_committed := Suc (rc_position st)\<rparr>)" using * by blast
qed

lemma process_inv_stop: "process_inv L recs purges (stop_revocations st) = process_inv L recs purges st"
  by (simp add: process_inv_def stop_revocations_def)

lemma process_inv_messages:
  assumes law: "parse_datetime_law L" and inv: "process_inv L recs purges st"
    and "map (\<lambda>(_, _, payload). payload) msgs = take (length msgs) (drop (rc_position st) recs)"
    and "revocation_messages L msgs st = (r, st')"
  shows "process_inv L recs purges (restart_revocations st') \<and> (r = Inr () \<longrightarrow> process_inv L recs purges st')"
  using assms(2-)
proof (induction msgs arbitrary: st)
  case Nil
  then show ?case by (auto simp: process_inv_restart)
next
  case (Cons m msgs)
  obtain now signalled payload where m: "m = (now, signalled, payload)" by (cases m) auto
  have "drop (rc_position st) recs \<noteq> []" using Cons.prems(2) by (auto simp: m)
  then have more: "rc_position st < length recs" by simp
  then have d: "drop (rc_position st) recs = recs ! rc_position st # drop (Suc (rc_position st)) recs"
    by (simp add: Cons_nth_drop_Suc)
  have payload: "payload = recs ! rc_position st" and rest: "map (\<lambda>(_, _, payload). payload) msgs
      = take (length msgs) (drop (Suc (rc_position st)) recs)"
    using Cons.prems(2) by (simp_all add: m d)
  obtain r1 db1 where r1: "apply_revocation L now (recs ! rc_position st) (rc_db st) = (r1, db1)" by fastforce
  note M = process_inv_message[OF law Cons.prems(1) more r1]
  show ?case
  proof (cases r1)
    case (Inl e)
    then have "r = Inl e" "st' = st\<lparr>rc_db := db1, rc_position := Suc (rc_position st)\<rparr>"
      using Cons.prems(3) r1 by (auto simp: m payload)
    moreover have "restart_revocations (st\<lparr>rc_db := db1, rc_position := Suc (rc_position st)\<rparr>)
        = restart_revocations (st\<lparr>rc_db := db1\<rparr>)"
      by (simp add: restart_revocations_def)
    ultimately show ?thesis using process_inv_restart[OF M(1)] by simp
  next
    case (Inr ok)
    let ?st = "st\<lparr>rc_db := db1, rc_position := Suc (rc_position st), rc_committed := Suc (rc_position st)\<rparr>"
    from M(2)[OF Inr] have ok and inv1: "process_inv L recs purges ?st" by auto
    then have "revocation_messages L (m # msgs) st = (if signalled \<or> \<not> rc_running st
        then (Inr (), if signalled then stop_revocations ?st else ?st) else revocation_messages L msgs ?st)"
      using r1 Inr by (simp add: m payload Let_def stop_revocations_def)
    then show ?thesis
      using Cons.prems(3) inv1 Cons.IH[OF inv1] rest
      by (auto simp: process_inv_stop process_inv_restart split: if_splits)
  qed
qed

text \<open>A purge drops rows whose expiry the log gives.\<close>

lemma process_inv_purge:
  assumes inv: "process_inv L recs purges st"
  shows "process_inv L recs (purges @ [now]) (st\<lparr>rc_db := snd (purge_expired_revocations now (rc_db st))\<rparr>)"
proof -
  note I = process_invD[OF inv]
  let ?db = "snd (purge_expired_revocations now (rc_db st))"
  have rows: "pdb_revoked ?db = filter (\<lambda>r. \<not> rv_expires_at r \<le> now) (pdb_revoked (rc_db st))"
    by (simp add: purge_db)
  have "in_force L recs (purges @ [now]) ?db k" if k: "in_force L recs purges (rc_db st) k" for k
    using k unfolding in_force_def
  proof
    assume "k \<in> rv_token_id ` set (pdb_revoked (rc_db st))"
    then obtain r where r: "r \<in> set (pdb_revoked (rc_db st))" "k = rv_token_id r" by blast
    then show "k \<in> rv_token_id ` set (pdb_revoked ?db) \<or> (\<exists>t. names L recs k t \<and> (\<exists>now\<in>set (purges @ [now]). t \<le> now))"
      using I(4)[OF r(1)] by (cases "rv_expires_at r \<le> now") (auto simp: rows)
  qed auto
  moreover have "posts_db_ok ?db"
    using I(1) by (auto simp: purge_db posts_db_ok_def list_all_iff distinct_map_filter_key)
  ultimately show ?thesis
    using I by (auto simp: process_inv_def rows)
qed

lemma process_step_inv:
  assumes law: "parse_datetime_law L" and "process_step L s s'" and inv: "process_inv L (vp_log s) (vp_purges s) (vp_state s)"
  shows "process_inv L (vp_log s') (vp_purges s') (vp_state s')"
  using assms(2) inv
proof (induction rule: process_step.induct)
  case (round s msgs now st')
  then obtain st1 where st1: "revocation_messages L msgs (vp_state s) = (Inr (), st1)"
    "st' = st1\<lparr>rc_db := snd (purge_expired_revocations now (rc_db st1))\<rparr>"
    by (auto simp: revocation_round_def split: prod.splits sum.splits)
  have "process_inv L (vp_log s) (vp_purges s) st1"
    using process_inv_messages[OF law round.prems _ st1(1)] round.hyps(2) by (simp add: next_records_def)
  then show ?case using process_inv_purge st1(2) by simp
next
  case (interrupted msgs s r st')
  then show ?case
    using process_inv_messages[OF law interrupted.prems _ interrupted.hyps(2)] by (simp add: next_records_def)
next
  case (crash_before_commit s now db')
  from process_inv_message(1)[OF law crash_before_commit.prems crash_before_commit.hyps]
  show ?case by (simp add: process_inv_restart)
qed (simp_all add: process_inv_append process_inv_db process_inv_restart)

lemma process_reachable_inv:
  assumes "parse_datetime_law L" "process_reachable L s"
  shows "process_inv L (vp_log s) (vp_purges s) (vp_state s)"
  using assms(2)
proof (induction rule: process_reachable.induct)
  case start
  show ?case by (simp add: new_process_def process_inv_def empty_posts_db_def posts_db_ok_def)
next
  case (step s s')
  show ?case by (rule process_step_inv[OF assms(1) step.hyps(2) step.IH])
qed

subsection \<open>What holds of the process\<close>

lemma committed_in_force:
  assumes "parse_datetime_law L" "process_reachable L s" "off < rc_committed (vp_state s)"
    and "revocation_of L (vp_log s ! off) = Some (k, u, t)" "k \<noteq> []"
    and "\<forall>t'. names L (vp_log s) k t' \<longrightarrow> (\<forall>now\<in>set (vp_purges s). now < t')"
  shows "is_denied L (rc_db (vp_state s)) k"
proof -
  from process_invD(5)[OF process_reachable_inv[OF assms(1,2)] assms(3,4)]
  have "in_force L (vp_log s) (vp_purges s) (rc_db (vp_state s)) k" .
  then show ?thesis
    using assms(5,6) unfolding in_force_def is_denied_iff by (meson not_le)
qed

definition revoked_process :: revocation_process where
  "revoked_process = \<lparr>vp_log = [JNull, sample_revocation],
     vp_state = \<lparr>rc_db = empty_posts_db\<lparr>pdb_revoked := [\<lparr>rv_token_id = ''t1'', rv_user_id = ''me'', rv_expires_at = Timestamp 100, rv_revoked_at = Timestamp 2\<rparr>]\<rparr>,
       rc_position = 2, rc_committed = 2, rc_running = True\<rparr>, vp_purges = [Timestamp 3]\<rparr>"

lemma revoked_process_reachable: "process_reachable plain_revocation_lib revoked_process"
proof -
  let ?msgs = "[(Timestamp 1, False, JNull), (Timestamp 2, False, sample_revocation)]"
  let ?s = "new_process\<lparr>vp_log := [JNull, sample_revocation]\<rparr>"
  have s: "process_reachable plain_revocation_lib ?s"
    using process_reachable.step[OF process_reachable.step[OF process_reachable.start process_step.publish[where payload = JNull]]
        process_step.publish[where payload = sample_revocation]]
    by (simp add: new_process_def)
  have null: "apply_revocation plain_revocation_lib (Timestamp 1) JNull empty_posts_db = (Inr True, empty_posts_db)"
    by (simp add: apply_revocation_def malformed_def)
  have "posts_db_ok empty_posts_db" by (simp add: posts_db_ok_def empty_posts_db_def)
  from apply_revocation_stored[OF this sample_revocation_of, of "Timestamp 2"]
  have stored: "apply_revocation plain_revocation_lib (Timestamp 2) sample_revocation empty_posts_db
      = (Inr True, rc_db (vp_state revoked_process))"
    by (simp add: deny_row_def empty_posts_db_def revoked_process_def)
  have round: "revocation_round plain_revocation_lib (Timestamp 3) ?msgs (vp_state ?s) = (Inr (), vp_state revoked_process)"
    by (simp add: revocation_round_def new_process_def null stored Let_def purge_db)
      (simp add: revoked_process_def empty_posts_db_def)
  have "process_step plain_revocation_lib ?s (?s\<lparr>vp_state := vp_state revoked_process, vp_purges := vp_purges ?s @ [Timestamp 3]\<rparr>)"
    by (rule process_step.round[OF _ _ round]) (simp_all add: new_process_def next_records_def)
  from process_reachable.step[OF s this] show ?thesis
    by (simp add: new_process_def revoked_process_def)
qed

lemma revoked_process_names: "names plain_revocation_lib (vp_log revoked_process) k t \<Longrightarrow> k = ''t1'' \<and> t = Timestamp 100"
  by (auto simp: names_def revoked_process_def revocation_of_def[of _ JNull])

text \<open>
  A committed revocation is in force. In every state the process can reach, through malformed
  messages, exceptions, signals, crashes between any two commits and restarts, a revocation below
  the committed offset denies its token, until a purge runs at or after an expiry that
  the log gives for that token.
\<close>

lemma committed_revocation_in_force:
  assumes "parse_datetime_law L" "process_reachable L s" "off < rc_committed (vp_state s)"
    and "revocation_of L (vp_log s ! off) = Some (k, u, t)" "k \<noteq> []"
    and "\<forall>t'. names L (vp_log s) k t' \<longrightarrow> (\<forall>now\<in>set (vp_purges s). now < t')"
  shows "is_denied L (rc_db (vp_state s)) k \<and> rc_committed (vp_state s) \<le> length (vp_log s)"
  using committed_in_force[OF assms] process_invD(2,3)[OF process_reachable_inv[OF assms(1,2)]] by simp

lemma committed_revocation_in_force_witness:
  "is_denied plain_revocation_lib (rc_db (vp_state revoked_process)) ''t1''
    \<and> rc_committed (vp_state revoked_process) \<le> length (vp_log revoked_process)"
proof (rule committed_revocation_in_force[OF plain_revocation_law revoked_process_reachable])
  show "1 < rc_committed (vp_state revoked_process)" by (simp add: revoked_process_def)
  show "revocation_of plain_revocation_lib (vp_log revoked_process ! 1) = Some (''t1'', ''me'', Timestamp 100)"
    by (simp add: revoked_process_def)
  have "vp_purges revoked_process = [Timestamp 3]" by (simp add: revoked_process_def)
  then show "\<forall>t'. names plain_revocation_lib (vp_log revoked_process) ''t1'' t' \<longrightarrow> (\<forall>now\<in>set (vp_purges revoked_process). now < t')"
    by (auto dest!: revoked_process_names)
qed simp

text \<open>
  The denylist invents nothing: in every reachable state each row of it is a revocation of the log, with
  its token and expiry, and the constraints of the database hold.
\<close>

lemma denylist_comes_from_the_log:
  assumes "parse_datetime_law L" "process_reachable L s"
  shows "posts_db_ok (rc_db (vp_state s)) \<and> (\<forall>r\<in>set (pdb_revoked (rc_db (vp_state s))).
    \<exists>payload\<in>set (vp_log s). \<exists>u. revocation_of L payload = Some (rv_token_id r, u, rv_expires_at r))"
  using process_invD(1,4)[OF process_reachable_inv[OF assms]] by (auto simp: names_def)

lemma denylist_comes_from_the_log_witness:
  "\<forall>r\<in>set (pdb_revoked (rc_db (vp_state revoked_process))). \<exists>payload\<in>{JNull, sample_revocation}. \<exists>u.
     revocation_of plain_revocation_lib payload = Some (rv_token_id r, u, rv_expires_at r)"
  using denylist_comes_from_the_log[OF plain_revocation_law revoked_process_reachable]
  by (simp add: revoked_process_def)

end
