(* ===== verification/Schema.thy ===== *)
theory Schema
  imports PostsService RelatedApp
begin

section \<open>The schemas of the two databases and their migrations\<close>

text \<open>
  The Django models and migrations of the posts service (posts/models.py, posts/apps.py,
  posts/migrations), and the SQLAlchemy models and Alembic revisions of the related service
  (related/app.py, related/migrations/versions). Migrations are executed on a description of the
  schema; the constraints the other theories put on rows are read off the migrated schema.
\<close>

subsection \<open>Django: models\<close>

datatype django_type = BigAutoField | CharField nat | TextField nat | SlugField nat | DateTimeField
  | UUIDField | JSONField

record django_field =
  df_type :: django_type
  df_primary_key :: bool
  df_unique :: bool
  df_null :: bool
  df_blank :: bool
  df_auto_now :: bool
  df_auto_now_add :: bool
  df_editable :: bool
  df_default :: "string option"

definition field :: "django_type \<Rightarrow> django_field" where
  "field t = \<lparr>df_type = t, df_primary_key = False, df_unique = False, df_null = False, df_blank = False,
     df_auto_now = False, df_auto_now_add = False, df_editable = True, df_default = None\<rparr>"

record django_index =
  ix_fields :: "string list"
  ix_name :: string
  ix_condition :: "string option"

record django_model =
  dm_fields :: "(string \<times> django_field) list"
  dm_ordering :: "string list"
  dm_indexes :: "django_index list"

text \<open>\<open>default_auto_field\<close> of the application: the key of a model that declares none.\<close>

definition with_primary_key :: "(string \<times> django_field) list \<Rightarrow> (string \<times> django_field) list" where
  "with_primary_key fs =
     (if list_ex (\<lambda>(_, f). df_primary_key f) fs then fs
      else (''id'', (field BigAutoField)\<lparr>df_primary_key := True\<rparr>) # fs)"

definition Post_model :: django_model where
  "Post_model =
     \<lparr>dm_fields = with_primary_key
        [(''title'', field (CharField 200)),
         (''image'', (field (CharField 250))\<lparr>df_blank := True\<rparr>),
         (''body'', field (TextField 1500)),
         (''slug'', (field (SlugField 200))\<lparr>df_unique := True\<rparr>),
         (''created_at'', (field DateTimeField)\<lparr>df_auto_now_add := True\<rparr>),
         (''updated_at'', (field DateTimeField)\<lparr>df_auto_now := True\<rparr>)],
      dm_ordering = [''-created_at'', ''-id''], dm_indexes = []\<rparr>"

definition OutboxEvent_model :: django_model where
  "OutboxEvent_model =
     \<lparr>dm_fields = with_primary_key
        [(''id'', (field UUIDField)\<lparr>df_primary_key := True, df_editable := False, df_default := Some ''uuid.uuid4''\<rparr>),
         (''topic'', field (CharField 100)),
         (''key'', field (CharField 200)),
         (''payload'', field JSONField),
         (''created_at'', (field DateTimeField)\<lparr>df_auto_now_add := True\<rparr>),
         (''published_at'', (field DateTimeField)\<lparr>df_null := True, df_blank := True\<rparr>)],
      dm_ordering = [],
      dm_indexes = [\<lparr>ix_fields = [''created_at''], ix_name = ''outbox_unpublished_idx'',
                     ix_condition = Some ''published_at__isnull''\<rparr>]\<rparr>"

definition RevokedToken_model :: django_model where
  "RevokedToken_model =
     \<lparr>dm_fields = with_primary_key
        [(''token_id'', (field (CharField 64))\<lparr>df_primary_key := True\<rparr>),
         (''user_id'', field (CharField 64)),
         (''expires_at'', field DateTimeField),
         (''revoked_at'', (field DateTimeField)\<lparr>df_auto_now_add := True\<rparr>)],
      dm_ordering = [],
      dm_indexes = [\<lparr>ix_fields = [''expires_at''], ix_name = ''revoked_expires_idx'', ix_condition = None\<rparr>]\<rparr>"

definition posts_models :: "(string \<times> django_model) list" where
  "posts_models = [(''Post'', Post_model), (''OutboxEvent'', OutboxEvent_model), (''RevokedToken'', RevokedToken_model)]"

subsection \<open>Django: migrations\<close>

datatype operation = CreateModel string django_model

record migration =
  mg_name :: string
  mg_dependencies :: "string list"
  mg_operations :: "operation list"

definition migration_0001_initial :: migration where
  "migration_0001_initial =
     \<lparr>mg_name = ''0001_initial'', mg_dependencies = [],
      mg_operations =
        [CreateModel ''Post''
           \<lparr>dm_fields =
              [(''id'', (field BigAutoField)\<lparr>df_primary_key := True\<rparr>),
               (''title'', field (CharField 200)),
               (''image'', (field (CharField 250))\<lparr>df_blank := True\<rparr>),
               (''body'', field (TextField 1500)),
               (''slug'', (field (SlugField 200))\<lparr>df_unique := True\<rparr>),
               (''created_at'', (field DateTimeField)\<lparr>df_auto_now_add := True\<rparr>),
               (''updated_at'', (field DateTimeField)\<lparr>df_auto_now := True\<rparr>)],
            dm_ordering = [''-created_at'', ''-id''], dm_indexes = []\<rparr>,
         CreateModel ''OutboxEvent''
           \<lparr>dm_fields =
              [(''id'', (field UUIDField)\<lparr>df_default := Some ''uuid.uuid4'', df_editable := False, df_primary_key := True\<rparr>),
               (''topic'', field (CharField 100)),
               (''key'', field (CharField 200)),
               (''payload'', field JSONField),
               (''created_at'', (field DateTimeField)\<lparr>df_auto_now_add := True\<rparr>),
               (''published_at'', (field DateTimeField)\<lparr>df_blank := True, df_null := True\<rparr>)],
            dm_ordering = [],
            dm_indexes = [\<lparr>ix_fields = [''created_at''], ix_name = ''outbox_unpublished_idx'',
                           ix_condition = Some ''published_at__isnull''\<rparr>]\<rparr>]\<rparr>"

definition migration_0002_revokedtoken :: migration where
  "migration_0002_revokedtoken =
     \<lparr>mg_name = ''0002_revokedtoken'', mg_dependencies = [''0001_initial''],
      mg_operations =
        [CreateModel ''RevokedToken''
           \<lparr>dm_fields =
              [(''token_id'', (field (CharField 64))\<lparr>df_primary_key := True\<rparr>),
               (''user_id'', field (CharField 64)),
               (''expires_at'', field DateTimeField),
               (''revoked_at'', (field DateTimeField)\<lparr>df_auto_now_add := True\<rparr>)],
            dm_ordering = [],
            dm_indexes = [\<lparr>ix_fields = [''expires_at''], ix_name = ''revoked_expires_idx'', ix_condition = None\<rparr>]\<rparr>]\<rparr>"

text \<open>
  A migration that is recorded is skipped; one whose dependency is missing is an error, as is
  creating a table that exists.
\<close>

record migration_state =
  ms_applied :: "string list"
  ms_models :: "(string \<times> django_model) list"

fun run_operations :: "operation list \<Rightarrow> (string \<times> django_model) list \<Rightarrow> (string \<times> django_model) list res" where
  "run_operations [] models = Inr models"
| "run_operations (CreateModel name m # ops) models =
     (if map_of models name \<noteq> None then Inl DatabaseError else run_operations ops (models @ [(name, m)]))"

fun migrate :: "migration list \<Rightarrow> migration_state \<Rightarrow> migration_state res" where
  "migrate [] st = Inr st"
| "migrate (m # ms) st =
     (if mg_name m \<in> set (ms_applied st) then migrate ms st
      else if \<not> set (mg_dependencies m) \<subseteq> set (ms_applied st) then Inl OtherError
      else try_then (run_operations (mg_operations m) (ms_models st)) (\<lambda>models.
        migrate ms \<lparr>ms_applied = ms_applied st @ [mg_name m], ms_models = models\<rparr>))"

definition posts_migrations :: "migration list" where
  "posts_migrations = [migration_0001_initial, migration_0002_revokedtoken]"

text \<open>A migrated database is not migrated again.\<close>

lemma migrate_applied: "\<forall>m\<in>set ms. mg_name m \<in> set (ms_applied st) \<Longrightarrow> migrate ms st = Inr st"
  by (induction ms) auto

lemma migrate_fresh:
  "migrate posts_migrations \<lparr>ms_applied = [], ms_models = []\<rparr>
   = Inr \<lparr>ms_applied = [''0001_initial'', ''0002_revokedtoken''], ms_models = posts_models\<rparr>"
  by (simp add: posts_migrations_def migration_0001_initial_def migration_0002_revokedtoken_def posts_models_def
      Post_model_def OutboxEvent_model_def RevokedToken_model_def with_primary_key_def field_def)

text \<open>The text columns of a model: a value longer than \<open>max_length\<close> does not fit a varchar.\<close>

fun varchar :: "django_type \<Rightarrow> nat option" where
  "varchar (CharField n) = Some n"
| "varchar (SlugField n) = Some n"
| "varchar _ = None"

definition text_fits :: "django_model \<Rightarrow> (string \<times> string) list \<Rightarrow> bool" where
  "text_fits m values \<longleftrightarrow> list_all (\<lambda>(name, f). case varchar (df_type f) of
      None \<Rightarrow> True | Some n \<Rightarrow> (case map_of values name of None \<Rightarrow> True | Some s \<Rightarrow> length s \<le> n)) (dm_fields m)"

lemma row_widths:
  "post_row_ok p \<longleftrightarrow> text_fits Post_model [(''title'', p_title p), (''image'', p_image p), (''slug'', p_slug p)]"
  "outbox_row_ok e \<longleftrightarrow> text_fits OutboxEvent_model [(''topic'', o_topic e), (''key'', o_key e)]"
  "revoked_row_ok r \<longleftrightarrow> text_fits RevokedToken_model [(''token_id'', rv_token_id r), (''user_id'', rv_user_id r)]"
  by (auto simp: post_row_ok_def outbox_row_ok_def revoked_row_ok_def text_fits_def Post_model_def
      OutboxEvent_model_def RevokedToken_model_def with_primary_key_def field_def)

subsection \<open>SQLAlchemy: models\<close>

datatype sa_type = Integer | String nat | JSONB | DateTime

text \<open>A column of a model; \<open>nullable\<close> is the complement of \<open>primary_key\<close> unless it is given.\<close>

record model_column =
  mc_name :: string
  mc_type :: sa_type
  mc_primary_key :: bool
  mc_nullable :: "bool option"
  mc_unique :: bool
  mc_index :: bool

definition Column :: "string \<Rightarrow> sa_type \<Rightarrow> model_column" where
  "Column name t = \<lparr>mc_name = name, mc_type = t, mc_primary_key = False, mc_nullable = None,
     mc_unique = False, mc_index = False\<rparr>"

record sa_table =
  st_columns :: "(string \<times> sa_type \<times> bool) list"
  st_primary_key :: "string list"
  st_indexes :: "(string \<times> string list \<times> bool) list"

type_synonym schema = "(string \<times> sa_table) list"

text \<open>The table of a model; an index is called ix, table, column (Alembic's naming, \<open>batch_op.f\<close>).\<close>

definition table_of :: "string \<Rightarrow> model_column list \<Rightarrow> string \<times> sa_table" where
  "table_of name cols =
     (name, \<lparr>st_columns = map (\<lambda>c. (mc_name c, mc_type c,
               case mc_nullable c of None \<Rightarrow> \<not> mc_primary_key c | Some n \<Rightarrow> n)) cols,
            st_primary_key = map mc_name (filter mc_primary_key cols),
            st_indexes = map (\<lambda>c. (''ix_'' @ name @ ''_'' @ mc_name c, [mc_name c], mc_unique c)) (filter mc_index cols)\<rparr>)"

definition related_metadata :: schema where
  "related_metadata =
     [table_of ''post''
        [(Column ''id'' Integer)\<lparr>mc_primary_key := True\<rparr>,
         (Column ''title'' (String 200))\<lparr>mc_nullable := Some False\<rparr>,
         Column ''image'' (String 250),
         Column ''body'' (String 1500),
         (Column ''slug'' (String 250))\<lparr>mc_nullable := Some False, mc_unique := True, mc_index := True\<rparr>,
         (Column ''related'' JSONB)\<lparr>mc_nullable := Some False\<rparr>,
         (Column ''add_date'' DateTime)\<lparr>mc_nullable := Some False\<rparr>],
      table_of ''processed_events''
        [(Column ''event_id'' (String 64))\<lparr>mc_primary_key := True\<rparr>,
         (Column ''topic'' (String 100))\<lparr>mc_nullable := Some False\<rparr>,
         (Column ''processed_at'' DateTime)\<lparr>mc_nullable := Some False\<rparr>],
      table_of ''revoked_tokens''
        [(Column ''token_id'' (String 64))\<lparr>mc_primary_key := True\<rparr>,
         (Column ''user_id'' (String 64))\<lparr>mc_nullable := Some False\<rparr>,
         (Column ''expires_at'' DateTime)\<lparr>mc_nullable := Some False, mc_index := True\<rparr>,
         (Column ''revoked_at'' DateTime)\<lparr>mc_nullable := Some False\<rparr>]]"

subsection \<open>Alembic: operations and revisions\<close>

definition create_table :: "string \<Rightarrow> (string \<times> sa_type \<times> bool) list \<Rightarrow> string list \<Rightarrow> schema \<Rightarrow> schema res" where
  "create_table name cols key s =
     (if map_of s name \<noteq> None then Inl SQLAlchemyError
      else Inr (s @ [(name, \<lparr>st_columns = cols, st_primary_key = key, st_indexes = []\<rparr>)]))"

definition drop_table :: "string \<Rightarrow> schema \<Rightarrow> schema res" where
  "drop_table name s =
     (if map_of s name = None then Inl SQLAlchemyError else Inr (filter (\<lambda>(n, _). n \<noteq> name) s))"

definition index_exists :: "string \<Rightarrow> schema \<Rightarrow> bool" where
  "index_exists ix s = list_ex (\<lambda>(_, t). map_of (st_indexes t) ix \<noteq> None) s"

definition create_index :: "string \<Rightarrow> string \<Rightarrow> string list \<Rightarrow> bool \<Rightarrow> schema \<Rightarrow> schema res" where
  "create_index name ix cols unique s =
     (if map_of s name = None \<or> index_exists ix s then Inl SQLAlchemyError
      else Inr (map (\<lambda>(n, t). if n = name then (n, t\<lparr>st_indexes := st_indexes t @ [(ix, cols, unique)]\<rparr>) else (n, t)) s))"

definition drop_index :: "string \<Rightarrow> string \<Rightarrow> schema \<Rightarrow> schema res" where
  "drop_index name ix s =
     (case map_of s name of
        None \<Rightarrow> Inl SQLAlchemyError
      | Some t \<Rightarrow>
          if map_of (st_indexes t) ix = None then Inl SQLAlchemyError
          else Inr (map (\<lambda>(n, t). if n = name then (n, t\<lparr>st_indexes := filter (\<lambda>(i, _). i \<noteq> ix) (st_indexes t)\<rparr>)
                                  else (n, t)) s))"

definition upgrade_3eeb74668e09 :: "schema \<Rightarrow> schema res" where
  "upgrade_3eeb74668e09 s =
     try_then (create_table ''post''
        [(''id'', Integer, False), (''title'', String 200, False), (''image'', String 250, True),
         (''body'', String 1500, True), (''slug'', String 250, False), (''related'', JSONB, False),
         (''add_date'', DateTime, False)] [''id''] s) (\<lambda>s.
     try_then (create_index ''post'' ''ix_post_slug'' [''slug''] True s) (\<lambda>s.
       create_table ''processed_events''
         [(''event_id'', String 64, False), (''topic'', String 100, False), (''processed_at'', DateTime, False)]
         [''event_id''] s))"

definition downgrade_3eeb74668e09 :: "schema \<Rightarrow> schema res" where
  "downgrade_3eeb74668e09 s =
     try_then (drop_table ''processed_events'' s) (\<lambda>s.
     try_then (drop_index ''post'' ''ix_post_slug'' s) (\<lambda>s.
       drop_table ''post'' s))"

definition upgrade_85448ad485c1 :: "schema \<Rightarrow> schema res" where
  "upgrade_85448ad485c1 s =
     try_then (create_table ''revoked_tokens''
        [(''token_id'', String 64, False), (''user_id'', String 64, False), (''expires_at'', DateTime, False),
         (''revoked_at'', DateTime, False)] [''token_id''] s) (\<lambda>s.
       create_index ''revoked_tokens'' ''ix_revoked_tokens_expires_at'' [''expires_at''] False s)"

definition downgrade_85448ad485c1 :: "schema \<Rightarrow> schema res" where
  "downgrade_85448ad485c1 s =
     try_then (drop_index ''revoked_tokens'' ''ix_revoked_tokens_expires_at'' s) (\<lambda>s.
       drop_table ''revoked_tokens'' s)"

record revision =
  rev_id :: string
  rev_down :: "string option"
  rev_upgrade :: "schema \<Rightarrow> schema res"
  rev_downgrade :: "schema \<Rightarrow> schema res"

definition related_revisions :: "revision list" where
  "related_revisions =
     [\<lparr>rev_id = ''85448ad485c1'', rev_down = Some ''3eeb74668e09'',
       rev_upgrade = upgrade_85448ad485c1, rev_downgrade = downgrade_85448ad485c1\<rparr>,
      \<lparr>rev_id = ''3eeb74668e09'', rev_down = None,
       rev_upgrade = upgrade_3eeb74668e09, rev_downgrade = downgrade_3eeb74668e09\<rparr>]"

text \<open>Alembic follows \<open>down_revision\<close> from the recorded version; fuel is the number of revisions.\<close>

fun upgrade_head :: "nat \<Rightarrow> revision list \<Rightarrow> string option \<times> schema \<Rightarrow> (string option \<times> schema) res" where
  "upgrade_head 0 revs (ver, s) = Inr (ver, s)"
| "upgrade_head (Suc n) revs (ver, s) =
     (case find (\<lambda>r. rev_down r = ver) revs of
        None \<Rightarrow> Inr (ver, s)
      | Some r \<Rightarrow> try_then (rev_upgrade r s) (\<lambda>s'. upgrade_head n revs (Some (rev_id r), s')))"

fun downgrade_base :: "nat \<Rightarrow> revision list \<Rightarrow> string option \<times> schema \<Rightarrow> (string option \<times> schema) res" where
  "downgrade_base 0 revs (ver, s) = Inr (ver, s)"
| "downgrade_base (Suc n) revs (ver, s) =
     (case find (\<lambda>r. Some (rev_id r) = ver) revs of
        None \<Rightarrow> Inr (ver, s)
      | Some r \<Rightarrow> try_then (rev_downgrade r s) (\<lambda>s'. downgrade_base n revs (rev_down r, s')))"

lemmas schema_ops = create_table_def drop_table_def create_index_def drop_index_def index_exists_def

text \<open>An upgrade from the empty schema arrives at the tables of the models, in two revisions.\<close>

lemma upgrade_fresh:
  "upgrade_head (length related_revisions) related_revisions (None, [])
   = Inr (Some ''85448ad485c1'', related_metadata)"
  by (simp add: related_revisions_def upgrade_3eeb74668e09_def upgrade_85448ad485c1_def schema_ops
      related_metadata_def table_of_def Column_def)

lemma filter_absent: "map_of s n = None \<Longrightarrow> filter (\<lambda>(m, _). m \<noteq> n) s = s"
  by (induction s) (auto split: if_splits)

lemma map_absent: "map_of s n = None \<Longrightarrow> map (\<lambda>(m, t). if m = n then f m t else (m, t)) s = s"
  by (induction s) (auto split: if_splits)

text \<open>A downgrade takes an upgrade back, whatever else the database holds.\<close>

lemma downgrade_85448ad485c1_upgrade:
  assumes "map_of s ''revoked_tokens'' = None" "\<not> index_exists ''ix_revoked_tokens_expires_at'' s"
  shows "try_then (upgrade_85448ad485c1 s) downgrade_85448ad485c1 = Inr s"
  using assms
  by (simp add: upgrade_85448ad485c1_def downgrade_85448ad485c1_def schema_ops map_add_def
      filter_absent map_absent)

lemma downgrade_3eeb74668e09_upgrade:
  assumes "map_of s ''post'' = None" "map_of s ''processed_events'' = None" "\<not> index_exists ''ix_post_slug'' s"
  shows "try_then (upgrade_3eeb74668e09 s) downgrade_3eeb74668e09 = Inr s"
  using assms
  by (simp add: upgrade_3eeb74668e09_def downgrade_3eeb74668e09_def schema_ops map_add_def
      filter_absent map_absent)

subsection \<open>The migrated schema and the rows\<close>

datatype sa_value = VInt int | VText "string option" | VJson | VTime

fun value_fits :: "sa_type \<Rightarrow> bool \<Rightarrow> sa_value \<Rightarrow> bool" where
  "value_fits Integer nullable (VInt i) = int32 i"
| "value_fits (String n) nullable (VText None) = nullable"
| "value_fits (String n) nullable (VText (Some s)) = (length s \<le> n)"
| "value_fits JSONB nullable VJson = True"
| "value_fits DateTime nullable VTime = True"
| "value_fits _ _ _ = False"

definition row_fits :: "schema \<Rightarrow> string \<Rightarrow> sa_value list \<Rightarrow> bool" where
  "row_fits s name values \<longleftrightarrow>
     (case map_of s name of
        None \<Rightarrow> False
      | Some t \<Rightarrow> list_all2 (\<lambda>(_, ty, nullable) v. value_fits ty nullable v) (st_columns t) values)"

lemma related_row_widths:
  "post_ok r \<longleftrightarrow> row_fits related_metadata ''post''
     [VInt (rp_id r), VText (Some (rp_title r)), VText (rp_image r), VText (rp_body r), VText (Some (rp_slug r)), VJson, VTime]"
  "processed_ok e \<longleftrightarrow> row_fits related_metadata ''processed_events'' [VText (Some (pe_event_id e)), VText (Some (pe_topic e)), VTime]"
  "revoked_ok t \<longleftrightarrow> row_fits related_metadata ''revoked_tokens''
     [VText (Some (rt_token_id t)), VText (Some (rt_user_id t)), VTime, VTime]"
  by (auto simp: post_ok_def processed_ok_def revoked_ok_def row_fits_def related_metadata_def table_of_def
      Column_def fits_def split: option.splits)

subsection \<open>What holds of the migrations\<close>

text \<open>The migrations of the posts service build the models it declares, and only once.\<close>

lemma posts_migrations_build_the_models:
  "migrate posts_migrations \<lparr>ms_applied = [], ms_models = []\<rparr>
     = Inr \<lparr>ms_applied = map mg_name posts_migrations, ms_models = posts_models\<rparr>
   \<and> migrate posts_migrations \<lparr>ms_applied = map mg_name posts_migrations, ms_models = posts_models\<rparr>
     = Inr \<lparr>ms_applied = map mg_name posts_migrations, ms_models = posts_models\<rparr>"
  using migrate_fresh migrate_applied[of posts_migrations "\<lparr>ms_applied = map mg_name posts_migrations, ms_models = posts_models\<rparr>"]
  by (simp add: posts_migrations_def migration_0001_initial_def migration_0002_revokedtoken_def)

text \<open>
  The revisions of the related service lead from the empty database to the tables, keys, nullability
  and indexes its models declare, and the constraints on rows that the other theories assume are those
  of the migrated columns.
\<close>

lemma related_revisions_build_the_models:
  "\<exists>s. upgrade_head (length related_revisions) related_revisions (None, []) = Inr (Some ''85448ad485c1'', s)
    \<and> s = related_metadata
    \<and> (\<forall>r. post_ok r \<longleftrightarrow> row_fits s ''post''
         [VInt (rp_id r), VText (Some (rp_title r)), VText (rp_image r), VText (rp_body r), VText (Some (rp_slug r)), VJson, VTime])
    \<and> (\<forall>e. processed_ok e \<longleftrightarrow> row_fits s ''processed_events'' [VText (Some (pe_event_id e)), VText (Some (pe_topic e)), VTime])
    \<and> (\<forall>t. revoked_ok t \<longleftrightarrow> row_fits s ''revoked_tokens''
         [VText (Some (rt_token_id t)), VText (Some (rt_user_id t)), VTime, VTime])"
  using upgrade_fresh related_row_widths by simp

text \<open>
  Each revision can be taken back: on any schema without its tables and index, the downgrade after
  the upgrade gives the schema it started from.
\<close>

lemma downgrades_undo_upgrades:
  assumes "\<forall>t\<in>{''post'', ''processed_events'', ''revoked_tokens''}. map_of s t = None"
    and "\<forall>i\<in>{''ix_post_slug'', ''ix_revoked_tokens_expires_at''}. \<not> index_exists i s"
  shows "try_then (upgrade_3eeb74668e09 s) downgrade_3eeb74668e09 = Inr s
    \<and> try_then (upgrade_85448ad485c1 s) downgrade_85448ad485c1 = Inr s"
  using downgrade_3eeb74668e09_upgrade[of s] downgrade_85448ad485c1_upgrade[of s] assms by simp

lemma downgrades_undo_upgrades_witness:
  "try_then (upgrade_3eeb74668e09 []) downgrade_3eeb74668e09 = Inr []
    \<and> try_then (upgrade_85448ad485c1 []) downgrade_85448ad485c1 = Inr []"
  by (rule downgrades_undo_upgrades) (simp_all add: index_exists_def)

end
