(* ===== verification/AlembicEnv.thy ===== *)
theory AlembicEnv
  imports Schema
begin

section \<open>The migration environment of the related service (services/related/migrations/env.py)\<close>

text \<open>
  env.py puts the database URL into Alembic's configuration and runs the migrations, offline (as a
  script) or online. The configuration is a \<open>ConfigParser\<close>, whose interpolation is modelled. Alembic
  is not under src: \<open>context.run_migrations\<close> is a parameter, which gets what \<open>context.configure\<close> was
  given; what its \<open>begin_transaction\<close> promises is that an exception undoes what ran inside.
\<close>

subsection \<open>Interpolation of configuration values\<close>

text \<open>
  A reference \<open>%(name)s\<close>, read from the text after \<open>%(\<close>: the name and what follows the reference.
\<close>

definition read_ref :: "string \<Rightarrow> (string \<times> string) option" where
  "read_ref s =
     (let name = takeWhile (\<lambda>c. c \<noteq> CHR '')'') s; rest = drop (length name) s
      in if name \<noteq> [] \<and> take 2 rest = '')s'' then Some (name, drop 2 rest) else None)"

lemma read_ref_shorter: "read_ref s = Some (name, rest) \<Longrightarrow> length rest < length s"
  by (cases s) (auto simp: read_ref_def Let_def split: if_splits)

text \<open>\<open>BasicInterpolation.before_set\<close>: without pairs of percent signs and references no percent sign may remain.\<close>

fun drop_pairs :: "string \<Rightarrow> string" where
  "drop_pairs [] = []"
| "drop_pairs [c] = [c]"
| "drop_pairs (c # d # cs) = (if c = CHR ''%'' \<and> d = CHR ''%'' then drop_pairs cs else c # drop_pairs (d # cs))"

function drop_refs :: "string \<Rightarrow> string" where
  "drop_refs [] = []"
| "drop_refs (c # cs) =
     (if c = CHR ''%'' \<and> take 1 cs = ''('' then
        (case read_ref (drop 1 cs) of
           Some (name, rest) \<Rightarrow> drop_refs rest
         | None \<Rightarrow> c # drop_refs cs)
      else c # drop_refs cs)"
  by pat_completeness auto
termination
proof (relation "measure length")
  show "(rest, c # cs) \<in> measure length"
    if "read_ref (drop 1 cs) = Some x" "(name, rest) = x" for c :: char and cs x name rest
    using read_ref_shorter[of "drop 1 cs" name rest] that by auto
qed simp_all

definition before_set :: "string \<Rightarrow> string res" where
  "before_set value = (if CHR ''%'' \<in> set (drop_refs (drop_pairs value)) then Inl ValueError else Inr value)"

text \<open>
  \<open>before_get\<close>: pairs become one sign, references the value of their option, which may hold
  references again, to a depth of ten; anything else after a percent sign is an error.
\<close>

function interpolate :: "nat \<Rightarrow> (string \<rightharpoonup> string) \<Rightarrow> string \<Rightarrow> string res" where
  "interpolate d opts [] = Inr []"
| "interpolate d opts (c # cs) =
     (if c \<noteq> CHR ''%'' then try_then (interpolate d opts cs) (\<lambda>s. Inr (c # s))
      else if take 1 cs = ''%'' then try_then (interpolate d opts (drop 1 cs)) (\<lambda>s. Inr (CHR ''%'' # s))
      else if take 1 cs = ''('' then
        (case read_ref (drop 1 cs) of
           None \<Rightarrow> Inl OtherError
         | Some (name, rest) \<Rightarrow>
             (case opts (py_lower name) of
                None \<Rightarrow> Inl OtherError
              | Some v \<Rightarrow>
                  try_then (if CHR ''%'' \<in> set v
                            then (case d of 0 \<Rightarrow> Inl OtherError | Suc d' \<Rightarrow> interpolate d' opts v)
                            else Inr v) (\<lambda>v.
                  try_then (interpolate d opts rest) (\<lambda>s. Inr (v @ s)))))
      else Inl OtherError)"
  by pat_completeness auto
termination
proof (relation "measures [\<lambda>(d, _, _). d, \<lambda>(_, _, s). length s]")
  show "((d, opts, rest), (d, opts, c # cs)) \<in> measures [\<lambda>(d, _, _). d, \<lambda>(_, _, s). length s]"
    if "read_ref (drop 1 cs) = Some x" "(name, rest) = x" for d opts and c :: char and cs x name rest
    using read_ref_shorter[of "drop 1 cs" name rest] that by auto
qed auto

definition MAX_INTERPOLATION_DEPTH :: nat where
  "MAX_INTERPOLATION_DEPTH = 10"

type_synonym main_options = "string \<rightharpoonup> string"

definition set_main_option :: "string \<Rightarrow> string \<Rightarrow> main_options \<Rightarrow> main_options res" where
  "set_main_option name value opts = try_then (before_set value) (\<lambda>v. Inr (opts(py_lower name \<mapsto> v)))"

definition get_main_option :: "main_options \<Rightarrow> string \<Rightarrow> string option res" where
  "get_main_option opts name =
     (case opts (py_lower name) of
        None \<Rightarrow> Inr None
      | Some v \<Rightarrow> try_then (interpolate MAX_INTERPOLATION_DEPTH opts v) (\<lambda>v. Inr (Some v)))"

text \<open>\<open>str(url).replace('%', '%%')\<close>\<close>

definition escape_percent :: "string \<Rightarrow> string" where
  "escape_percent url = replace_char (CHR ''%'') ''%%'' url"

lemma escape_percent_simps [simp]:
  "escape_percent [] = []"
  "escape_percent (c # cs) = (if c = CHR ''%'' then ''%%'' else [c]) @ escape_percent cs"
  by (simp_all add: escape_percent_def replace_char_def)

lemma drop_pairs_escape: "drop_pairs (escape_percent url) = filter (\<lambda>c. c \<noteq> CHR ''%'') url"
proof (induction url)
  case (Cons c cs)
  have "drop_pairs (c # xs) = c # drop_pairs xs" if "c \<noteq> CHR ''%''" for xs
    using that by (cases xs) auto
  with Cons show ?case by auto
qed simp

lemma drop_refs_no_percent: "CHR ''%'' \<notin> set s \<Longrightarrow> drop_refs s = s"
  by (induction s) auto

lemma before_set_escape: "before_set (escape_percent url) = Inr (escape_percent url)"
  by (simp add: before_set_def drop_pairs_escape drop_refs_no_percent)

lemma interpolate_escape: "interpolate d opts (escape_percent url) = Inr url"
  by (induction url) auto

subsection \<open>Running the migrations\<close>

text \<open>What \<open>context.configure\<close> gets; the arguments Flask-Migrate adds (\<open>configure_args\<close>) are left out.\<close>

record configuration =
  cf_url :: "string option"
  cf_connection :: bool
  cf_metadata :: schema
  cf_literal_binds :: bool
  cf_hook :: bool

text \<open>
  The hook \<open>process_revision_directives\<close>: of an autogenerated revision that would do nothing no script
  is written. A directive is the list of its upgrade operations.
\<close>

definition process_revision_directives :: "bool \<Rightarrow> 'op list list \<Rightarrow> 'op list list res" where
  "process_revision_directives autogenerate directives =
     (if autogenerate then
        (case directives of
           [] \<Rightarrow> Inl OtherError
         | script # rest \<Rightarrow> if script = [] then Inr [] else Inr directives)
      else Inr directives)"

text \<open>No script is written for an autogenerated revision without operations; nothing else is dropped.\<close>

lemma process_revision_directives_Inr:
  "process_revision_directives autogenerate ds = Inr ds' \<Longrightarrow>
     ds' = (if autogenerate \<and> hd ds = [] then [] else ds) \<and> (autogenerate \<longrightarrow> ds \<noteq> [] \<and> (ds' \<noteq> [] \<longrightarrow> hd ds' \<noteq> []))"
  by (auto simp: process_revision_directives_def split: if_splits list.splits)

type_synonym 'db migrator = "configuration \<Rightarrow> 'db \<Rightarrow> unit res \<times> 'db"

definition begin_transaction :: "('db \<Rightarrow> unit res \<times> 'db) \<Rightarrow> 'db \<Rightarrow> unit res \<times> 'db" where
  "begin_transaction body db = (case body db of (Inl e, _) \<Rightarrow> (Inl e, db) | (Inr u, db') \<Rightarrow> (Inr u, db'))"

definition run_migrations_offline :: "main_options \<Rightarrow> schema \<Rightarrow> 'db migrator \<Rightarrow> 'db \<Rightarrow> unit res \<times> 'db" where
  "run_migrations_offline opts metadata run_migrations db =
     (case get_main_option opts ''sqlalchemy.url'' of
        Inl e \<Rightarrow> (Inl e, db)
      | Inr url \<Rightarrow>
          begin_transaction (run_migrations \<lparr>cf_url = url, cf_connection = False, cf_metadata = metadata,
            cf_literal_binds = True, cf_hook = False\<rparr>) db)"

definition run_migrations_online :: "schema \<Rightarrow> exc option \<Rightarrow> 'db migrator \<Rightarrow> 'db \<Rightarrow> unit res \<times> 'db" where
  "run_migrations_online metadata connect run_migrations db =
     (case connect of
        Some e \<Rightarrow> (Inl e, db)
      | None \<Rightarrow>
          begin_transaction (run_migrations \<lparr>cf_url = None, cf_connection = True, cf_metadata = metadata,
            cf_literal_binds = False, cf_hook = True\<rparr>) db)"

text \<open>The module: what the engine's URL is, whether Alembic runs offline, what connecting raises.\<close>

definition env_py :: "string \<Rightarrow> schema \<Rightarrow> main_options \<Rightarrow> bool \<Rightarrow> exc option \<Rightarrow> 'db migrator \<Rightarrow> 'db \<Rightarrow> unit res \<times> 'db" where
  "env_py url metadata config offline connect run_migrations db =
     (case set_main_option ''sqlalchemy.url'' (escape_percent url) config of
        Inl e \<Rightarrow> (Inl e, db)
      | Inr opts \<Rightarrow>
          if offline then run_migrations_offline opts metadata run_migrations db
          else run_migrations_online metadata connect run_migrations db)"

text \<open>
  \<open>flask db upgrade\<close> on a connection follows the revisions; offline it prints what it would do and the
  database is not touched.
\<close>

definition upgrade_command :: "revision list \<Rightarrow> (string option \<times> schema) migrator" where
  "upgrade_command revs cfg db =
     (if cf_connection cfg then
        (case upgrade_head (length revs) revs db of Inl e \<Rightarrow> (Inl e, db) | Inr db' \<Rightarrow> (Inr (), db'))
      else (Inr (), db))"

lemma main_option_roundtrip:
  "\<exists>opts. set_main_option name (escape_percent url) config = Inr opts \<and> get_main_option opts name = Inr (Some url)"
  by (simp add: set_main_option_def before_set_escape get_main_option_def interpolate_escape)

lemma env_py_online:
  "env_py url metadata config False None run db = begin_transaction (run \<lparr>cf_url = None, cf_connection = True,
     cf_metadata = metadata, cf_literal_binds = False, cf_hook = True\<rparr>) db"
  using main_option_roundtrip[of "''sqlalchemy.url''" url config] by (auto simp: env_py_def run_migrations_online_def)

lemma env_py_offline:
  "env_py url metadata config True connect run db = begin_transaction (run \<lparr>cf_url = Some url, cf_connection = False,
     cf_metadata = metadata, cf_literal_binds = True, cf_hook = False\<rparr>) db"
  using main_option_roundtrip[of "''sqlalchemy.url''" url config] by (auto simp: env_py_def run_migrations_offline_def)

lemma upgrade_at_head:
  "upgrade_head n related_revisions (Some ''85448ad485c1'', s) = Inr (Some ''85448ad485c1'', s)"
  by (cases n) (simp_all add: related_revisions_def)

subsection \<open>What holds of the environment\<close>

text \<open>
  The URL survives the configuration, whatever characters it has (a percent-encoded password too):
  setting it never raises, and offline mode configures Alembic with the very text \<open>str(url)\<close> of the engine's URL.
\<close>

lemma url_survives_the_configuration:
  "(\<exists>opts. set_main_option ''sqlalchemy.url'' (escape_percent url) config = Inr opts
      \<and> get_main_option opts ''sqlalchemy.url'' = Inr (Some url))
    \<and> env_py url metadata config True connect run db = begin_transaction (run \<lparr>cf_url = Some url, cf_connection = False,
        cf_metadata = metadata, cf_literal_binds = True, cf_hook = False\<rparr>) db"
  by (rule conjI[OF main_option_roundtrip env_py_offline])

text \<open>Without the escaping a percent sign in the URL is refused.\<close>

lemma unescaped_percent_refused: "set_main_option ''sqlalchemy.url'' ''postgresql://u:p%40ss@h/db'' config = Inl ValueError"
  by (simp add: set_main_option_def before_set_def)

text \<open>
  Migrating is all or nothing, and once: an upgrade that raises leaves the database of the related service as
  it was, from the empty database it builds the tables of the models, and run again it
  changes nothing; in offline mode the database is never touched.
\<close>

lemma upgrade_is_all_or_nothing:
  "(case env_py url related_metadata config False connect (upgrade_command related_revisions) db of
      (Inl e, db') \<Rightarrow> db' = db
    | (Inr u, db') \<Rightarrow> upgrade_head (length related_revisions) related_revisions db = Inr db')
   \<and> env_py url related_metadata config False None (upgrade_command related_revisions) (None, [])
      = (Inr (), (Some ''85448ad485c1'', related_metadata))
   \<and> env_py url related_metadata config False None (upgrade_command related_revisions) (Some ''85448ad485c1'', s)
      = (Inr (), (Some ''85448ad485c1'', s))
   \<and> snd (env_py url related_metadata config True connect (upgrade_command related_revisions) db) = db"
proof (intro conjI)
  show "case env_py url related_metadata config False connect (upgrade_command related_revisions) db of
      (Inl e, db') \<Rightarrow> db' = db
    | (Inr u, db') \<Rightarrow> upgrade_head (length related_revisions) related_revisions db = Inr db'"
  proof (cases connect)
    case None
    then show ?thesis
      by (cases "upgrade_head (length related_revisions) related_revisions db")
        (simp_all add: env_py_online begin_transaction_def upgrade_command_def)
  next
    case (Some e)
    then show ?thesis
      using main_option_roundtrip[of "''sqlalchemy.url''" url config]
      by (auto simp: env_py_def run_migrations_online_def)
  qed
qed (simp_all add: env_py_online env_py_offline begin_transaction_def upgrade_command_def upgrade_fresh upgrade_at_head)

end
