(* ===== verification/TestTokens.thy ===== *)
theory TestTokens
  imports PostsAuth "HOL-Library.Countable"
begin

section \<open>Tokens for tests (services/posts/posts/testauth.py)\<close>

text \<open>
  The factory of tokens that stands in for the auth service, and the client that stands in for its
  JWKS endpoint. PyJWT's \<open>encode\<close> and the RSA keys of cryptography are parameters beside those of
  PostsAuth; \<open>jwt.decode\<close> is the one the token check uses.
\<close>

subsection \<open>Keys and the fake client\<close>

record fake_signing_key =
  fsk_key :: string

record fake_jwk_client =
  fjc_public_key :: string

definition fake_get_signing_key_from_jwt :: "fake_jwk_client \<Rightarrow> string \<Rightarrow> fake_signing_key res" where
  "fake_get_signing_key_from_jwt client token = Inr \<lparr>fsk_key = fjc_public_key client\<rparr>"

text \<open>A test puts the fake client where \<open>jwk_client()\<close> finds it; only the key fetch changes.\<close>

definition with_fake_client :: "fake_jwk_client \<Rightarrow> jwt_lib \<Rightarrow> jwt_lib" where
  "with_fake_client client L =
     L\<lparr>get_signing_key_from_jwt := (\<lambda>_ token.
         try_then (fake_get_signing_key_from_jwt client token) (\<lambda>key. Inr (fsk_key key)))\<rparr>"

subsection \<open>The factory\<close>

text \<open>A claim is a JSON value or an instant, which PyJWT encodes as whole seconds.\<close>

datatype claim = Claim json | At timestamp

type_synonym claims = "(string \<times> claim) list"

record key_lib =
  public_key_of :: "string \<Rightarrow> string"
  jwt_encode :: "claims \<Rightarrow> string \<Rightarrow> string \<Rightarrow> string"

record token_factory =
  tf_private_key :: string
  tf_public_key :: string

text \<open>\<open>TokenFactory()\<close>: the key is fresh, so it is an argument.\<close>

definition new_token_factory :: "key_lib \<Rightarrow> string \<Rightarrow> token_factory" where
  "new_token_factory G private_key = \<lparr>tf_private_key = private_key, tf_public_key = public_key_of G private_key\<rparr>"

text \<open>\<open>dict.update\<close>\<close>

definition dict_update :: "('k \<times> 'v) list \<Rightarrow> ('k \<times> 'v) list \<Rightarrow> ('k \<times> 'v) list" where
  "dict_update d overrides = fold (\<lambda>(k, v) d. AList.update k v d) overrides d"

definition hours :: "int \<Rightarrow> timestamp \<Rightarrow> timestamp" where
  "hours n t = Timestamp (micros t + n * 3600000000)"

text \<open>The clock and the two fresh uuids are arguments; an empty \<open>user_id\<close> or \<open>token_id\<close> counts as none.\<close>

record token_args =
  ta_user_id :: "string option"
  ta_email :: string
  ta_token_id :: "string option"
  ta_now :: timestamp
  ta_user_uuid :: string
  ta_token_uuid :: string

definition or_else :: "string option \<Rightarrow> string \<Rightarrow> string" where
  "or_else given fresh = (case given of None \<Rightarrow> fresh | Some s \<Rightarrow> if s = [] then fresh else s)"

definition factory_claims :: "auth_settings \<Rightarrow> token_args \<Rightarrow> claims \<Rightarrow> claims" where
  "factory_claims S a overrides =
     dict_update
       [(''sub'', Claim (JStr (or_else (ta_user_id a) (ta_user_uuid a)))),
        (''email'', Claim (JStr (ta_email a))),
        (''jti'', Claim (JStr (or_else (ta_token_id a) (ta_token_uuid a)))),
        (''iss'', Claim (JStr (AUTH_ISSUER S))),
        (''aud'', Claim (JStr (AUTH_AUDIENCE S))),
        (''iat'', At (ta_now a)),
        (''exp'', At (hours 1 (ta_now a)))]
       overrides"

definition factory_token :: "key_lib \<Rightarrow> token_factory \<Rightarrow> auth_settings \<Rightarrow> token_args \<Rightarrow> claims \<Rightarrow> string" where
  "factory_token G f S a overrides = jwt_encode G (factory_claims S a overrides) (tf_private_key f) ''RS256''"

definition auth_header :: "key_lib \<Rightarrow> token_factory \<Rightarrow> auth_settings \<Rightarrow> token_args \<Rightarrow> claims \<Rightarrow> (string \<times> string) list" where
  "auth_header G f S a overrides = [(''HTTP_AUTHORIZATION'', ''Bearer '' @ factory_token G f S a overrides)]"

subsection \<open>What PyJWT 2.10 documents\<close>

text \<open>The payload that decoding returns, and when the registered claims pass at an instant.\<close>

definition epoch_seconds :: "timestamp \<Rightarrow> int" where
  "epoch_seconds t = micros t div 1000000"

definition claim_json :: "claim \<Rightarrow> json" where
  "claim_json c = (case c of Claim j \<Rightarrow> j | At t \<Rightarrow> JInt (epoch_seconds t))"

lemma claim_json_simps [simp]: "claim_json (Claim j) = j" "claim_json (At t) = JInt (epoch_seconds t)"
  by (simp_all add: claim_json_def)

definition payload_of :: "claims \<Rightarrow> json" where
  "payload_of cs = JObj (map (\<lambda>(k, c). (k, claim_json c)) cs)"

definition is_text :: "claim option \<Rightarrow> bool" where
  "is_text c = (case c of Some (Claim (JStr _)) \<Rightarrow> True | _ \<Rightarrow> False)"

definition claims_pass :: "timestamp \<Rightarrow> string \<Rightarrow> string \<Rightarrow> string list \<Rightarrow> claims \<Rightarrow> bool" where
  "claims_pass now aud iss req cs \<longleftrightarrow>
     (\<forall>k\<in>set req. map_of cs k \<noteq> None) \<and> is_text (map_of cs ''sub'') \<and> is_text (map_of cs ''jti'')
     \<and> map_of cs ''aud'' = Some (Claim (JStr aud)) \<and> map_of cs ''iss'' = Some (Claim (JStr iss))
     \<and> (\<exists>e i. map_of cs ''exp'' = Some (At e) \<and> map_of cs ''iat'' = Some (At i) \<and> map_of cs ''nbf'' = None
          \<and> micros now < epoch_seconds e * 1000000 \<and> epoch_seconds i * 1000000 \<le> micros now)"

definition claims_fail :: "timestamp \<Rightarrow> string \<Rightarrow> string \<Rightarrow> claims \<Rightarrow> bool" where
  "claims_fail now aud iss cs \<longleftrightarrow>
     (\<exists>e. map_of cs ''exp'' = Some (At e) \<and> epoch_seconds e * 1000000 \<le> micros now)
     \<or> (\<exists>a. map_of cs ''aud'' = Some (Claim (JStr a)) \<and> a \<noteq> aud)
     \<or> (\<exists>i. map_of cs ''iss'' = Some (Claim (JStr i)) \<and> i \<noteq> iss)"

text \<open>
  Claims whose issuer is a string can be encoded. The token is not empty and has no white space; with the
  public half of the key it was signed with its payload is returned if the claims pass; any other key,
  and claims that fail, are a PyJWTError.
\<close>

definition decodes_at :: "jwt_lib \<Rightarrow> timestamp \<Rightarrow> claims \<Rightarrow> string \<Rightarrow> string \<Rightarrow> bool" where
  "decodes_at L now cs public_key token \<longleftrightarrow> token \<noteq> [] \<and> py_strip token = token
     \<and> (\<forall>aud iss req. claims_pass now aud iss req cs \<longrightarrow>
          jwt_decode L token public_key [''RS256''] aud iss req = Inr (payload_of cs))
     \<and> (\<forall>aud iss req key. claims_fail now aud iss cs \<or> key \<noteq> public_key \<longrightarrow>
          (\<exists>msg. jwt_decode L token key [''RS256''] aud iss req = Inl (PyJWTError msg)))"

definition pyjwt_law :: "jwt_lib \<Rightarrow> key_lib \<Rightarrow> timestamp \<Rightarrow> bool" where
  "pyjwt_law L G now \<longleftrightarrow> (\<forall>cs k. is_text (map_of cs ''iss'') \<longrightarrow>
     decodes_at L now cs (public_key_of G k) (jwt_encode G cs k ''RS256''))"

lemma decodes_atD:
  assumes "decodes_at L now cs public_key token"
  shows "token \<noteq> []" "py_strip token = token"
    "claims_pass now aud iss req cs \<Longrightarrow> jwt_decode L token public_key [''RS256''] aud iss req = Inr (payload_of cs)"
    "claims_fail now aud iss cs \<or> key \<noteq> public_key \<Longrightarrow>
      \<exists>msg. jwt_decode L token key [''RS256''] aud iss req = Inl (PyJWTError msg)"
  using assms unfolding decodes_at_def by metis+

subsection \<open>Tokens of the factory\<close>

lemma bearer_header:
  assumes "py_strip token = token"
  shows "bearer_token (Some (''Bearer '' @ token)) = Some token"
proof -
  have "py_lower ''Bearer '' = ''bearer ''" by code_simp
  then have "starts_with ''bearer '' (py_lower (''Bearer '' @ token))"
    by (simp add: py_lower_def starts_with_def)
  with assms show ?thesis by (simp add: bearer_token_def)
qed

text \<open>\<open>authenticate\<close> with a bearer token, from what \<open>verify\<close> says of it.\<close>

lemma authenticate_bearer:
  assumes "bearer_token h = Some token" "token \<noteq> []"
  shows "fst (authenticate L S db h cache) =
     (case verify L S (fst (jwk_client_of S cache)) token of
        Inl (PyJWTError msg) \<Rightarrow> Inl (AuthenticationFailed (''token is not valid: '' @ msg))
      | Inl _ \<Rightarrow> Inl (AuthenticationFailed ''cannot verify token right now'')
      | Inr claims \<Rightarrow>
          try_then (get_or claims ''jti'' (JStr [])) (\<lambda>token_id.
            if is_revoked (jwt_str L) db token_id
            then Inl (AuthenticationFailed ''token has been revoked'')
            else try_then (getitem claims ''sub'') (\<lambda>sub.
                 try_then (get_or claims ''email'' (JStr [])) (\<lambda>email.
                   Inr (Some (\<lparr>tu_id = sub, tu_email = email, tu_token_id = token_id\<rparr>, token))))))"
  using assms by (auto simp: authenticate_def bearer_token_def Let_def case_prod_beta split: option.splits if_splits)

lemma verify_fake:
  "verify (with_fake_client client L) S c token
    = jwt_decode L token (fjc_public_key client) [''RS256''] (AUTH_AUDIENCE S) (AUTH_ISSUER S) [''exp'', ''sub'', ''jti'']"
  by (simp add: verify_def with_fake_client_def fake_get_signing_key_from_jwt_def)

lemma with_fake_client_str [simp]: "jwt_str (with_fake_client client L) = jwt_str L"
  by (simp add: with_fake_client_def)

lemma map_of_payload: "map_of (map (\<lambda>(k, c). (k, claim_json c)) cs) k = map_option claim_json (map_of cs k)"
  by (induction cs) auto

lemma dict_update_map: "map_of (dict_update d overrides) = map_of d ++ map_of (rev overrides)"
  by (induction overrides arbitrary: d) (auto simp: dict_update_def AList.update_conv' map_add_def fun_eq_iff split: option.splits)

lemma dict_update_Nil [simp]: "dict_update d [] = d"
  by (simp add: dict_update_def)

text \<open>The claims of the factory that a test leaves alone.\<close>

lemma factory_claims_at:
  assumes "map_of (rev overrides) k = None"
  shows "map_of (factory_claims S a overrides) k = map_of (factory_claims S a []) k"
  using assms by (simp add: factory_claims_def dict_update_map map_add_def)

lemma factory_claims_set:
  assumes "map_of (rev overrides) k = Some c"
  shows "map_of (factory_claims S a overrides) k = Some c"
  using assms by (simp add: factory_claims_def dict_update_map map_add_def)

lemma plain_factory_claims [simp]:
  "map_of (factory_claims S a []) ''sub'' = Some (Claim (JStr (or_else (ta_user_id a) (ta_user_uuid a))))"
  "map_of (factory_claims S a []) ''email'' = Some (Claim (JStr (ta_email a)))"
  "map_of (factory_claims S a []) ''jti'' = Some (Claim (JStr (or_else (ta_token_id a) (ta_token_uuid a))))"
  "map_of (factory_claims S a []) ''iss'' = Some (Claim (JStr (AUTH_ISSUER S)))"
  "map_of (factory_claims S a []) ''aud'' = Some (Claim (JStr (AUTH_AUDIENCE S)))"
  "map_of (factory_claims S a []) ''iat'' = Some (At (ta_now a))"
  "map_of (factory_claims S a []) ''exp'' = Some (At (hours 1 (ta_now a)))"
  "map_of (factory_claims S a []) ''nbf'' = None"
  by (simp_all add: factory_claims_def)

lemma factory_claims_pass:
  assumes "ta_now a \<le> now" "micros now < epoch_seconds (hours 1 (ta_now a)) * 1000000"
  shows "claims_pass now (AUTH_AUDIENCE S) (AUTH_ISSUER S) [''exp'', ''sub'', ''jti''] (factory_claims S a [])"
proof -
  have "epoch_seconds (ta_now a) * 1000000 \<le> micros (ta_now a)" by (simp add: epoch_seconds_def)
  also have "\<dots> \<le> micros now" using assms(1) by (cases "ta_now a"; cases now) simp
  finally show ?thesis using assms(2) by (simp add: claims_pass_def is_text_def)
qed

text \<open>A token of the factory at \<open>authenticate\<close>, from the law of PyJWT.\<close>

lemma factory_bearer:
  assumes "pyjwt_law L G now" "is_text (map_of (factory_claims S a overrides) ''iss'')"
    and "f = new_token_factory G key"
  shows "decodes_at L now (factory_claims S a overrides) (tf_public_key f) (factory_token G f S a overrides)"
    "bearer_token (map_of (auth_header G f S a overrides) ''HTTP_AUTHORIZATION'')
      = Some (factory_token G f S a overrides)"
proof -
  show *: "decodes_at L now (factory_claims S a overrides) (tf_public_key f) (factory_token G f S a overrides)"
    using assms by (simp add: pyjwt_law_def new_token_factory_def factory_token_def)
  show "bearer_token (map_of (auth_header G f S a overrides) ''HTTP_AUTHORIZATION'')
      = Some (factory_token G f S a overrides)"
    using bearer_header[OF decodes_atD(2)[OF *]] by (simp add: auth_header_def)
qed

text \<open>
  Libraries to evaluate on: a private key is its own public key, and a token as long as the number of
  its claims and key in an enumeration of them all.
\<close>

instance timestamp :: countable
  by countable_datatype

instance json :: countable
  by countable_datatype

instance claim :: countable
  by countable_datatype

definition counting_key_lib :: key_lib where
  "counting_key_lib = \<lparr>public_key_of = (\<lambda>k. k),
     jwt_encode = (\<lambda>cs k alg. replicate (Suc (to_nat (cs, k))) (CHR ''x''))\<rparr>"

definition counting_jwt_lib :: "timestamp \<Rightarrow> jwt_lib" where
  "counting_jwt_lib now = \<lparr>get_signing_key_from_jwt = (\<lambda>_ _. Inl OtherError),
     jwt_decode = (\<lambda>token key algs aud iss req.
       let (cs, k) = from_nat (length token - 1) :: claims \<times> string
       in if key = k \<and> claims_pass now aud iss req cs then Inr (payload_of cs) else Inl (PyJWTError ''refused'')),
     jwt_str = (\<lambda>_. [])\<rparr>"

lemma claims_pass_not_fail: "claims_pass now aud iss req cs \<Longrightarrow> \<not> claims_fail now aud iss cs"
  by (auto simp: claims_pass_def claims_fail_def)

lemma counting_pyjwt_law: "pyjwt_law (counting_jwt_lib now) counting_key_lib now"
proof -
  have "py_strip (replicate (Suc n) (CHR ''x'')) = replicate (Suc n) (CHR ''x'')" for n
  proof -
    have "\<not> is_space (CHR ''x'')" by code_simp
    then have "dropWhile is_space (replicate (Suc n) (CHR ''x'')) = replicate (Suc n) (CHR ''x'')"
      "rev (replicate (Suc n) (CHR ''x'')) = replicate (Suc n) (CHR ''x'')"
      by (simp_all only: rev_replicate) simp
    then show ?thesis by (simp only: py_strip_def)
  qed
  then show ?thesis
    unfolding pyjwt_law_def decodes_at_def
    by (auto simp add: counting_jwt_lib_def counting_key_lib_def claims_pass_not_fail simp del: replicate.simps)
qed

subsection \<open>What holds of the tokens\<close>

text \<open>
  A token of the factory takes the path of a live request. The header that the factory makes is
  accepted by \<open>authenticate\<close> with the fake client until the token expires, unless its id is on the
  denylist, and the caller is the user, the email and the token id it was made for.
\<close>

lemma factory_token_is_accepted:
  assumes "pyjwt_law L G now" "f = new_token_factory G key"
    and "ta_now a \<le> now" "micros now < epoch_seconds (hours 1 (ta_now a)) * 1000000"
    and "\<not> is_revoked (jwt_str L) db (JStr (or_else (ta_token_id a) (ta_token_uuid a)))"
  shows "fst (authenticate (with_fake_client \<lparr>fjc_public_key = tf_public_key f\<rparr> L) S db
      (map_of (auth_header G f S a []) ''HTTP_AUTHORIZATION'') cache)
    = Inr (Some (\<lparr>tu_id = JStr (or_else (ta_user_id a) (ta_user_uuid a)), tu_email = JStr (ta_email a),
        tu_token_id = JStr (or_else (ta_token_id a) (ta_token_uuid a))\<rparr>, factory_token G f S a []))"
proof -
  have iss: "is_text (map_of (factory_claims S a []) ''iss'')" by (simp add: is_text_def)
  note b = factory_bearer[OF assms(1) iss assms(2)]
  note d = decodes_atD[OF b(1)]
  show ?thesis
    using d(3)[OF factory_claims_pass[OF assms(3,4)]] assms(5)
    by (simp add: authenticate_bearer[OF b(2) d(1)] verify_fake payload_of_def map_of_payload)
qed

text \<open>
  What the tests override is refused. A token whose expiry has passed, one for another audience, and
  one of a factory with another key are answered with "token is not valid", whatever the denylist has.
\<close>

lemma factory_token_is_refused:
  assumes "pyjwt_law L G now" "f = new_token_factory G key"
    and "(\<exists>past. overrides = [(''exp'', At past), (''iat'', At past)] \<and> past \<le> now)
      \<or> (\<exists>aud. overrides = [(''aud'', Claim (JStr aud))] \<and> aud \<noteq> AUTH_AUDIENCE S)
      \<or> (overrides = [] \<and> trusted \<noteq> tf_public_key f)"
  shows "\<exists>msg. fst (authenticate (with_fake_client \<lparr>fjc_public_key = trusted\<rparr> L) S db
      (map_of (auth_header G f S a overrides) ''HTTP_AUTHORIZATION'') cache)
    = Inl (AuthenticationFailed (''token is not valid: '' @ msg))"
proof -
  have over: "map_of (rev overrides) ''iss'' = None" using assms(3) by auto
  have iss: "is_text (map_of (factory_claims S a overrides) ''iss'')"
    by (simp add: factory_claims_at[OF over] is_text_def)
  have past: "epoch_seconds t * 1000000 \<le> micros now" if "t \<le> now" for t
  proof -
    have "epoch_seconds t * 1000000 \<le> micros t" by (simp add: epoch_seconds_def)
    with that show ?thesis by (cases t; cases now) simp
  qed
  have bad: "claims_fail now (AUTH_AUDIENCE S) (AUTH_ISSUER S) (factory_claims S a overrides)
      \<or> trusted \<noteq> tf_public_key f"
    using assms(3)
  proof (elim disjE exE conjE)
    fix t assume t: "overrides = [(''exp'', At t), (''iat'', At t)]" "t \<le> now"
    then have "map_of (factory_claims S a overrides) ''exp'' = Some (At t)"
      by (intro factory_claims_set) simp
    with past[OF t(2)] show ?thesis unfolding claims_fail_def by blast
  next
    fix aud assume aud: "overrides = [(''aud'', Claim (JStr aud))]" "aud \<noteq> AUTH_AUDIENCE S"
    then have "map_of (factory_claims S a overrides) ''aud'' = Some (Claim (JStr aud))"
      by (intro factory_claims_set) simp
    with aud(2) show ?thesis unfolding claims_fail_def by blast
  qed simp
  note b = factory_bearer[OF assms(1) iss assms(2)]
  note d = decodes_atD[OF b(1)]
  obtain msg where "verify (with_fake_client \<lparr>fjc_public_key = trusted\<rparr> L) S (fst (jwk_client_of S cache))
      (factory_token G f S a overrides) = Inl (PyJWTError msg)"
    using d(4)[OF bad] by (auto simp: verify_fake)
  then show ?thesis by (simp add: authenticate_bearer[OF b(2) d(1)])
qed

definition sample_args :: token_args where
  "sample_args = \<lparr>ta_user_id = Some ''me'', ta_email = ''tester@example.com'', ta_token_id = None,
     ta_now = Timestamp 0, ta_user_uuid = ''u'', ta_token_uuid = ''t1''\<rparr>"

lemma factory_token_is_accepted_witness:
  "\<exists>token. fst (authenticate (with_fake_client \<lparr>fjc_public_key = ''key''\<rparr> (counting_jwt_lib (Timestamp 1))) plain_auth empty_posts_db
      (map_of (auth_header counting_key_lib (new_token_factory counting_key_lib ''key'') plain_auth sample_args []) ''HTTP_AUTHORIZATION'') None)
    = Inr (Some (\<lparr>tu_id = JStr ''me'', tu_email = JStr ''tester@example.com'', tu_token_id = JStr ''t1''\<rparr>, token))"
proof -
  have key: "tf_public_key (new_token_factory counting_key_lib ''key'') = ''key''"
    by (simp add: new_token_factory_def counting_key_lib_def)
  have clock: "ta_now sample_args \<le> Timestamp 1" "micros (Timestamp 1) < epoch_seconds (hours 1 (ta_now sample_args)) * 1000000"
    by (simp_all add: sample_args_def hours_def epoch_seconds_def)
  have "\<not> is_revoked (jwt_str (counting_jwt_lib (Timestamp 1))) empty_posts_db (JStr (or_else (ta_token_id sample_args) (ta_token_uuid sample_args)))"
    by (simp add: is_revoked_def empty_posts_db_def)
  from factory_token_is_accepted[OF counting_pyjwt_law refl[of "new_token_factory counting_key_lib ''key''"] clock this,
      where S = plain_auth and cache = None]
  show ?thesis by (simp add: key) (simp add: sample_args_def or_else_def)
qed

lemma factory_token_is_refused_witness:
  "(\<exists>msg. fst (authenticate (with_fake_client \<lparr>fjc_public_key = ''key''\<rparr> (counting_jwt_lib (Timestamp 1))) plain_auth empty_posts_db
      (map_of (auth_header counting_key_lib (new_token_factory counting_key_lib ''key'') plain_auth sample_args
         [(''exp'', At (Timestamp 0)), (''iat'', At (Timestamp 0))]) ''HTTP_AUTHORIZATION'') None)
    = Inl (AuthenticationFailed (''token is not valid: '' @ msg)))
   \<and> (\<exists>msg. fst (authenticate (with_fake_client \<lparr>fjc_public_key = ''key''\<rparr> (counting_jwt_lib (Timestamp 1))) plain_auth empty_posts_db
      (map_of (auth_header counting_key_lib (new_token_factory counting_key_lib ''stranger'') plain_auth sample_args []) ''HTTP_AUTHORIZATION'') None)
    = Inl (AuthenticationFailed (''token is not valid: '' @ msg)))"
  by (intro conjI factory_token_is_refused[OF counting_pyjwt_law refl])
    (simp_all add: new_token_factory_def counting_key_lib_def)

end
