(* ===== verification/JsonText.thy ===== *)
theory JsonText
  imports Json
begin

section \<open>JSON text: json.dumps and json.loads\<close>

text \<open>
  The serializer of the relay's producer (relay.py) and the deserializer of both consumers (consumer.py,
  consume_revocations.py) are \<open>json.dumps\<close> and \<open>json.loads\<close> of the standard library, with their default
  arguments. The parser follows the scanner of Python's json: positions are the rest of the text, a
  JSONDecodeError is a ValueError. Numbers with a fraction or an exponent, NaN, the infinities and
  escapes above \<open>\u00ff\<close> have no value in the model; the parser stops there with OtherError.
\<close>

subsection \<open>json.dumps\<close>

definition quote :: char where
  "quote = CHR 0x22"

definition backslash :: char where
  "backslash = CHR 0x5C"

definition hex_digit :: "nat \<Rightarrow> char" where
  "hex_digit d = (if d < 10 then digit d else char_of (87 + d))"

text \<open>\<open>ensure_ascii\<close>: what is not a printable ASCII character is escaped.\<close>

definition escape_char :: "char \<Rightarrow> string" where
  "escape_char c =
     (if c = quote \<or> c = backslash then [backslash, c]
      else if code c = 10 then [backslash, CHR ''n'']
      else if code c = 13 then [backslash, CHR ''r'']
      else if code c = 9 then [backslash, CHR ''t'']
      else if code c = 8 then [backslash, CHR ''b'']
      else if code c = 12 then [backslash, CHR ''f'']
      else if 32 \<le> code c \<and> code c \<le> 126 then [c]
      else [backslash, CHR ''u'', CHR ''0'', CHR ''0'', hex_digit (code c div 16), hex_digit (code c mod 16)])"

definition dumps_string :: "string \<Rightarrow> string" where
  "dumps_string s = quote # concat (map escape_char s) @ [quote]"

fun commas :: "string list \<Rightarrow> string" where
  "commas [] = []"
| "commas [w] = w"
| "commas (w # ws) = w @ '', '' @ commas ws"

fun json_dumps :: "json \<Rightarrow> string" where
  "json_dumps JNull = ''null''"
| "json_dumps (JBool b) = (if b then ''true'' else ''false'')"
| "json_dumps (JInt n) = show_int n"
| "json_dumps (JStr s) = dumps_string s"
| "json_dumps (JArr xs) = ''['' @ commas (map json_dumps xs) @ '']''"
| "json_dumps (JObj kvs) = ''{'' @ commas (map (\<lambda>kv. dumps_string (fst kv) @ '': '' @ json_dumps (snd kv)) kvs) @ ''}''"

subsection \<open>json.loads\<close>

definition json_space :: "char \<Rightarrow> bool" where
  "json_space c \<longleftrightarrow> code c \<in> {32, 9, 10, 13}"

definition skip_space :: "string \<Rightarrow> string" where
  "skip_space s = dropWhile json_space s"

definition hex_value :: "char \<Rightarrow> nat option" where
  "hex_value c =
     (if is_digit c then Some (code c - 48)
      else if 97 \<le> code c \<and> code c \<le> 102 then Some (code c - 87)
      else if 65 \<le> code c \<and> code c \<le> 70 then Some (code c - 55)
      else None)"

text \<open>The four digits after \<open>\u\<close>.\<close>

fun hex4 :: "string \<Rightarrow> nat option" where
  "hex4 [a, b, c, d] =
     (case (hex_value a, hex_value b, hex_value c, hex_value d) of
        (Some a, Some b, Some c, Some d) \<Rightarrow> Some (((a * 16 + b) * 16 + c) * 16 + d)
      | _ \<Rightarrow> None)"
| "hex4 _ = None"

definition simple_escape :: "char \<Rightarrow> char option" where
  "simple_escape c =
     (if c = quote \<or> c = backslash \<or> c = CHR ''/'' then Some c
      else if c = CHR ''b'' then Some (char_of (8 :: nat))
      else if c = CHR ''f'' then Some (char_of (12 :: nat))
      else if c = CHR ''n'' then Some (char_of (10 :: nat))
      else if c = CHR ''r'' then Some (char_of (13 :: nat))
      else if c = CHR ''t'' then Some (char_of (9 :: nat))
      else None)"

text \<open>A string, read after its opening quote; control characters are refused.\<close>

function scan_string :: "string \<Rightarrow> (string \<times> string) res" where
  "scan_string [] = Inl ValueError"
| "scan_string (c # cs) =
     (if c = quote then Inr ([], cs)
      else if c = backslash then
        (case cs of
           [] \<Rightarrow> Inl ValueError
         | e # rest \<Rightarrow>
             if e = CHR ''u'' then
               (case hex4 (take 4 rest) of
                  None \<Rightarrow> Inl ValueError
                | Some n \<Rightarrow>
                    if n < 256 then try_then (scan_string (drop 4 rest)) (\<lambda>(t, r). Inr (char_of n # t, r))
                    else Inl OtherError)
             else
               (case simple_escape e of
                  None \<Rightarrow> Inl ValueError
                | Some d \<Rightarrow> try_then (scan_string rest) (\<lambda>(t, r). Inr (d # t, r))))
      else if code c < 32 then Inl ValueError
      else try_then (scan_string cs) (\<lambda>(t, r). Inr (c # t, r)))"
  by pat_completeness auto
termination by (relation "measure length") auto

text \<open>A number: an optional sign, an integer without leading zeros, and what would make it a float.\<close>

definition decimal :: "string \<Rightarrow> nat" where
  "decimal ds = foldl (\<lambda>a c. 10 * a + (code c - 48)) 0 ds"

definition float_follows :: "string \<Rightarrow> bool" where
  "float_follows s \<longleftrightarrow>
     (case s of
        c # d # r \<Rightarrow> c = CHR ''.'' \<and> is_digit d
          \<or> (c = CHR ''e'' \<or> c = CHR ''E'') \<and> (is_digit d \<or> (d = CHR ''+'' \<or> d = CHR ''-'') \<and> r \<noteq> [] \<and> is_digit (hd r))
      | _ \<Rightarrow> False)"

definition scan_number :: "string \<Rightarrow> (json \<times> string) res" where
  "scan_number s =
     (let negative = starts_with ''-'' s;
          body = (if negative then drop 1 s else s);
          digits = takeWhile is_digit body;
          int_part = (if starts_with ''0'' digits then ''0'' else digits);
          rest = drop (length int_part) body
      in if int_part = [] then Inl ValueError
         else if float_follows rest then Inl OtherError
         else Inr (JInt (if negative then - int (decimal int_part) else int (decimal int_part)), rest))"

text \<open>\<open>dict(pairs)\<close>: of a repeated key the last value counts, in the first place.\<close>

definition dict_of :: "(string \<times> json) list \<Rightarrow> (string \<times> json) list" where
  "dict_of kvs = fold (\<lambda>(k, v) d. AList.update k v d) kvs []"

text \<open>
  \<open>scan_once\<close> with the loops over the elements of a list and the members of an object. The first argument
  bounds the number of nested calls; without it there would be a RuntimeError.
\<close>

fun scan_value :: "nat \<Rightarrow> string \<Rightarrow> (json \<times> string) res"
  and scan_elements :: "nat \<Rightarrow> string \<Rightarrow> (json list \<times> string) res"
  and scan_members :: "nat \<Rightarrow> string \<Rightarrow> ((string \<times> json) list \<times> string) res" where
  "scan_value 0 s = Inl RuntimeError"
| "scan_value (Suc n) s =
     (if starts_with [quote] s then try_then (scan_string (drop 1 s)) (\<lambda>(t, r). Inr (JStr t, r))
      else if starts_with ''{'' s then
        (let r = skip_space (drop 1 s) in
         if starts_with ''}'' r then Inr (JObj [], drop 1 r)
         else try_then (scan_members n r) (\<lambda>(kvs, r). Inr (JObj (dict_of kvs), r)))
      else if starts_with ''['' s then
        (let r = skip_space (drop 1 s) in
         if starts_with '']'' r then Inr (JArr [], drop 1 r)
         else try_then (scan_elements n r) (\<lambda>(xs, r). Inr (JArr xs, r)))
      else if starts_with ''null'' s then Inr (JNull, drop 4 s)
      else if starts_with ''true'' s then Inr (JBool True, drop 4 s)
      else if starts_with ''false'' s then Inr (JBool False, drop 5 s)
      else if starts_with ''NaN'' s \<or> starts_with ''Infinity'' s \<or> starts_with ''-Infinity'' s then Inl OtherError
      else scan_number s)"
| "scan_elements 0 s = Inl RuntimeError"
| "scan_elements (Suc n) s =
     try_then (scan_value n s) (\<lambda>(x, r).
       let r = skip_space r in
       if starts_with '']'' r then Inr ([x], drop 1 r)
       else if starts_with '','' r then
         try_then (scan_elements n (skip_space (drop 1 r))) (\<lambda>(xs, r). Inr (x # xs, r))
       else Inl ValueError)"
| "scan_members 0 s = Inl RuntimeError"
| "scan_members (Suc n) s =
     (if \<not> starts_with [quote] s then Inl ValueError
      else try_then (scan_string (drop 1 s)) (\<lambda>(k, r).
        let r = skip_space r in
        if \<not> starts_with '':'' r then Inl ValueError
        else try_then (scan_value n (skip_space (drop 1 r))) (\<lambda>(v, r).
          let r = skip_space r in
          if starts_with ''}'' r then Inr ([(k, v)], drop 1 r)
          else if starts_with '','' r then
            try_then (scan_members n (skip_space (drop 1 r))) (\<lambda>(kvs, r). Inr ((k, v) # kvs, r))
          else Inl ValueError)))"

text \<open>\<open>json.loads\<close>: one value, with white space around it and nothing else.\<close>

definition json_loads :: "string \<Rightarrow> json res" where
  "json_loads s =
     try_then (scan_value (Suc (2 * length s)) (skip_space s)) (\<lambda>(j, r).
       if skip_space r = [] then Inr j else Inl ValueError)"

subsection \<open>The bound on nested calls is never met\<close>

lemma starts_with_split: "starts_with p s \<Longrightarrow> s = p @ drop (length p) s"
  unfolding starts_with_def by (metis append_take_drop_id)

lemma skip_space_le: "length (skip_space s) \<le> length s"
  by (simp add: skip_space_def length_dropWhile_le)

lemma scan_string_shorter: "scan_string s = Inr (t, r) \<Longrightarrow> length r < length s"
proof (induction s arbitrary: t rule: scan_string.induct)
  case (2 c cs)
  then show ?case
    by (fastforce simp: try_then_eq_Inr_iff split: if_splits list.splits option.splits)
qed simp

lemma scan_string_exc: "scan_string s = Inl e \<Longrightarrow> e = ValueError \<or> e = OtherError"
proof (induction s rule: scan_string.induct)
  case (2 c cs)
  then show ?case
    by (auto simp: try_then_eq_Inl_iff split: if_splits list.splits option.splits)
qed simp

lemma scan_number_shorter: "scan_number s = Inr (j, r) \<Longrightarrow> length r < length s"
  by (cases s) (auto simp: scan_number_def Let_def starts_with_def split: if_splits)

lemma scan_number_exc: "scan_number s = Inl e \<Longrightarrow> e = ValueError \<or> e = OtherError"
  by (auto simp: scan_number_def Let_def split: if_splits)

text \<open>What is left after a scan is shorter, and enough calls are allowed.\<close>

definition scans :: "string \<Rightarrow> ('a \<times> string) res \<Rightarrow> bool" where
  "scans s r \<longleftrightarrow> (case r of Inl e \<Rightarrow> e = ValueError \<or> e = OtherError | Inr (_, rest) \<Rightarrow> length rest < length s)"

lemma scans_simps [simp]:
  "scans s (Inl e) \<longleftrightarrow> e = ValueError \<or> e = OtherError"
  "scans s (Inr (x, rest)) \<longleftrightarrow> length rest < length s"
  by (simp_all add: scans_def)

lemma scans_string: "scans s (scan_string s)"
  using scan_string_shorter scan_string_exc by (auto simp: scans_def split: sum.splits)

lemma scans_number: "scans s (scan_number s)"
  using scan_number_shorter scan_number_exc by (auto simp: scans_def split: sum.splits)

lemma scans_then:
  assumes "scans s m" "\<And>x r. m = Inr (x, r) \<Longrightarrow> length r < length s \<Longrightarrow> scans t (f (x, r))"
  shows "scans t (try_then m f)"
  using assms by (cases m) auto

lemma scans_longer: "scans s m \<Longrightarrow> length s \<le> length t \<Longrightarrow> scans t m"
  by (auto simp: scans_def split: sum.splits)

lemma scans_if: "(b \<Longrightarrow> scans s x) \<Longrightarrow> (\<not> b \<Longrightarrow> scans s y) \<Longrightarrow> scans s (if b then x else y)"
  by simp

lemma starts_with_nonempty: "starts_with (c # p) s \<Longrightarrow> s \<noteq> []"
  by (auto simp: starts_with_def)

text \<open>The text after a bracket, a comma or a colon.\<close>

lemma after_token:
  assumes "starts_with (c # p) s"
  shows "length (skip_space (drop 1 s)) < length s"
  using assms skip_space_le[of "drop 1 s"] by (cases s) (auto simp: starts_with_def)

lemma scan_fuel:
  "2 * length s < n \<Longrightarrow> scans s (scan_value n s)"
  "Suc (2 * length s) < n \<Longrightarrow> scans s (scan_elements n s)"
  "Suc (2 * length s) < n \<Longrightarrow> scans s (scan_members n s)"
proof (induction n s and n s and n s rule: scan_value_scan_elements_scan_members.induct)
  case (2 n s)
  have members: "scans s (scan_members n (skip_space (drop 1 s)))"
    if "starts_with ''{'' s" "\<not> starts_with [quote] s" "\<not> starts_with ''}'' (skip_space (drop 1 s))"
    using "2.IH"(1)[OF that(2,1) refl that(3)] "2.prems" after_token[OF that(1)]
    by (auto intro: scans_longer)
  have elements: "scans s (scan_elements n (skip_space (drop 1 s)))"
    if "starts_with ''['' s" "\<not> starts_with [quote] s" "\<not> starts_with ''{'' s" "\<not> starts_with '']'' (skip_space (drop 1 s))"
    using "2.IH"(2)[OF that(2,3,1) refl that(4)] "2.prems" after_token[OF that(1)]
    by (auto intro: scans_longer)
  have shut: "scans s (Inr (x, drop 1 (skip_space (drop 1 s))))" if "starts_with (c # p) s" for c p and x :: json
    using after_token[OF that] by simp
  show ?case
    unfolding scan_value.simps Let_def
    by (intro scans_if scans_then[OF scans_longer[OF scans_string]] scans_then[OF members] scans_then[OF elements] shut
        scans_number)
      (auto intro: shut dest: starts_with_nonempty)
next
  case (4 n s)
  show ?case
    unfolding scan_elements.simps
  proof (rule scans_then)
    show "scans s (scan_value n s)" using "4.IH"(1) "4.prems" by simp
  next
    fix x r assume r: "scan_value n s = Inr (x, r)" "length r < length s"
    let ?r = "skip_space r"
    have le: "length ?r < length s" using r(2) skip_space_le[of r] by simp
    have "scans s (scan_elements n (skip_space (drop 1 ?r)))" if "starts_with '','' ?r" "\<not> starts_with '']'' ?r"
      using "4.IH"(2)[OF refl that(2,1)] "4.prems" after_token[OF that(1)] le
      by (auto intro: scans_longer)
    then show "scans s (case (x, r) of (x, r) \<Rightarrow> let r = skip_space r in
       if starts_with '']'' r then Inr ([x], drop 1 r)
       else if starts_with '','' r then
         try_then (scan_elements n (skip_space (drop 1 r))) (\<lambda>(xs, r). Inr (x # xs, r))
       else Inl ValueError)"
      using le unfolding Let_def prod.case by (intro scans_if scans_then) auto
  qed
next
  case (6 n s)
  show ?case
    unfolding scan_members.simps
  proof (intro scans_if scans_then)
    show "scans s (scan_string (drop 1 s))"
      by (rule scans_longer[OF scans_string]) simp
  next
    fix k r assume q: "\<not> \<not> starts_with [quote] s" and r: "scan_string (drop 1 s) = Inr (k, r)" "length r < length s"
    let ?r = "skip_space r"
    have le: "length ?r < length s" using r(2) skip_space_le[of r] by simp
    have field: "scans s (scan_value n (skip_space (drop 1 ?r)))" if "starts_with '':'' ?r"
    proof (rule scans_longer)
      show "scans (skip_space (drop 1 ?r)) (scan_value n (skip_space (drop 1 ?r)))"
        by (rule "6.IH"(1)[OF q refl]) (use that "6.prems" after_token[OF that] le in simp_all)
    qed (use after_token[OF that] le in simp)
    have members: "scans s (scan_members n (skip_space (drop 1 (skip_space r'))))"
      if "starts_with '':'' ?r" "scan_value n (skip_space (drop 1 ?r)) = Inr (v, r')" "length r' < length s"
        "\<not> starts_with ''}'' (skip_space r')" "starts_with '','' (skip_space r')" for v r'
    proof (rule scans_longer)
      show "scans (skip_space (drop 1 (skip_space r'))) (scan_members n (skip_space (drop 1 (skip_space r'))))"
        by (rule "6.IH"(2)[OF q refl _ refl that(4,5)])
          (use that(1,3) "6.prems" after_token[OF that(5)] skip_space_le[of r'] in simp_all)
    qed (use that(3) after_token[OF that(5)] skip_space_le[of r'] in simp)
    show "scans s (case (k, r) of (k, r) \<Rightarrow> let r = skip_space r in
        if \<not> starts_with '':'' r then Inl ValueError
        else try_then (scan_value n (skip_space (drop 1 r))) (\<lambda>(v, r).
          let r = skip_space r in
          if starts_with ''}'' r then Inr ([(k, v)], drop 1 r)
          else if starts_with '','' r then
            try_then (scan_members n (skip_space (drop 1 r))) (\<lambda>(kvs, r). Inr ((k, v) # kvs, r))
          else Inl ValueError))"
      unfolding Let_def prod.case
    proof (intro scans_if scans_then)
      show "scans s (scan_value n (skip_space (drop 1 ?r)))" if "\<not> \<not> starts_with '':'' ?r"
        using field that by blast
    next
      fix v r' assume c: "\<not> \<not> starts_with '':'' ?r" and v: "scan_value n (skip_space (drop 1 ?r)) = Inr (v, r')" "length r' < length s"
      have "length (skip_space r') < length s" using v(2) skip_space_le[of r'] by simp
      then show "scans s (case (v, r') of (v, r) \<Rightarrow>
          if starts_with ''}'' (skip_space r) then Inr ([(k, v)], drop 1 (skip_space r))
          else if starts_with '','' (skip_space r) then
            try_then (scan_members n (skip_space (drop 1 (skip_space r)))) (\<lambda>(kvs, r). Inr ((k, v) # kvs, r))
          else Inl ValueError)"
        using members[OF _ v] c unfolding prod.case by (intro scans_if scans_then) auto
    qed simp
  qed simp
qed simp_all

lemma json_loads_exc: "json_loads s = Inl e \<Longrightarrow> e = ValueError \<or> e = OtherError"
proof -
  assume e: "json_loads s = Inl e"
  have "scans (skip_space s) (scan_value (Suc (2 * length s)) (skip_space s))"
    by (rule scan_fuel(1)) (use skip_space_le[of s] in simp)
  then show ?thesis using e by (auto simp: json_loads_def try_then_eq_Inl_iff split: if_splits)
qed

subsection \<open>Reading what was written\<close>

lemma char_of_code [simp]: "char_of (code c) = c"
  by (simp add: code_def)

lemma code_eqI: "code c = n \<Longrightarrow> char_of n = c"
  by (auto simp: code_def)

lemma hex_value_digit: "d < 16 \<Longrightarrow> hex_value (hex_digit d) = Some d"
  by (auto simp: hex_value_def hex_digit_def is_digit_def digit_def)

lemma hex4_code: "hex4 (take 4 (CHR ''0'' # CHR ''0'' # hex_digit (code c div 16) # hex_digit (code c mod 16) # rest)) = Some (code c)"
proof -
  have "code c div 16 < 16" using code_bound[of c] by simp
  moreover have "hex_value (CHR ''0'') = Some 0" by (simp add: hex_value_def is_digit_def code_def)
  ultimately show ?thesis by (simp add: hex_value_digit)
qed

lemma scan_escaped:
  "scan_string (escape_char c @ rest) = try_then (scan_string rest) (\<lambda>(t, r). Inr (c # t, r))"
proof -
  have q: "quote \<noteq> backslash" "CHR ''u'' \<noteq> quote" "CHR ''n'' \<noteq> CHR ''u''"
    "code quote = 34" "code backslash = 92" by (simp_all add: quote_def backslash_def code_def)
  have esc: "scan_string (backslash # e # rest) = try_then (scan_string rest) (\<lambda>(t, r). Inr (d # t, r))"
    if "e \<noteq> CHR ''u''" "simple_escape e = Some d" for e d
    using that q by simp
  have simple: "simple_escape quote = Some quote" "simple_escape backslash = Some backslash"
    "simple_escape (CHR ''n'') = Some (char_of (10 :: nat))" "simple_escape (CHR ''r'') = Some (char_of (13 :: nat))"
    "simple_escape (CHR ''t'') = Some (char_of (9 :: nat))" "simple_escape (CHR ''b'') = Some (char_of (8 :: nat))"
    "simple_escape (CHR ''f'') = Some (char_of (12 :: nat))"
    by (simp_all add: simple_escape_def quote_def backslash_def)
  consider "c = quote \<or> c = backslash" | "code c \<in> {10, 13, 9, 8, 12}" "c \<noteq> quote" "c \<noteq> backslash"
    | "32 \<le> code c" "code c \<le> 126" "c \<noteq> quote" "c \<noteq> backslash"
    | "c \<noteq> quote" "c \<noteq> backslash" "code c \<notin> {10, 13, 9, 8, 12}" "\<not> (32 \<le> code c \<and> code c \<le> 126)"
    by blast
  then show ?thesis
  proof cases
    case 1
    moreover have "quote \<noteq> CHR ''u''" "backslash \<noteq> CHR ''u''" by (simp_all add: quote_def backslash_def)
    ultimately show ?thesis using esc[of c c] simple by (auto simp: escape_char_def simp del: scan_string.simps)
  next
    case 2
    then show ?thesis
      by (elim insertE)
        (simp_all add: escape_char_def esc[OF _ simple(3)] esc[OF _ simple(4)] esc[OF _ simple(5)] esc[OF _ simple(6)]
          esc[OF _ simple(7)] code_eqI del: scan_string.simps)
  next
    case 3
    then have "escape_char c = [c]" by (auto simp: escape_char_def)
    with 3 show ?thesis by simp
  next
    case 4
    have "scan_string (backslash # CHR ''u'' # CHR ''0'' # CHR ''0'' # hex_digit (code c div 16) # hex_digit (code c mod 16) # rest)
        = try_then (scan_string rest) (\<lambda>(t, r). Inr (c # t, r))"
      using q hex4_code[of c rest] code_bound[of c] by (simp del: hex4.simps take_Suc_Cons)
    moreover from 4 have "escape_char c
        = [backslash, CHR ''u'', CHR ''0'', CHR ''0'', hex_digit (code c div 16), hex_digit (code c mod 16)]"
      by (simp add: escape_char_def)
    ultimately show ?thesis by simp
  qed
qed

lemma scan_dumps_string: "scan_string (concat (map escape_char s) @ quote # rest) = Inr (s, rest)"
  by (induction s) (simp_all add: scan_escaped)

lemma dumps_string_append: "dumps_string s @ rest = quote # concat (map escape_char s) @ quote # rest"
  by (simp add: dumps_string_def)

text \<open>Numbers: what follows one in a JSON text is no part of it.\<close>

definition stops :: "string \<Rightarrow> bool" where
  "stops rest \<longleftrightarrow> rest = [] \<or> hd rest \<in> {CHR '','', CHR '']'', CHR ''}''}"

lemma stops_simps [simp]: "stops []" "stops (CHR '','' # s)" "stops (CHR '']'' # s)" "stops (CHR ''}'' # s)"
  by (simp_all add: stops_def)

lemma show_nat_ne: "show_nat n \<noteq> []"
  by (subst show_nat.simps) simp

lemma show_nat_Cons: "\<exists>d ds. show_nat n = d # ds \<and> is_digit d"
  using show_nat_ne[of n] show_nat_digits[of "hd (show_nat n)" n] by (cases "show_nat n") auto

lemma show_nat_zero: "hd (show_nat n) = CHR ''0'' \<Longrightarrow> n = 0"
proof (induction n rule: show_nat.induct)
  case (1 n)
  show ?case
  proof (cases "n < 10")
    case True
    then have "show_nat n = [digit n]" by (simp add: show_nat.simps)
    then have "code (digit n) = code (CHR ''0'')" using "1.prems" by simp
    moreover have "code (CHR ''0'') = 48" by (simp add: code_def)
    ultimately show ?thesis using code_digit[OF True] by simp
  next
    case False
    then have "show_nat n = show_nat (n div 10) @ [digit (n mod 10)]" by (subst show_nat.simps) simp
    then have "hd (show_nat (n div 10)) = CHR ''0''" using "1.prems" by (simp add: show_nat_ne)
    with "1.IH"[OF False] have "n div 10 = 0" by simp
    with False show ?thesis by simp
  qed
qed

lemma show_nat_0 [simp]: "show_nat 0 = ''0''"
  by code_simp

lemma stops_digits: "stops rest \<Longrightarrow> takeWhile is_digit (show_nat n @ rest) = show_nat n"
  using show_nat_digits[of _ n]
  by (cases rest) (auto simp: takeWhile_append stops_def is_digit_def code_def)

lemma stops_no_float: "stops rest \<Longrightarrow> \<not> float_follows rest"
  by (cases rest) (auto simp: float_follows_def stops_def split: list.splits)

lemma show_nat_not_minus: "\<not> starts_with ''-'' (show_nat n @ rest)"
proof -
  have "is_digit (hd (show_nat n))" using show_nat_digits show_nat_ne hd_in_set by blast
  then show ?thesis
    using show_nat_ne[of n] by (cases "show_nat n") (auto simp: starts_with_def is_digit_def code_def)
qed

lemma int_part_show_nat:
  "(if starts_with ''0'' (show_nat n) then ''0'' else show_nat n) = show_nat n"
proof (cases "starts_with ''0'' (show_nat n)")
  case True
  then have "hd (show_nat n) = CHR ''0''" by (cases "show_nat n") (auto simp: starts_with_def)
  then have "n = 0" by (rule show_nat_zero)
  then show ?thesis by simp
qed simp

lemma scan_show_int:
  assumes "stops rest"
  shows "scan_number (show_int n @ rest) = Inr (JInt n, rest)"
proof -
  have nat: "decimal (show_nat m) = m" for m using show_nat_value by (simp add: decimal_def)
  show ?thesis
  proof (cases "n < 0")
    case True
    then have "show_int n @ rest = CHR ''-'' # show_nat (nat (- n)) @ rest" by (simp add: show_int_def)
    moreover have "starts_with ''-'' (CHR ''-'' # show_nat (nat (- n)) @ rest)" by (simp add: starts_with_def)
    ultimately show ?thesis
      using True assms by (simp add: scan_number_def stops_digits int_part_show_nat show_nat_ne stops_no_float nat)
  next
    case False
    then show ?thesis
      using assms show_nat_not_minus[of "nat n" rest]
      by (simp add: scan_number_def show_int_def stops_digits int_part_show_nat show_nat_ne stops_no_float nat)
  qed
qed

text \<open>The dictionaries of Python: no key twice.\<close>

fun dict_ok :: "json \<Rightarrow> bool" where
  "dict_ok (JArr xs) \<longleftrightarrow> list_all dict_ok xs"
| "dict_ok (JObj kvs) \<longleftrightarrow> distinct (map fst kvs) \<and> list_all (\<lambda>kv. dict_ok (snd kv)) kvs"
| "dict_ok _ \<longleftrightarrow> True"

lemma dict_of_distinct: "distinct (map fst kvs) \<Longrightarrow> dict_of kvs = kvs"
proof -
  have "fold (\<lambda>(k, v) d. AList.update k v d) kvs d = d @ kvs" if "distinct (map fst (d @ kvs))" for d
    using that
  proof (induction kvs arbitrary: d)
    case (Cons kv kvs)
    obtain k v where kv: "kv = (k, v)" by fastforce
    have "AList.update k v d = d @ [(k, v)]" if "k \<notin> fst ` set d"
      using that by (induction d) auto
    with Cons kv show ?case by simp
  qed simp
  then show "distinct (map fst kvs) \<Longrightarrow> dict_of kvs = kvs" by (simp add: dict_of_def)
qed

text \<open>How the text of a value begins.\<close>

definition begins :: "string \<Rightarrow> bool" where
  "begins s \<longleftrightarrow> s \<noteq> [] \<and> \<not> json_space (hd s) \<and> hd s \<noteq> CHR '']'' \<and> hd s \<noteq> CHR ''}''"

lemma begins_show_int: "begins (show_int n)"
proof -
  have "begins (show_nat m)" for m
    using show_nat_ne[of m] show_nat_digits[OF hd_in_set[OF show_nat_ne[of m]]]
    by (auto simp: begins_def json_space_def is_digit_def code_def)
  then show ?thesis by (simp add: show_int_def) (simp add: begins_def json_space_def code_def)
qed

lemma begins_dumps: "begins (json_dumps j)"
proof (cases j)
  case (JInt n)
  then show ?thesis by (simp add: begins_show_int)
qed (simp_all add: begins_def json_space_def code_def dumps_string_def quote_def)

lemma begins_append: "begins s \<Longrightarrow> begins (s @ t)"
  by (cases s) (auto simp: begins_def)

lemma begins_skip: "begins s \<Longrightarrow> skip_space (s @ t) = s @ t" "begins s \<Longrightarrow> skip_space s = s"
  by (cases s; simp add: begins_def skip_space_def)+

lemma begins_commas: "begins w \<Longrightarrow> begins (commas (w # ws))"
  by (cases ws) (simp_all add: begins_append)

text \<open>What \<open>json_dumps\<close> writes is read back, whatever follows.\<close>

definition reads :: "json \<Rightarrow> bool" where
  "reads j \<longleftrightarrow> (\<forall>n rest. stops rest \<longrightarrow> 2 * length (json_dumps j) < n \<longrightarrow>
     scan_value n (json_dumps j @ rest) = Inr (j, rest))"

lemma readsD: "reads j \<Longrightarrow> stops rest \<Longrightarrow> 2 * length (json_dumps j) < n \<Longrightarrow> scan_value n (json_dumps j @ rest) = Inr (j, rest)"
  by (simp add: reads_def)

lemma token_simps [simp]:
  "skip_space (CHR '','' # s) = CHR '','' # s" "skip_space (CHR '']'' # s) = CHR '']'' # s"
  "skip_space (CHR ''}'' # s) = CHR ''}'' # s" "skip_space (CHR '':'' # s) = CHR '':'' # s"
  "skip_space (CHR '' '' # s) = skip_space s"
  "starts_with [c] (d # s) \<longleftrightarrow> d = c" "starts_with (c # p) (d # s) \<longleftrightarrow> d = c \<and> starts_with p s"
  "starts_with [] s"
  by (simp_all add: skip_space_def json_space_def code_def starts_with_def)

lemma scan_elements_dumps:
  assumes "\<forall>x\<in>set xs. reads x" "xs \<noteq> []" "Suc (2 * length (commas (map json_dumps xs))) < n"
  shows "scan_elements n (commas (map json_dumps xs) @ CHR '']'' # rest) = Inr (xs, rest)"
  using assms
proof (induction xs arbitrary: n)
  case (Cons x xs)
  obtain m where n: "n = Suc m" using Cons.prems(3) by (cases n) auto
  show ?case
  proof (cases xs)
    case Nil
    then show ?thesis
      using Cons.prems readsD[of x "CHR '']'' # rest" m] by (simp add: n)
  next
    case (Cons y ys)
    let ?more = "commas (map json_dumps xs)"
    have body: "commas (map json_dumps (x # xs)) @ CHR '']'' # rest = json_dumps x @ '', '' @ ?more @ CHR '']'' # rest"
      by (simp add: Cons)
    have len: "length (commas (map json_dumps (x # xs))) = length (json_dumps x) + 2 + length ?more"
      by (simp add: Cons)
    have x: "scan_value m (json_dumps x @ '', '' @ ?more @ CHR '']'' # rest) = Inr (x, '', '' @ ?more @ CHR '']'' # rest)"
      by (rule readsD) (use Cons.prems len n in simp_all)
    have more: "skip_space (?more @ CHR '']'' # rest) = ?more @ CHR '']'' # rest"
      using begins_skip(1)[OF begins_commas[OF begins_dumps[of y], of "map json_dumps ys"]] by (simp add: Cons)
    have "scan_elements m (?more @ CHR '']'' # rest) = Inr (xs, rest)"
      by (rule Cons.IH) (use Cons.prems len n \<open>xs = y # ys\<close> in simp_all)
    then show ?thesis
      unfolding body n scan_elements.simps x using more by simp
  qed
qed simp

abbreviation member :: "string \<times> json \<Rightarrow> string" where
  "member kv \<equiv> dumps_string (fst kv) @ '': '' @ json_dumps (snd kv)"

lemma scan_members_dumps:
  assumes "\<forall>kv\<in>set kvs. reads (snd kv)" "kvs \<noteq> []" "Suc (2 * length (commas (map member kvs))) < n"
  shows "scan_members n (commas (map member kvs) @ CHR ''}'' # rest) = Inr (kvs, rest)"
  using assms
proof (induction kvs arbitrary: n)
  case (Cons kv kvs)
  obtain m where n: "n = Suc m" using Cons.prems(3) by (cases n) auto
  obtain k v where kv: "kv = (k, v)" by fastforce
  have v: "reads v" using Cons.prems(1) by (simp add: kv)
  have field: "skip_space (json_dumps v @ s) = json_dumps v @ s" for s
    by (rule begins_skip(1)[OF begins_dumps])
  have len: "length (json_dumps v) + 2 \<le> length (member kv)" by (simp add: kv)
  show ?case
  proof (cases kvs)
    case Nil
    have "scan_value m (json_dumps v @ CHR ''}'' # rest) = Inr (v, CHR ''}'' # rest)"
      by (rule readsD[OF v]) (use Cons.prems len n Nil in simp_all)
    then show ?thesis
      by (simp add: Nil n kv dumps_string_append scan_dumps_string field)
  next
    case (Cons kv' kvs')
    let ?more = "commas (map member kvs)"
    have body: "commas (map member (kv # kvs)) @ CHR ''}'' # rest
        = dumps_string k @ '': '' @ json_dumps v @ '', '' @ ?more @ CHR ''}'' # rest"
      by (simp add: Cons kv)
    have lens: "length (commas (map member (kv # kvs))) = length (member kv) + 2 + length ?more"
      by (simp add: Cons)
    have x: "scan_value m (json_dumps v @ '', '' @ ?more @ CHR ''}'' # rest) = Inr (v, '', '' @ ?more @ CHR ''}'' # rest)"
      by (rule readsD[OF v]) (use Cons.prems len lens n in simp_all)
    have "begins (member kv')"
      by (rule begins_append) (simp add: begins_def dumps_string_def quote_def json_space_def code_def)
    from begins_skip(1)[OF begins_commas[OF this, of "map member kvs'"]]
    have more: "skip_space (?more @ CHR ''}'' # rest) = ?more @ CHR ''}'' # rest" by (simp add: Cons)
    have "scan_members m (?more @ CHR ''}'' # rest) = Inr (kvs, rest)"
      by (rule Cons.IH) (use Cons.prems lens n \<open>kvs = kv' # kvs'\<close> in simp_all)
    then show ?thesis
      unfolding body n scan_members.simps using x more field by (simp add: kv dumps_string_append scan_dumps_string)
  qed
qed simp

lemma reads_dumps: "dict_ok j \<Longrightarrow> reads j"
proof (induction j)
  case (JInt i)
  have number: "scan_value (Suc m) (show_int i @ rest) = scan_number (show_int i @ rest)" for m rest
  proof -
    have "show_int i \<noteq> []" "hd (show_int i) = CHR ''-'' \<or> is_digit (hd (show_int i))"
      using show_nat_digits[OF hd_in_set[OF show_nat_ne]] show_nat_ne by (simp_all add: show_int_def)
    then obtain c cs where c: "show_int i = c # cs" "c = CHR ''-'' \<or> is_digit c"
      by (cases "show_int i") simp_all
    then have other: "c \<notin> {quote, CHR ''{'', CHR ''['', CHR ''n'', CHR ''t'', CHR ''f'', CHR ''N'', CHR ''I''}"
      by (auto simp: quote_def is_digit_def code_def)
    have "\<not> starts_with ''-Infinity'' (show_int i @ rest)"
    proof
      assume "starts_with ''-Infinity'' (show_int i @ rest)"
      then have minus: "c = CHR ''-''" and inf: "starts_with ''Infinity'' (cs @ rest)" by (simp_all add: c(1))
      moreover have "\<exists>d ds. cs = d # ds \<and> is_digit d"
      proof (cases "i < 0")
        case True
        then have "cs = show_nat (nat (- i))" using c(1) by (simp add: show_int_def)
        then show ?thesis using show_nat_Cons by simp
      next
        case False
        then have "show_nat (nat i) = CHR ''-'' # cs" using c(1) minus by (simp add: show_int_def)
        then show ?thesis using show_nat_not_minus[of "nat i" "[]"] by simp
      qed
      ultimately show False by (auto simp: is_digit_def code_def)
    qed
    then show ?thesis using other by (simp add: c(1)) blast
  qed
  show ?case
    unfolding reads_def
  proof (intro allI impI)
    fix n rest assume "stops rest" "2 * length (json_dumps (JInt i)) < n"
    then show "scan_value n (json_dumps (JInt i) @ rest) = Inr (JInt i, rest)"
      by (cases n) (simp_all add: number scan_show_int del: scan_value.simps)
  qed
next
  case (JArr xs)
  then have xs: "\<forall>x\<in>set xs. reads x" by (auto simp: list_all_iff)
  show ?case
    unfolding reads_def
  proof (intro allI impI)
    fix n rest assume "stops rest" and n: "2 * length (json_dumps (JArr xs)) < n"
    obtain m where m: "n = Suc m" using n by (cases n) auto
    show "scan_value n (json_dumps (JArr xs) @ rest) = Inr (JArr xs, rest)"
    proof (cases xs)
      case Nil
      then show ?thesis by (simp add: m quote_def)
    next
      case (Cons y ys)
      have b: "begins (commas (map json_dumps xs))"
        using begins_commas[OF begins_dumps[of y], of "map json_dumps ys"] by (simp add: Cons)
      then have "\<not> starts_with '']'' (commas (map json_dumps xs) @ CHR '']'' # rest)"
        by (cases "commas (map json_dumps xs)") (auto simp: begins_def)
      moreover have "scan_elements m (commas (map json_dumps xs) @ CHR '']'' # rest) = Inr (xs, rest)"
        by (rule scan_elements_dumps[OF xs]) (use n m Cons in simp_all)
      ultimately show ?thesis
        using begins_skip(1)[OF b] by (simp add: m quote_def)
    qed
  qed
next
  case (JObj kvs)
  then have kvs: "\<forall>kv\<in>set kvs. reads (snd kv)" and dist: "distinct (map fst kvs)"
    by (fastforce simp: list_all_iff)+
  show ?case
    unfolding reads_def
  proof (intro allI impI)
    fix n rest assume "stops rest" and n: "2 * length (json_dumps (JObj kvs)) < n"
    obtain m where m: "n = Suc m" using n by (cases n) auto
    show "scan_value n (json_dumps (JObj kvs) @ rest) = Inr (JObj kvs, rest)"
    proof (cases kvs)
      case Nil
      then show ?thesis by (simp add: m quote_def)
    next
      case (Cons kv kvs')
      have b: "begins (commas (map member kvs))"
        unfolding Cons list.map by (intro begins_commas begins_append) (simp add: begins_def dumps_string_def quote_def json_space_def code_def)
      then have "\<not> starts_with ''}'' (commas (map member kvs) @ CHR ''}'' # rest)"
        by (cases "commas (map member kvs)") (auto simp: begins_def)
      moreover have "scan_members m (commas (map member kvs) @ CHR ''}'' # rest) = Inr (kvs, rest)"
        by (rule scan_members_dumps[OF kvs]) (use n m Cons in simp_all)
      ultimately show ?thesis
        using begins_skip(1)[OF b] dict_of_distinct[OF dist] by (simp add: m quote_def)
    qed
  qed
next
  case JNull
  have "scan_value n (json_dumps JNull @ rest) = Inr (JNull, rest)" if "0 < n" for n rest
    using that by (cases n) (simp_all add: quote_def)
  then show ?case by (auto simp: reads_def simp del: json_dumps.simps)
next
  case (JBool b)
  have "scan_value n (json_dumps (JBool b) @ rest) = Inr (JBool b, rest)" if "0 < n" for n rest
    using that by (cases n) (simp_all add: quote_def)
  then show ?case by (auto simp: reads_def simp del: json_dumps.simps)
next
  case (JStr t)
  have "scan_value n (json_dumps (JStr t) @ rest) = Inr (JStr t, rest)" if "0 < n" for n rest
    using that by (cases n) (simp_all add: dumps_string_append scan_dumps_string)
  then show ?case by (auto simp: reads_def simp del: json_dumps.simps)
qed

subsection \<open>What holds of the texts\<close>

lemma ascii_hex: "d < 16 \<Longrightarrow> code (hex_digit d) < 128"
  by (simp add: hex_digit_def code_digit)

lemma ascii_show_nat: "list_all (\<lambda>c. code c < 128) (show_nat n)"
  using show_nat_digits by (fastforce simp: list_all_iff is_digit_def)

lemma ascii_dumps_string: "list_all (\<lambda>c. code c < 128) (dumps_string s)"
proof -
  have "list_all (\<lambda>c. code c < 128) (escape_char c)" for c
  proof -
    have "code c div 16 < 16" using code_bound[of c] by simp
    then show ?thesis
      using ascii_hex[of "code c div 16"] ascii_hex[of "code c mod 16"]
      by (auto simp: escape_char_def code_def quote_def backslash_def)
  qed
  then show ?thesis by (induction s) (simp_all add: dumps_string_def quote_def code_def)
qed

lemma ascii_commas: "list_all (list_all (\<lambda>c. code c < 128)) ws \<Longrightarrow> list_all (\<lambda>c. code c < 128) (commas ws)"
  by (induction ws rule: commas.induct) (simp_all add: code_def)

lemma ascii_dumps: "list_all (\<lambda>c. code c < 128) (json_dumps j)"
proof (induction j)
  case (JInt n)
  show ?case using ascii_show_nat by (simp add: show_int_def) (simp add: code_def)
next
  case (JArr xs)
  then show ?case using ascii_commas[of "map json_dumps xs"] by (simp add: list_all_iff code_def)
next
  case (JObj kvs)
  then have "list_all (list_all (\<lambda>c. code c < 128)) (map member kvs)"
    using ascii_dumps_string by (fastforce simp: list_all_iff code_def)
  then show ?case using ascii_commas by (simp add: code_def)
qed (simp_all add: ascii_dumps_string, simp_all add: code_def)

lemma json_loads_dumps:
  assumes "dict_ok j"
  shows "json_loads (json_dumps j) = Inr j"
proof -
  have "scan_value (Suc (2 * length (json_dumps j))) (json_dumps j @ []) = Inr (j, [])"
    by (rule readsD[OF reads_dumps[OF assms]]) simp_all
  then show ?thesis
    using begins_skip(2)[OF begins_dumps[of j]] by (simp add: json_loads_def skip_space_def)
qed

text \<open>
  \<open>json.loads\<close> undoes \<open>json.dumps\<close>: every value whose dictionaries have no key twice is read back from
  its text exactly, whatever its strings hold, and the text is pure ASCII.
\<close>

lemma loads_dumps:
  assumes "dict_ok j"
  shows "json_loads (json_dumps j) = Inr j \<and> list_all (\<lambda>c. code c < 128) (json_dumps j)"
  using json_loads_dumps[OF assms] ascii_dumps[of j] by blast

lemma loads_dumps_witness:
  "json_loads (json_dumps (JObj [(''slug'', JStr [quote, char_of (233 :: nat), backslash]), (''id'', JArr [JInt (- 7), JNull])]))
    = Inr (JObj [(''slug'', JStr [quote, char_of (233 :: nat), backslash]), (''id'', JArr [JInt (- 7), JNull])])"
  using loads_dumps[of "JObj [(''slug'', JStr [quote, char_of (233 :: nat), backslash]), (''id'', JArr [JInt (- 7), JNull])]"]
  by (simp del: json_dumps.simps)

text \<open>
  The bound on nested calls that makes the parser a function is never met: for every text there is a
  value, a ValueError, or OtherError for what the model does not compute (a number with a fraction or an
  exponent, NaN and the infinities, an escape above \<open>\u00ff\<close>). Python's own limit on nested calls (a RecursionError for a text nested about a thousand
  deep) is not modelled.
\<close>

lemma json_loads_returns:
  "(\<exists>j. json_loads s = Inr j) \<or> json_loads s = Inl ValueError \<or> json_loads s = Inl OtherError"
  using json_loads_exc[of s] by (cases "json_loads s") auto

end
