(* ===== verification/Wire.thy ===== *)
theory Wire
  imports Pipeline JsonText
begin

section \<open>Records on the wire: the serializers of relay.py and the deserializers of the consumers\<close>

text \<open>
  What a record is in Kafka: bytes. The producer of the relay serializes the payload of an event as JSON
  text, the consumers read it back before their loops see the message. A record that is no JSON
  raises inside the iteration over the consumer, where neither \<open>handle\<close> nor \<open>_apply\<close> can catch it.
\<close>

record wire_record =
  w_headers :: "(string \<times> string option) list"
  w_value :: string

text \<open>\<open>json.dumps(v).encode("utf-8")\<close>: the text is ASCII, so its bytes are its characters.\<close>

definition value_serializer :: "json \<Rightarrow> string" where
  "value_serializer v = json_dumps v"

text \<open>\<open>json.loads(v.decode("utf-8"))\<close>\<close>

definition value_deserializer :: "related_lib \<Rightarrow> string \<Rightarrow> json res" where
  "value_deserializer L raw = try_then (decode_bytes L raw) json_loads"

definition wire_of :: "kafka_record \<Rightarrow> wire_record" where
  "wire_of k = \<lparr>w_headers = k_headers k, w_value = value_serializer (k_value k)\<rparr>"

definition read_record :: "related_lib \<Rightarrow> string \<Rightarrow> nat \<times> nat \<Rightarrow> wire_record \<Rightarrow> message res" where
  "read_record L topic place w =
     try_then (value_deserializer L (w_value w)) (\<lambda>v.
       Inr \<lparr>m_topic = topic, m_partition = fst place, m_offset = snd place, m_headers = w_headers w, m_value = v\<rparr>)"

lemma deserialize_serialize: "dict_ok v \<Longrightarrow> value_deserializer L (value_serializer v) = Inr v"
  using ascii_dumps[of v]
  by (simp add: value_deserializer_def value_serializer_def decode_bytes_def json_loads_dumps)

lemma read_wire: "dict_ok (k_value k) \<Longrightarrow> read_record L (k_topic k) place (wire_of k) = Inr (message_of place k)"
  by (simp add: read_record_def wire_of_def deserialize_serialize message_of_def)

subsection \<open>The events of the posts service\<close>

definition payloads_ok :: "posts_db \<Rightarrow> bool" where
  "payloads_ok db \<longleftrightarrow> (\<forall>e\<in>set (pdb_outbox db). dict_ok (o_payload e))"

lemma payloads_ok_run_view:
  assumes "payloads_ok db" "run_view P req op db = (r, db')"
  shows "payloads_ok db'"
proof (cases r)
  case (Inl e)
  with assms show ?thesis using run_view_rejected[of P req op db e db'] by (simp add: payloads_ok_def same_rows_def)
next
  case (Inr x)
  have data: "dict_ok (post_data P p)" for p by (simp add: post_data_def)
  show ?thesis
  proof (cases op)
    case (Create data)
    with Inr assms data show ?thesis by (auto simp: payloads_ok_def recorded_def dest!: create_post_accepted)
  next
    case (Update slug data)
    with Inr assms data show ?thesis by (auto simp: payloads_ok_def recorded_def dest!: update_post_accepted)
  next
    case (Destroy slug)
    with Inr assms show ?thesis by (auto simp: payloads_ok_def recorded_def dest!: destroy_post_accepted)
  qed
qed

lemma payloads_ok_run_views: "payloads_ok (run_views P ops empty_posts_db)"
proof (induction ops rule: rev_induct)
  case (snoc o1 ops)
  then show ?case
    using payloads_ok_run_view[OF snoc prod.collapse[symmetric], of P "fst o1" "snd o1"]
    by (cases o1) (simp add: run_views_snoc)
qed (simp add: payloads_ok_def empty_posts_db_def)

subsection \<open>The consumer on bytes\<close>

text \<open>
  A session of the consumer on one partition: it starts at the committed offset, fetches chunks of
  records (\<open>sizes\<close>), which are deserialized as a whole, and passes their messages to \<open>handle\<close>. \<open>env\<close>
  gives the clock and the fate of the transaction of each offset.
\<close>

record wire_state =
  ws_db :: related_db
  ws_position :: nat
  ws_committed :: nat

fun handle_messages :: "related_lib \<Rightarrow> (nat \<Rightarrow> timestamp \<times> db_fate) \<Rightarrow> message list \<Rightarrow> wire_state \<Rightarrow> unit res \<times> wire_state" where
  "handle_messages L env [] st = (Inr (), st)"
| "handle_messages L env (m # ms) st =
     (let after = Suc (ws_position st) in
      case handle L (fst (env (ws_position st))) (snd (env (ws_position st))) m (ws_db st) of
        (Inl e, db') \<Rightarrow> (Inl e, st\<lparr>ws_db := db', ws_position := after\<rparr>)
      | (Inr commit, db') \<Rightarrow>
          handle_messages L env ms (st\<lparr>ws_db := db', ws_position := after,
            ws_committed := (if commit then after else ws_committed st)\<rparr>))"

fun read_chunk :: "related_lib \<Rightarrow> string \<Rightarrow> nat \<Rightarrow> wire_record list \<Rightarrow> message list res" where
  "read_chunk L topic offset [] = Inr []"
| "read_chunk L topic offset (w # ws) =
     try_then (read_record L topic (0, offset) w) (\<lambda>m.
     try_then (read_chunk L topic (Suc offset) ws) (\<lambda>ms. Inr (m # ms)))"

fun wire_session :: "related_lib \<Rightarrow> (nat \<Rightarrow> timestamp \<times> db_fate) \<Rightarrow> string \<Rightarrow> wire_record list \<Rightarrow> nat list \<Rightarrow> wire_state \<Rightarrow> unit res \<times> wire_state" where
  "wire_session L env topic recs [] st = (Inr (), st)"
| "wire_session L env topic recs (n # sizes) st =
     (case read_chunk L topic (ws_position st) (take n (drop (ws_position st) recs)) of
        Inl e \<Rightarrow> (Inl e, st)
      | Inr ms \<Rightarrow>
          (case handle_messages L env ms st of
             (Inl e, st') \<Rightarrow> (Inl e, st')
           | (Inr _, st') \<Rightarrow> wire_session L env topic recs sizes st'))"

text \<open>The process ends and is started again, any number of times.\<close>

definition wire_restart :: "wire_state \<Rightarrow> wire_state" where
  "wire_restart st = st\<lparr>ws_position := ws_committed st\<rparr>"

definition wire_sessions :: "related_lib \<Rightarrow> string \<Rightarrow> wire_record list \<Rightarrow> ((nat \<Rightarrow> timestamp \<times> db_fate) \<times> nat list) list \<Rightarrow> wire_state \<Rightarrow> wire_state" where
  "wire_sessions L topic recs runs st =
     fold (\<lambda>(env, sizes) st. snd (wire_session L env topic recs sizes (wire_restart st))) runs st"

lemma read_chunk_reads:
  "read_chunk L topic offset ws = Inr ms \<Longrightarrow> length ms = length ws \<and> (\<forall>w\<in>set ws. \<exists>v. value_deserializer L (w_value w) = Inr v)"
  by (induction ws arbitrary: offset ms) (auto simp: try_then_eq_Inr_iff read_record_def)

lemma handle_messages_bounds:
  "handle_messages L env ms st = (r, st') \<Longrightarrow> ws_committed st \<le> ws_position st \<Longrightarrow>
     ws_committed st' \<le> ws_position st' \<and> ws_position st' \<le> ws_position st + length ms"
proof (induction ms arbitrary: st)
  case (Cons m ms)
  obtain r1 db1 where h: "handle L (fst (env (ws_position st))) (snd (env (ws_position st))) m (ws_db st) = (r1, db1)"
    by fastforce
  show ?case
  proof (cases r1)
    case (Inl e)
    with h Cons.prems show ?thesis by auto
  next
    case (Inr commit)
    with h Cons.prems Cons.IH[of "st\<lparr>ws_db := db1, ws_position := Suc (ws_position st),
        ws_committed := (if commit then Suc (ws_position st) else ws_committed st)\<rparr>"]
    show ?thesis by (auto simp: Let_def)
  qed
qed auto

text \<open>A chunk that was read does not hold the bad record, so the position stays before it.\<close>

lemma wire_session_stuck:
  assumes bad: "bad < length recs" "value_deserializer L (w_value (recs ! bad)) = Inl e"
    and "ws_committed st \<le> ws_position st" "ws_position st \<le> bad"
    and "wire_session L env topic recs sizes st = (r, st')"
  shows "ws_committed st' \<le> bad \<and> ws_position st' \<le> bad"
  using assms(3-)
proof (induction sizes arbitrary: st)
  case (Cons n sizes)
  let ?chunk = "take n (drop (ws_position st) recs)"
  show ?case
  proof (cases "read_chunk L topic (ws_position st) ?chunk")
    case (Inl e')
    with Cons.prems show ?thesis by auto
  next
    case (Inr ms)
    note R = read_chunk_reads[OF Inr]
    have "\<not> bad - ws_position st < length ?chunk"
    proof
      assume "bad - ws_position st < length ?chunk"
      moreover have "drop (ws_position st) recs ! (bad - ws_position st) = recs ! bad"
        using bad(1) Cons.prems(2) by simp
      ultimately have "recs ! bad = ?chunk ! (bad - ws_position st)" by simp
      then have "recs ! bad \<in> set ?chunk" using \<open>bad - ws_position st < length ?chunk\<close> nth_mem by metis
      with R bad(2) show False by auto
    qed
    then have short: "ws_position st + length ms \<le> bad" using R Cons.prems(2) by linarith
    obtain r1 st1 where st1: "handle_messages L env ms st = (r1, st1)" by fastforce
    with handle_messages_bounds[OF st1 Cons.prems(1)] short
    have "ws_committed st1 \<le> ws_position st1" "ws_position st1 \<le> bad" by simp_all
    with Cons.IH[of st1] Cons.prems(3) Inr st1 show ?thesis by (cases r1) auto
  qed
qed simp

subsection \<open>What holds on the wire\<close>

text \<open>
  C24: The events survive the wire: after any requests, what the consumer reads from the bytes the relay
  wrote for an event is the message with the event's topic, headers and payload.
\<close>

theorem events_survive_the_wire:
  "map (\<lambda>e. read_record L (o_topic e) place (wire_of (record_of e))) (pdb_outbox (run_views P ops empty_posts_db))
    = map (\<lambda>e. Inr (message_of place (record_of e))) (pdb_outbox (run_views P ops empty_posts_db))"
proof (rule map_cong[OF refl])
  fix e assume "e \<in> set (pdb_outbox (run_views P ops empty_posts_db))"
  then have "dict_ok (k_value (record_of e))"
    using payloads_ok_run_views[of P ops] by (simp add: payloads_ok_def record_of_def)
  from read_wire[OF this, of L place] show "read_record L (o_topic e) place (wire_of (record_of e)) = Inr (message_of place (record_of e))"
    by (simp add: record_of_def)
qed

text \<open>
  A record that is no JSON stops the consumer for good. Whatever is fetched, and however often the
  process is started again, the committed offset never passes the record, and a session whose
  first chunk holds it ends with an exception.
\<close>

lemma unreadable_record_blocks:
  assumes "bad < length recs" "value_deserializer L (w_value (recs ! bad)) = Inl e" "ws_committed st \<le> bad"
  shows "ws_committed (wire_sessions L topic recs runs st) \<le> bad
    \<and> (\<forall>env sizes n. \<exists>e'. fst (wire_session L env topic recs (Suc (bad + n) # sizes) (wire_restart st)) = Inl e')"
proof
  have "ws_committed (snd (wire_session L env topic recs sizes (wire_restart st))) \<le> bad" if "ws_committed st \<le> bad" for env sizes st
    using wire_session_stuck[OF assms(1,2) _ _ prod.collapse[symmetric], of "wire_restart st" env topic sizes] that
    by (simp add: wire_restart_def)
  then show "ws_committed (wire_sessions L topic recs runs st) \<le> bad"
    using assms(3) by (induction runs arbitrary: st) (auto simp: wire_sessions_def case_prod_beta)
  show "\<forall>env sizes n. \<exists>e'. fst (wire_session L env topic recs (Suc (bad + n) # sizes) (wire_restart st)) = Inl e'"
  proof (intro allI)
    fix env sizes n
    let ?chunk = "take (Suc (bad + n)) (drop (ws_committed st) recs)"
    have "bad - ws_committed st < length ?chunk" "?chunk ! (bad - ws_committed st) = recs ! bad"
      using assms(1,3) by (simp_all add: less_diff_conv)
    then have "recs ! bad \<in> set ?chunk" by (metis nth_mem)
    then have "\<nexists>ms. read_chunk L topic (ws_committed st) ?chunk = Inr ms"
      using read_chunk_reads assms(2) by fastforce
    then obtain e' where "read_chunk L topic (ws_committed st) ?chunk = Inl e'"
      by (cases "read_chunk L topic (ws_committed st) ?chunk") auto
    then show "\<exists>e'. fst (wire_session L env topic recs (Suc (bad + n) # sizes) (wire_restart st)) = Inl e'"
      by (simp add: wire_restart_def)
  qed
qed

lemma unreadable_record_blocks_witness:
  "ws_committed (wire_sessions plain_related_lib ''post_created'' [\<lparr>w_headers = [], w_value = ''no json''\<rparr>]
      [(\<lambda>_. (Timestamp 1, Works), [1, 1]), (\<lambda>_. (Timestamp 2, Works), [5])]
      \<lparr>ws_db = empty_related_db, ws_position = 0, ws_committed = 0\<rparr>) \<le> 0"
proof -
  have "value_deserializer plain_related_lib ''no json'' = Inl ValueError"
  proof -
    have "json_loads ''no json'' = Inl ValueError" by code_simp
    then show ?thesis by (simp add: value_deserializer_def decode_bytes_def code_def)
  qed
  then show ?thesis
    using unreadable_record_blocks[of 0 "[\<lparr>w_headers = [], w_value = ''no json''\<rparr>]" plain_related_lib ValueError
        "\<lparr>ws_db = empty_related_db, ws_position = 0, ws_committed = 0\<rparr>" "''post_created''"
        "[(\<lambda>_. (Timestamp 1, Works), [1, 1]), (\<lambda>_. (Timestamp 2, Works), [5])]"] by simp
qed

end
