(* ===== verification/Interleaving.thy ===== *)
theory Interleaving
  imports Pipeline
begin

section \<open>Which order of the events is enough\<close>

text \<open>
  The outbox rows of posts that keep their slugs, applied in an order that is not the one of the outbox: it is
  enough that rows with the same key, the slug, stay in order. What the handlers need of a row is
  stated on the mirror (\<open>fits_mirror\<close>), and shown to depend on the rows with its key only.
\<close>

definition puts :: "outbox_event \<Rightarrow> int \<Rightarrow> bool" where
  "puts e i \<longleftrightarrow> (\<exists>title img body. event_change (o_topic e) (o_payload e) = Some (Put i title img body (o_key e)))"

definition slug_free :: "mirror \<Rightarrow> string \<Rightarrow> bool" where
  "slug_free m s \<longleftrightarrow> (\<forall>j f. m j = Some f \<longrightarrow> slug_of f \<noteq> s)"

definition slug_only :: "mirror \<Rightarrow> int \<Rightarrow> string \<Rightarrow> bool" where
  "slug_only m i s \<longleftrightarrow> (\<forall>j f. m j = Some f \<longrightarrow> slug_of f = s \<longrightarrow> j = i)"

inductive fits_mirror :: "mirror \<Rightarrow> outbox_event \<Rightarrow> bool" where
  created: "o_topic e = TOPIC_CREATED \<Longrightarrow> o_payload e = post_payload i title img body (o_key e) extra \<Longrightarrow>
    fields_fit i title img body (o_key e) \<Longrightarrow> m i = None \<Longrightarrow> slug_free m (o_key e) \<Longrightarrow> fits_mirror m e"
| updated: "o_topic e = TOPIC_UPDATED \<Longrightarrow> o_payload e = post_payload i title img body (o_key e) extra \<Longrightarrow>
    fields_fit i title img body (o_key e) \<Longrightarrow> m i = Some f \<Longrightarrow> slug_of f = o_key e \<Longrightarrow>
    slug_only m i (o_key e) \<Longrightarrow> fits_mirror m e"
| deleted: "o_topic e = TOPIC_DELETED \<Longrightarrow> getitem (o_payload e) ''slug'' = Inr (JStr (o_key e)) \<Longrightarrow> fits_mirror m e"

text \<open>The rows of one post have one key.\<close>

definition one_key :: "outbox_event list \<Rightarrow> bool" where
  "one_key es \<longleftrightarrow> (\<forall>e\<in>set es. \<forall>e'\<in>set es. \<forall>i. puts e i \<longrightarrow> puts e' i \<longrightarrow> o_key e = o_key e')"

lemma one_keyD: "one_key es \<Longrightarrow> e \<in> set es \<Longrightarrow> e' \<in> set es \<Longrightarrow> puts e i \<Longrightarrow> puts e' i \<Longrightarrow> o_key e = o_key e'"
  unfolding one_key_def by blast

lemma one_key_snoc:
  assumes "one_key es" "\<forall>e'\<in>set es. \<forall>i. puts e i \<longrightarrow> puts e' i \<longrightarrow> o_key e = o_key e'"
  shows "one_key (es @ [e])"
proof -
  have "o_key x = o_key y" if "x \<in> set (es @ [e])" "y \<in> set (es @ [e])" "puts x i" "puts y i" for x y i
  proof -
    have old: "o_key x = o_key y" if "x \<in> set es" "y \<in> set es" using one_keyD[OF assms(1) that] \<open>puts x i\<close> \<open>puts y i\<close> .
    have "x = e \<or> x \<in> set es" "y = e \<or> y \<in> set es" using that(1,2) by auto
    then consider "x \<in> set es" "y \<in> set es" | "x = e" "y = e" | "x = e" "y \<in> set es" | "y = e" "x \<in> set es" by blast
    then show ?thesis
    proof cases
      case 1
      then show ?thesis by (rule old)
    next
      case 3
      with that(3,4) assms(2) show ?thesis by blast
    next
      case 4
      with that(3,4) assms(2) have "o_key y = o_key x" by blast
      then show ?thesis by (rule sym)
    qed simp
  qed
  then show ?thesis unfolding one_key_def by blast
qed

text \<open>What a sequence of requests that rename nothing leaves in the outbox.\<close>

definition history :: "outbox_event list \<Rightarrow> bool" where
  "history es \<longleftrightarrow> distinct (map o_id es) \<and> (\<forall>e\<in>set es. event_id_ok (o_id e))
     \<and> one_key es \<and> (\<forall>ys e zs. es = ys @ e # zs \<longrightarrow> fits_mirror (replay ys Map.empty) e)"

lemma history_snoc:
  assumes "history es" "fits_mirror (replay es Map.empty) e" "o_id e \<notin> o_id ` set es" "event_id_ok (o_id e)"
    and "\<forall>e'\<in>set es. \<forall>i. puts e i \<longrightarrow> puts e' i \<longrightarrow> o_key e = o_key e'"
  shows "history (es @ [e])"
proof -
  have "fits_mirror (replay ys Map.empty) e'" if "es @ [e] = ys @ e' # zs" for ys e' zs
  proof (cases zs rule: rev_cases)
    case Nil
    then show ?thesis using that assms(2) by simp
  next
    case (snoc zs' z)
    then show ?thesis using that assms(1) by (auto simp: history_def)
  qed
  moreover have "one_key (es @ [e])" using one_key_snoc[of es e] assms(1,5) by (simp add: history_def)
  moreover have "distinct (map o_id (es @ [e]))" "\<forall>x\<in>set (es @ [e]). event_id_ok (o_id x)"
    using assms(1,3,4) by (auto simp: history_def)
  ultimately show ?thesis unfolding history_def by blast
qed

definition of_key :: "string \<Rightarrow> outbox_event list \<Rightarrow> outbox_event list" where
  "of_key k = filter (\<lambda>e. o_key e = k)"

lemma of_key_simps [simp]: "of_key k [] = []" "of_key k (xs @ ys) = of_key k xs @ of_key k ys"
  "of_key k (e # es) = (if o_key e = k then e # of_key k es else of_key k es)" "set (of_key k es) = {e \<in> set es. o_key e = k}"
  by (auto simp: of_key_def)

subsection \<open>The mirror, key by key\<close>

lemma event_change_of_payload [simp]:
  "event_change TOPIC_CREATED (post_payload i title img body slug extra) = Some (Put i title img body slug)"
  "event_change TOPIC_UPDATED (post_payload i title img body slug extra) = Some (Put i title img body slug)"
  by (simp_all add: event_change_def post_payload_def)

lemma fits_mirror_change:
  assumes "fits_mirror m e"
  shows "(\<exists>i title img body. event_change (o_topic e) (o_payload e) = Some (Put i title img body (o_key e)))
    \<or> event_change (o_topic e) (o_payload e) = Some (Drop (o_key e))"
  using assms
proof cases
  case deleted
  then show ?thesis by (simp add: event_change_def)
qed auto

definition keyed :: "outbox_event list \<Rightarrow> bool" where
  "keyed es \<longleftrightarrow> (\<forall>e\<in>set es. (\<exists>i. puts e i) \<or> event_change (o_topic e) (o_payload e) = Some (Drop (o_key e)))
     \<and> one_key es"

lemma keyed_subset: "keyed es \<Longrightarrow> set xs \<subseteq> set es \<Longrightarrow> keyed xs"
  unfolding keyed_def one_key_def by blast

lemma history_keyed: "history es \<Longrightarrow> keyed es"
proof -
  assume h: "history es"
  have "(\<exists>i. puts e i) \<or> event_change (o_topic e) (o_payload e) = Some (Drop (o_key e))" if mem: "e \<in> set es" for e
  proof -
    obtain ys zs where "es = ys @ e # zs" using mem by (meson split_list)
    then have "fits_mirror (replay ys Map.empty) e" using h by (simp add: history_def)
    from fits_mirror_change[OF this] show ?thesis by (auto simp: puts_def)
  qed
  with h show ?thesis by (simp add: keyed_def history_def)
qed

lemma replay_from_put:
  assumes "keyed es" "replay es Map.empty i = Some f"
  shows "\<exists>e\<in>set es. puts e i \<and> o_key e = slug_of f"
  using assms
proof (induction es rule: rev_induct)
  case (snoc e es)
  have IH: "replay es Map.empty i = Some f \<Longrightarrow> ?case"
    using snoc.IH keyed_subset[OF snoc.prems(1), of es] by auto
  consider (put) j t g b where "event_change (o_topic e) (o_payload e) = Some (Put j t g b (o_key e))"
    | (drop) "event_change (o_topic e) (o_payload e) = Some (Drop (o_key e))"
    using snoc.prems(1) by (auto simp: keyed_def puts_def)
  then show ?case
  proof cases
    case put
    show ?thesis
    proof (cases "i = j")
      case True
      with put snoc.prems(2) have "puts e i" "o_key e = slug_of f" by (auto simp: puts_def slug_of_def)
      then show ?thesis by auto
    qed (use put snoc.prems(2) IH in auto)
  next
    case drop
    with snoc.prems(2) have "replay es Map.empty i = Some f" by (auto split: option.splits if_splits)
    then show ?thesis by (rule IH)
  qed
qed simp

text \<open>The posts with a slug depend on the rows with that key only.\<close>

lemma replay_of_key:
  assumes "keyed es"
  shows "replay es Map.empty i = Some f \<longleftrightarrow> replay (of_key (slug_of f) es) Map.empty i = Some f"
  using assms
proof (induction es rule: rev_induct)
  case (snoc e es)
  have keyed: "keyed es" "keyed (of_key (slug_of f) es)"
    using keyed_subset[OF snoc.prems, of es] keyed_subset[OF snoc.prems, of "of_key (slug_of f) es"] by auto
  note IH = snoc.IH[OF keyed(1)]
  consider (put) j t g b where "event_change (o_topic e) (o_payload e) = Some (Put j t g b (o_key e))"
    | (drop) "event_change (o_topic e) (o_payload e) = Some (Drop (o_key e))"
    using snoc.prems by (auto simp: keyed_def puts_def)
  then show ?case
  proof cases
    case put
    have other: "replay (of_key (slug_of f) es) Map.empty j \<noteq> Some f" if ne: "o_key e \<noteq> slug_of f"
    proof
      assume "replay (of_key (slug_of f) es) Map.empty j = Some f"
      from replay_from_put[OF keyed(2) this] obtain e' where "e' \<in> set es" "puts e' j" "o_key e' = slug_of f" by auto
      moreover have "puts e j" using put by (auto simp: puts_def)
      moreover have "one_key (es @ [e])" using snoc.prems by (simp add: keyed_def)
      ultimately show False using ne one_keyD[of "es @ [e]" e' e j] by simp
    qed
    have "slug_of (t, Some g, Some b, o_key e) = o_key e" by (simp add: slug_of_def)
    with put IH other show ?thesis by (cases "i = j"; cases "o_key e = slug_of f") auto
  next
    case drop
    with IH show ?thesis by (cases "o_key e = slug_of f") (auto split: option.splits)
  qed
qed simp

lemma replay_same_key:
  assumes "keyed es" "keyed xs" "of_key (slug_of f) xs = of_key (slug_of f) es"
  shows "replay xs Map.empty i = Some f \<longleftrightarrow> replay es Map.empty i = Some f"
  using replay_of_key[OF assms(1), of i f] replay_of_key[OF assms(2), of i f] assms(3) by simp

text \<open>So does what the handlers need of a row.\<close>

lemma fits_mirror_transfer:
  assumes h: "history (ys @ e # zs)" and xs: "set xs \<subseteq> set (ys @ e # zs)" and key: "of_key (o_key e) xs = of_key (o_key e) ys"
  shows "fits_mirror (replay xs Map.empty) e"
proof -
  note keyed = history_keyed[OF h]
  have kys: "keyed ys" and kxs: "keyed xs" using keyed_subset[OF keyed] xs by auto
  have same: "replay xs Map.empty i = Some f \<longleftrightarrow> replay ys Map.empty i = Some f" if "slug_of f = o_key e" for i f
    using replay_same_key[OF kys kxs] key that by simp
  have "fits_mirror (replay ys Map.empty) e" using h unfolding history_def by blast
  then show ?thesis
  proof cases
    case (created i title img body extra)
    have "replay xs Map.empty i = None"
    proof (rule ccontr)
      assume "replay xs Map.empty i \<noteq> None"
      then obtain f where f: "replay xs Map.empty i = Some f" by auto
      obtain e' where e': "e' \<in> set xs" "puts e' i" "o_key e' = slug_of f" using replay_from_put[OF kxs f] by blast
      have "puts e i" using created(1,2) by (simp add: puts_def)
      moreover have "one_key (ys @ e # zs)" using keyed by (simp add: keyed_def)
      moreover have "e' \<in> set (ys @ e # zs)" using e'(1) xs by blast
      ultimately have "o_key e' = o_key e" using one_keyD[of "ys @ e # zs" e' e i] e'(2) by simp
      with e'(3) same[of f i] f created(4) show False by simp
    qed
    moreover have "slug_free (replay xs Map.empty) (o_key e)"
      using same created(5) unfolding slug_free_def by blast
    ultimately show ?thesis using created(1-3) by (intro fits_mirror.created)
  next
    case (updated i title img body extra f)
    have "slug_only (replay xs Map.empty) i (o_key e)" using same updated(6) unfolding slug_only_def by blast
    moreover have "replay xs Map.empty i = Some f" using same updated(4,5) by blast
    ultimately show ?thesis using updated(1-3,5) by (intro fits_mirror.updated)
  next
    case deleted
    then show ?thesis by (intro fits_mirror.deleted)
  qed
qed

subsection \<open>One row, applied\<close>

lemma mirror_row: "related_mirror rows i = Some f \<Longrightarrow> \<exists>r. row_at rp_id i rows = Some r \<and> related_fields r = f"
  by (auto simp: related_mirror_def)

lemma mirror_member:
  assumes "related_db_ok db" "r \<in> set (rdb_posts db)"
  shows "related_mirror (rdb_posts db) (rp_id r) = Some (related_fields r)"
  using row_at_distinct[OF related_db_ok_distinct(1)[OF assms(1)] assms(2)] by (simp add: related_mirror_def)

lemma slug_of_related [simp]: "slug_of (related_fields r) = rp_slug r"
  by (simp add: slug_of_def related_fields_def)

lemma apply_fitting:
  assumes C: "cosine_law (lib_cosine R)" and ok: "related_db_ok db" and fits_mirror: "fits_mirror (related_mirror (rdb_posts db)) e"
  shows "\<exists>h db'. HANDLERS R now (o_topic e) = Some h \<and> h (o_payload e) db = Inr db' \<and> related_db_ok db' \<and> length (o_topic e) \<le> 100
    \<and> (\<exists>c. event_change (o_topic e) (o_payload e) = Some c \<and> related_mirror (rdb_posts db') = apply_change c (related_mirror (rdb_posts db)))"
  using fits_mirror
proof cases
  case (created i title img body extra)
  have "row_at rp_id i (rdb_posts db) = None" using created(4) by (simp add: related_mirror_def)
  moreover have "\<forall>r\<in>set (rdb_posts db). rp_slug r \<noteq> o_key e"
    using created(5) mirror_member[OF ok] unfolding slug_free_def by fastforce
  then have "row_at rp_slug (o_key e) (rdb_posts db) = None" by (auto simp: row_at_None_iff)
  ultimately show ?thesis
    using apply_created_refines[OF C ok created(3), of now extra] created(1,2) by auto
next
  case (updated i title img body extra f)
  obtain r where r: "row_at rp_id i (rdb_posts db) = Some r" using mirror_row[OF updated(4)] by blast
  have "rp_id q = i" if "q \<in> set (rdb_posts db)" "rp_slug q = o_key e" for q
    using mirror_member[OF ok that(1)] updated(6) that(2) slug_of_related[of q] unfolding slug_only_def by metis
  then show ?thesis
    using apply_updated_refines[OF C ok updated(3) r, of now extra] updated(1,2) by auto
next
  case deleted
  have "event_change (o_topic e) (o_payload e) = Some (Drop (o_key e))"
    using deleted by (simp add: event_change_def)
  then show ?thesis using apply_deleted_refines[OF ok deleted(2), of R] deleted(1) by auto
qed

lemma deliver_fitting:
  assumes "cosine_law (lib_cosine R)" "related_db_ok db" "fits_mirror (related_mirror (rdb_posts db)) e"
    and "event_id_ok (o_id e)" "o_id e \<notin> set (processed_ids db)"
    and "d = (now, Works, message_of place (record_of e))"
  shows "delivered R (deliver R d db) d \<and> related_db_ok (deliver R d db) \<and> processed_ids (deliver R d db) = processed_ids db @ [o_id e]
    \<and> (\<exists>c. event_change (o_topic e) (o_payload e) = Some c
        \<and> related_mirror (rdb_posts (deliver R d db)) = apply_change c (related_mirror (rdb_posts db)))"
proof -
  let ?m = "message_of place (record_of e)"
  obtain h db1 where h: "HANDLERS R now (o_topic e) = Some h" "h (o_payload e) db = Inr db1" "related_db_ok db1" "length (o_topic e) \<le> 100"
    and c: "\<exists>c. event_change (o_topic e) (o_payload e) = Some c \<and> related_mirror (rdb_posts db1) = apply_change c (related_mirror (rdb_posts db))"
    using apply_fitting[OF assms(1-3), of now] by blast
  have m: "m_topic ?m = o_topic e" "m_value ?m = o_payload e" by (simp_all add: message_of_def record_of_def)
  have len: "length (o_id e) \<le> 64" using assms(4) by (simp add: event_id_ok_def)
  have id: "event_id_for R ?m = Inr (o_id e)" by (rule event_id_roundtrip[OF assms(4)])
  obtain db' where db': "handle R now Works ?m db = (Inr True, db')" "rdb_posts db' = rdb_posts db1"
    "processed_ids db' = processed_ids db @ [o_id e]" "related_db_ok db'"
    using handle_commits[of R now ?m h db db1 "o_id e", unfolded m, OF h(1-3) id assms(5) len h(4)] by blast
  have "deliver R d db = db'" "delivered R db' d"
    using db'(1) handle_True_applied[OF db'(1)] by (simp_all add: assms(6) deliver_def delivered_def)
  with db' c show ?thesis by simp
qed

subsection \<open>Any order that keeps the keys in order\<close>

definition deliveries_of :: "(kafka_record \<Rightarrow> timestamp) \<Rightarrow> (kafka_record \<Rightarrow> nat \<times> nat) \<Rightarrow> outbox_event list \<Rightarrow> delivery list" where
  "deliveries_of clock place es = deliveries clock place (map record_of es)"

lemma prefix_split:
  assumes "distinct (map o_id es)" "prefix (of_key (o_key e) (xs @ [e])) (of_key (o_key e) es)"
  shows "\<exists>ys zs. es = ys @ e # zs \<and> of_key (o_key e) xs = of_key (o_key e) ys"
proof -
  obtain rest where rest: "of_key (o_key e) es = of_key (o_key e) xs @ e # rest" using assms(2) by (auto elim: prefixE)
  then have "e \<in> set (of_key (o_key e) es)" by simp
  then have "e \<in> set es" by simp
  then obtain ys zs where split: "es = ys @ e # zs" by (meson split_list)
  have dis: "distinct es" using assms(1) by (simp add: distinct_map)
  then have n: "e \<notin> set (of_key (o_key e) ys)" "e \<notin> set (of_key (o_key e) zs)" by (simp_all add: split)
  have eq: "of_key (o_key e) ys @ e # of_key (o_key e) zs = of_key (o_key e) xs @ e # rest" using rest by (simp add: split)
  have "of_key (o_key e) ys = of_key (o_key e) xs"
    by (rule conjunct1[OF append_Cons_eq_iff[OF n, THEN iffD1, OF eq]])
  with split show ?thesis by auto
qed

lemma interleaved:
  assumes C: "cosine_law (lib_cosine R)" and h: "history es"
    and pre: "\<And>k. prefix (of_key k xs) (of_key k es)"
  shows "related_db_ok (fold (deliver R) (deliveries_of clock place xs) empty_related_db)
    \<and> related_mirror (rdb_posts (fold (deliver R) (deliveries_of clock place xs) empty_related_db)) = replay xs Map.empty
    \<and> processed_ids (fold (deliver R) (deliveries_of clock place xs) empty_related_db) = map o_id xs
    \<and> applies_all (delivered R) (deliver R) (deliveries_of clock place xs) empty_related_db
    \<and> distinct (map o_id xs) \<and> set xs \<subseteq> set es"
  using pre
proof (induction xs rule: rev_induct)
  case Nil
  show ?case by (simp add: deliveries_of_def deliveries_def related_mirror_def empty_related_db_def processed_ids_def related_db_ok_def)
next
  case (snoc e xs)
  let ?db = "fold (deliver R) (deliveries_of clock place xs) empty_related_db"
  let ?d = "(clock (record_of e), Works, message_of (place (record_of e)) (record_of e))"
  have "prefix (of_key k xs) (of_key k es)" for k
    using snoc.prems[of k] by (auto split: if_splits dest: append_prefixD)
  note IH = snoc.IH[OF this]
  have dist: "distinct (map o_id es)" using h by (simp add: history_def)
  obtain ys zs where es: "es = ys @ e # zs" and key: "of_key (o_key e) xs = of_key (o_key e) ys"
    using prefix_split[OF dist snoc.prems] by blast
  have inj: "inj_on o_id (set es)" using dist by (simp add: distinct_map)
  have "e \<notin> set ys" using dist by (auto simp: es)
  then have "e \<notin> set xs" using arg_cong[OF key, of set] by auto
  then have new: "o_id e \<notin> o_id ` set xs" using IH inj by (auto simp: es dest!: inj_onD)
  have fits_mirror: "fits_mirror (related_mirror (rdb_posts ?db)) e"
    using fits_mirror_transfer[of ys e zs xs] h IH key by (simp add: es)
  have "event_id_ok (o_id e)" using h by (simp add: history_def es)
  from deliver_fitting[OF C _ fits_mirror this _ refl, of "clock (record_of e)" "place (record_of e)"] IH new
  show ?case by (auto simp: deliveries_of_def deliveries_def applies_all_append es)
qed

text \<open>All rows, in such an order: the table that the outbox order gives.\<close>

lemma interleaved_mirror:
  assumes C: "cosine_law (lib_cosine R)" and h: "history es" and order: "\<And>k. of_key k xs = of_key k es"
  shows "related_mirror (rdb_posts (fold (deliver R) (deliveries_of clock place xs) empty_related_db)) = replay es Map.empty
    \<and> applies_all (delivered R) (deliver R) (deliveries_of clock place xs) empty_related_db"
proof -
  have all: "set xs = set es" using arg_cong[OF order, of set] by auto
  note keyed = history_keyed[OF h]
  have "keyed xs" using keyed_subset[OF keyed] all by simp
  then have "replay xs Map.empty i = Some f \<longleftrightarrow> replay es Map.empty i = Some f" for i f
    using replay_same_key[OF keyed] order by blast
  then have "replay xs Map.empty = replay es Map.empty"
    by (intro ext) (metis option.exhaust)
  then show ?thesis using interleaved[OF C h, of xs clock place] order by simp
qed

subsection \<open>The outbox of requests that rename nothing\<close>

definition ids_ok :: "posts_db \<Rightarrow> bool" where
  "ids_ok db \<longleftrightarrow> (\<forall>e\<in>set (pdb_outbox db). \<forall>i. puts e i \<longrightarrow> i < pdb_next_id db
     \<and> (\<forall>p\<in>set (pdb_posts db). p_id p = i \<longrightarrow> p_slug p = o_key e))"

lemma ids_okD: "ids_ok db \<Longrightarrow> e \<in> set (pdb_outbox db) \<Longrightarrow> puts e i \<Longrightarrow> i < pdb_next_id db"
  "ids_ok db \<Longrightarrow> e \<in> set (pdb_outbox db) \<Longrightarrow> puts e i \<Longrightarrow> p \<in> set (pdb_posts db) \<Longrightarrow> p_id p = i \<Longrightarrow> p_slug p = o_key e"
  by (auto simp: ids_ok_def)

lemma ids_ok_event:
  assumes ids: "ids_ok db" and box: "pdb_outbox db' = pdb_outbox db @ [e]" "pdb_next_id db \<le> pdb_next_id db'"
    and old: "\<And>p. p \<in> set (pdb_posts db') \<Longrightarrow> p_id p < pdb_next_id db \<Longrightarrow> \<exists>q\<in>set (pdb_posts db). p_id q = p_id p \<and> p_slug q = p_slug p"
    and new: "\<And>i. puts e i \<Longrightarrow> i < pdb_next_id db' \<and> (\<forall>p\<in>set (pdb_posts db'). p_id p = i \<longrightarrow> p_slug p = o_key e)"
  shows "ids_ok db'"
  unfolding ids_ok_def
proof (intro ballI allI impI)
  fix e' i assume e': "e' \<in> set (pdb_outbox db')" "puts e' i"
  show "i < pdb_next_id db' \<and> (\<forall>p\<in>set (pdb_posts db'). p_id p = i \<longrightarrow> p_slug p = o_key e')"
  proof (cases "e' = e")
    case True
    then show ?thesis using new e'(2) by blast
  next
    case False
    then have mem: "e' \<in> set (pdb_outbox db)" using e'(1) box(1) by simp
    note i = ids_okD(1)[OF ids mem e'(2)]
    have "p_slug p = o_key e'" if p: "p \<in> set (pdb_posts db')" "p_id p = i" for p
    proof -
      obtain q where q: "q \<in> set (pdb_posts db)" "p_id q = p_id p" "p_slug q = p_slug p" using old[OF p(1)] p(2) i by blast
      from ids_okD(2)[OF ids mem e'(2) q(1)] q(2,3) p(2) show ?thesis by simp
    qed
    with i box(2) show ?thesis by simp
  qed
qed

lemma posts_mirror_row: "posts_mirror rows i = Some f \<Longrightarrow> \<exists>p\<in>set rows. p_id p = i \<and> p_slug p = slug_of f"
  by (auto simp: posts_mirror_def slug_of_def dest: row_at_SomeD)

lemma puts_recorded [simp]:
  "puts (recorded req TOPIC_CREATED s (post_data P p)) i \<longleftrightarrow> i = p_id p \<and> s = p_slug p"
  "puts (recorded req TOPIC_UPDATED s (post_data P p)) i \<longleftrightarrow> i = p_id p \<and> s = p_slug p"
  "\<not> puts (recorded req TOPIC_DELETED s (JObj [(''id'', j), (''slug'', JStr s)])) i"
  by (auto simp: puts_def put_row_def)

lemma run_view_event:
  assumes ok: "posts_db_ok db" "bodies_ok db" "ids_ok db" and next_ok: "bodies_ok db'" "pdb_next_id db' \<le> 2147483648"
    and keep: "keeps_slug P op" and r: "run_view P req op db = (Inr r, db')"
  shows "\<exists>e. pdb_outbox db' = pdb_outbox db @ [e] \<and> o_id e = req_uuid req \<and> fits_mirror (posts_mirror (pdb_posts db)) e \<and> ids_ok db'
    \<and> (\<forall>e'\<in>set (pdb_outbox db). \<forall>i. puts e i \<longrightarrow> puts e' i \<longrightarrow> o_key e = o_key e')"
proof (cases op)
  case (Create data)
  obtain v where db': "db' = db\<lparr>pdb_posts := pdb_posts db @ [inserted_row req v (pdb_next_id db)],
      pdb_outbox := pdb_outbox db @ [recorded req TOPIC_CREATED (v_slug v) (post_data P (inserted_row req v (pdb_next_id db)))],
      pdb_next_id := pdb_next_id db + 1\<rparr>" and ok': "posts_db_ok db'"
    using r create_post_accepted[of P req data db r db'] by (auto simp: Create)
  let ?p = "inserted_row req v (pdb_next_id db)"
  let ?e = "recorded req TOPIC_CREATED (p_slug ?p) (post_data P ?p)"
  have pin: "?p \<in> set (pdb_posts db')" by (simp add: db')
  have free: "p_id ?p \<notin> p_id ` set (pdb_posts db)" "p_slug ?p \<notin> p_slug ` set (pdb_posts db)" and row: "post_row_ok ?p"
    using ok' by (auto simp: db' posts_db_ok_def)
  have "fields_fit (p_id ?p) (p_title ?p) (p_image ?p) (p_body ?p) (p_slug ?p)"
    using row bodies_ok_int32[OF next_ok pin] next_ok(1) pin by (auto simp: fields_fit_def post_row_ok_def bodies_ok_def)
  moreover have "posts_mirror (pdb_posts db) (p_id ?p) = None"
    using free(1) by (simp add: posts_mirror_def row_at_None_iff)
  moreover have "slug_free (posts_mirror (pdb_posts db)) (p_slug ?p)"
    unfolding slug_free_def using posts_mirror_row free(2) by (metis imageI)
  ultimately have "fits_mirror (posts_mirror (pdb_posts db)) ?e"
    by (intro fits_mirror.created[where i = "p_id ?p"]) (auto simp: post_data_payload)
  moreover have fresh: "\<forall>p\<in>set (pdb_posts db). p_id p \<noteq> pdb_next_id db" using free(1) by force
  have "ids_ok db'"
  proof (rule ids_ok_event[OF ok(3), of db' ?e])
    show "i < pdb_next_id db' \<and> (\<forall>p\<in>set (pdb_posts db'). p_id p = i \<longrightarrow> p_slug p = o_key ?e)" if "puts ?e i" for i
      using that fresh by (auto simp: db')
  qed (auto simp: db')
  moreover have "\<not> puts e' i" if "e' \<in> set (pdb_outbox db)" "puts ?e i" for e' i
    using ids_okD(1)[OF ok(3) that(1), of i] that(2) by auto
  ultimately show ?thesis by (intro exI[of _ ?e]) (auto simp: db')
next
  case (Update slug data)
  obtain post v where at: "row_at p_slug slug (pdb_posts db) = Some post" and v: "validate P db (Some post) data = Some v"
    and db': "db' = db\<lparr>pdb_posts := map (\<lambda>q. if p_id q = p_id post then saved_row req post v else q) (pdb_posts db),
       pdb_outbox := pdb_outbox db @ [recorded req TOPIC_UPDATED (v_slug v) (post_data P (saved_row req post v))]\<rparr>"
    and ok': "posts_db_ok db'"
    using r update_post_accepted[of P req slug data db r db'] by (auto simp: Update)
  let ?p = "saved_row req post v"
  let ?e = "recorded req TOPIC_UPDATED (p_slug ?p) (post_data P ?p)"
  have post: "post \<in> set (pdb_posts db)" "p_slug post = slug" using row_at_SomeD[OF at] by auto
  have slug: "p_slug ?p = p_slug post" using keep v post(2) by (auto simp: Update)
  have pin: "?p \<in> set (pdb_posts db')" using post(1) by (force simp: db')
  have row: "post_row_ok ?p" using ok' pin by (simp add: posts_db_ok_def list_all_iff)
  have fit: "fields_fit (p_id ?p) (p_title ?p) (p_image ?p) (p_body ?p) (p_slug ?p)"
    using row bodies_ok_int32[OF next_ok pin] next_ok(1) pin by (auto simp: fields_fit_def post_row_ok_def bodies_ok_def)
  have dist: "distinct (map p_id (pdb_posts db))" "distinct (map p_slug (pdb_posts db))" using ok(1) by (simp_all add: posts_db_ok_def)
  have "posts_mirror (pdb_posts db) (p_id post) = Some (p_title post, Some (p_image post), Some (p_body post), p_slug post)"
    using row_at_distinct[OF dist(1) post(1)] by (simp add: posts_mirror_def)
  moreover have "slug_only (posts_mirror (pdb_posts db)) (p_id post) (p_slug post)"
    unfolding slug_only_def using posts_mirror_row post(1) distinct_map_inj_on_set[OF dist(2)] by metis
  ultimately have "fits_mirror (posts_mirror (pdb_posts db)) ?e"
    using fit slug by (intro fits_mirror.updated[where i = "p_id ?p"]) (auto simp: post_data_payload slug_of_def)
  moreover have "ids_ok db'"
  proof (rule ids_ok_event[OF ok(3), of db' ?e])
    show "\<exists>q\<in>set (pdb_posts db). p_id q = p_id p \<and> p_slug q = p_slug p" if "p \<in> set (pdb_posts db')" for p
      using that post(1) slug by (auto simp: db' split: if_splits)
    show "i < pdb_next_id db' \<and> (\<forall>p\<in>set (pdb_posts db'). p_id p = i \<longrightarrow> p_slug p = o_key ?e)" if "puts ?e i" for i
      using that post(1) ok(2) by (auto simp: db' bodies_ok_def)
  qed (simp_all add: db')
  moreover have "o_key ?e = o_key e'" if "e' \<in> set (pdb_outbox db)" "puts ?e i" "puts e' i" for e' i
    using ids_okD(2)[OF ok(3) that(1,3) post(1)] that(2) slug by simp
  ultimately show ?thesis by (intro exI[of _ ?e]) (simp add: db')
next
  case (Destroy slug)
  obtain post where "row_at p_slug slug (pdb_posts db) = Some post" and db': "db' = db\<lparr>pdb_posts := filter (\<lambda>q. p_id q \<noteq> p_id post) (pdb_posts db),
       pdb_outbox := pdb_outbox db @ [recorded req TOPIC_DELETED slug (JObj [(''id'', JInt (p_id post)), (''slug'', JStr slug)])]\<rparr>"
    using r destroy_post_accepted[of req slug db r db'] by (auto simp: Destroy)
  let ?e = "recorded req TOPIC_DELETED slug (JObj [(''id'', JInt (p_id post)), (''slug'', JStr slug)])"
  have "ids_ok db'" by (rule ids_ok_event[OF ok(3), of db' ?e]) (auto simp: db')
  moreover have "fits_mirror (posts_mirror (pdb_posts db)) ?e" by (rule fits_mirror.deleted) simp_all
  ultimately show ?thesis by (intro exI[of _ ?e]) (simp add: db')
qed

lemma requests_make_history:
  assumes V: "validate_law P" and ops: "\<forall>(req, op)\<in>set ops. event_id_ok (req_uuid req) \<and> keeps_slug P op" "length ops < 2147483647"
  shows "history (pdb_outbox (run_views P ops empty_posts_db)) \<and> ids_ok (run_views P ops empty_posts_db)
    \<and> bodies_ok (run_views P ops empty_posts_db) \<and> pdb_next_id (run_views P ops empty_posts_db) \<le> 1 + int (length ops)"
  using ops
proof (induction ops rule: rev_induct)
  case Nil
  show ?case by (simp add: empty_posts_db_def history_def ids_ok_def bodies_ok_def one_key_def)
next
  case (snoc o1 ops)
  obtain req op where o1: "o1 = (req, op)" by fastforce
  let ?db = "run_views P ops empty_posts_db"
  have IH: "history (pdb_outbox ?db)" "ids_ok ?db" "bodies_ok ?db" "pdb_next_id ?db \<le> 1 + int (length ops)"
    and new: "event_id_ok (req_uuid req)" "keeps_slug P op"
    using snoc by (auto simp: o1)
  obtain r db' where r: "run_view P req op ?db = (r, db')" by fastforce
  have next_db: "run_views P (ops @ [o1]) empty_posts_db = db'" using r by (simp add: o1 run_views_snoc)
  have log: "posts_db_ok ?db" "posts_mirror (pdb_posts ?db) = replay (pdb_outbox ?db) Map.empty" using run_views_changelog by blast+
  show ?case
  proof (cases r)
    case (Inl e)
    then have "same_rows ?db db'" using r run_view_rejected by blast
    moreover have "pdb_next_id ?db \<le> pdb_next_id db' \<and> pdb_next_id db' \<le> pdb_next_id ?db + 1"
      using r Inl run_view_next_id by blast
    ultimately show ?thesis using IH by (fastforce simp: next_db same_rows_def ids_ok_def bodies_ok_def)
  next
    case (Inr x)
    note r' = r[unfolded Inr]
    have id: "pdb_next_id db' \<le> 1 + int (length (ops @ [o1]))" using run_view_accepted[OF log(1) r'] IH(4) by simp
    then have small: "pdb_next_id db' \<le> 2147483648" using snoc.prems(2) by simp
    have bodies: "bodies_ok db'" by (rule bodies_ok_run_view[OF V IH(3) r'])
    obtain e where e: "pdb_outbox db' = pdb_outbox ?db @ [e]" "o_id e = req_uuid req" "fits_mirror (posts_mirror (pdb_posts ?db)) e" "ids_ok db'"
      "\<forall>e'\<in>set (pdb_outbox ?db). \<forall>i. puts e i \<longrightarrow> puts e' i \<longrightarrow> o_key e = o_key e'"
      using run_view_event[OF log(1) IH(3,2) bodies small new(2) r'] by blast
    have "posts_db_ok db'" using run_view_accepted[OF log(1) r'] by simp
    then have "o_id e \<notin> o_id ` set (pdb_outbox ?db)" by (simp add: posts_db_ok_def e(1))
    then have "history (pdb_outbox db')"
      unfolding e(1) using e(2,3,5) new(1) log(2) by (intro history_snoc[OF IH(1)]) simp_all
    then show ?thesis using e(4) bodies id by (simp add: next_db)
  qed
qed

end
