(* ===== verification/GoText.thy ===== *)
theory GoText
  imports JsonText "HOL-Library.Word"
begin

section \<open>Strings, encodings and durations of Go\<close>

text \<open>
  What the auth service (services/auth) uses of Go's standard library. A Go string is a sequence of bytes:
  a HOL string, every character one byte; on ASCII text it is the string that Python sees. A
  \<open>time.Duration\<close> counts nanoseconds in 64 bits, so its arithmetic wraps.
\<close>

subsection \<open>White space: \<open>strings.TrimSpace\<close>\<close>

text \<open>The UTF-8 encodings of the characters of \<open>unicode.IsSpace\<close>.\<close>

definition bytes :: "nat list \<Rightarrow> string" where
  "bytes ns = map char_of ns"

definition space_encodings :: "string list" where
  "space_encodings = map bytes
     ([[9], [10], [11], [12], [13], [32], [0xC2, 0x85], [0xC2, 0xA0], [0xE1, 0x9A, 0x80]]
      @ map (\<lambda>n. [0xE2, 0x80, n]) [0x80..<0x8B]
      @ [[0xE2, 0x80, 0xA8], [0xE2, 0x80, 0xA9], [0xE2, 0x80, 0xAF], [0xE2, 0x81, 0x9F], [0xE3, 0x80, 0x80]])"

text \<open>Drops encodings from the front as long as there is one; every one is at least one byte long.\<close>

fun trim_front :: "nat \<Rightarrow> string list \<Rightarrow> string \<Rightarrow> string" where
  "trim_front 0 spaces s = s"
| "trim_front (Suc fuel) spaces s =
     (case find (\<lambda>w. starts_with w s) spaces of None \<Rightarrow> s | Some w \<Rightarrow> trim_front fuel spaces (drop (length w) s))"

definition TrimSpace :: "string \<Rightarrow> string" where
  "TrimSpace s =
     (let left = trim_front (length s) space_encodings s
      in rev (trim_front (length left) (map rev space_encodings) (rev left)))"

subsection \<open>Case: \<open>strings.EqualFold\<close> and the field names of \<open>encoding/json\<close>\<close>

definition ascii_lower :: "char \<Rightarrow> char" where
  "ascii_lower c = (if 65 \<le> code c \<and> code c \<le> 90 then char_of (code c + 32) else c)"

text \<open>
  Besides the ASCII letters, two characters fold to an ASCII letter: U+017F to s, U+212A to k.
\<close>

fun fold_name :: "string \<Rightarrow> string" where
  "fold_name [] = []"
| "fold_name (c # s) =
     (if starts_with (bytes [0xC5, 0xBF]) (c # s) then CHR ''s'' # fold_name (drop 1 s)
      else if starts_with (bytes [0xE2, 0x84, 0xAA]) (c # s) then CHR ''k'' # fold_name (drop 2 s)
      else ascii_lower c # fold_name s)"

subsection \<open>Base64 without padding: \<open>RawStdEncoding\<close> and \<open>RawURLEncoding\<close>\<close>

definition letters_and_digits :: string where
  "letters_and_digits = map char_of ([65..<91] @ [97..<123] @ [48..<58] :: nat list)"

definition std_alphabet :: string where
  "std_alphabet = letters_and_digits @ ''+/''"

definition url_alphabet :: string where
  "url_alphabet = letters_and_digits @ ''-_''"

fun sextets :: "string \<Rightarrow> nat list" where
  "sextets [] = []"
| "sextets [a] = [code a div 4, code a mod 4 * 16]"
| "sextets [a, b] = [code a div 4, code a mod 4 * 16 + code b div 16, code b mod 16 * 4]"
| "sextets (a # b # c # s) =
     code a div 4 # (code a mod 4 * 16 + code b div 16) # (code b mod 16 * 4 + code c div 64) # code c mod 64 # sextets s"

definition raw_encode :: "string \<Rightarrow> string \<Rightarrow> string" where
  "raw_encode alphabet s = map (\<lambda>n. alphabet ! n) (sextets s)"

text \<open>The bytes of sextets; a lone sextet is an error. Bits left over are not looked at.\<close>

fun octets :: "nat list \<Rightarrow> string option" where
  "octets [] = Some []"
| "octets [p] = None"
| "octets [p, q] = Some [char_of (p * 4 + q div 16)]"
| "octets [p, q, r] = Some [char_of (p * 4 + q div 16), char_of (q mod 16 * 16 + r div 4)]"
| "octets (p # q # r # t # ns) =
     map_option (\<lambda>s. char_of (p * 4 + q div 16) # char_of (q mod 16 * 16 + r div 4) # char_of (r mod 4 * 64 + t) # s)
       (octets ns)"

text \<open>\<open>DecodeString\<close>: carriage returns and line feeds are skipped, any other foreign character is an error.\<close>

definition raw_decode :: "string \<Rightarrow> string \<Rightarrow> string option" where
  "raw_decode alphabet s =
     Option.bind (those (map (map_of (zip alphabet [0..<length alphabet])) (filter (\<lambda>c. code c \<noteq> 10 \<and> code c \<noteq> 13) s))) octets"

subsection \<open>Hexadecimal, decimal and \<open>fmt.Sscanf\<close>\<close>

definition hex_encode :: "string \<Rightarrow> string" where
  "hex_encode s = concat (map (\<lambda>c. [hex_digit (code c div 16), hex_digit (code c mod 16)]) s)"

text \<open>\<open>strconv.Atoi\<close>: an optional sign and decimal digits, within the 64 bits of an int.\<close>

definition Atoi :: "string \<Rightarrow> int option" where
  "Atoi s =
     (let ds = (if starts_with ''+'' s \<or> starts_with ''-'' s then drop 1 s else s);
          n = (if starts_with ''-'' s then - int (decimal ds) else int (decimal ds))
      in if ds \<noteq> [] \<and> list_all is_digit ds \<and> - (2 ^ 63) \<le> n \<and> n < 2 ^ 63 then Some n else None)"

text \<open>
  \<open>fmt.Sscanf\<close> of one literal and one \<open>%d\<close>: the literal, spaces (a line feed among them ends the scan:
  no digit follows), a sign if the variable has one, digits; the rest of the input.
\<close>

definition scan_digits :: "nat \<Rightarrow> string \<Rightarrow> (nat \<times> string) option" where
  "scan_digits limit s =
     (let ds = takeWhile is_digit s
      in if ds \<noteq> [] \<and> decimal ds < limit then Some (decimal ds, dropWhile is_digit s) else None)"

definition skip_blanks :: "string \<Rightarrow> string" where
  "skip_blanks s = trim_front (length s) (filter (\<lambda>w. w \<noteq> bytes [10]) space_encodings) s"

definition scan_literal :: "string \<Rightarrow> string \<Rightarrow> string option" where
  "scan_literal w s = (if starts_with w s then Some (drop (length w) s) else None)"

text \<open>A variable of an unsigned type with the given number of values.\<close>

definition scan_uint :: "string \<Rightarrow> nat \<Rightarrow> string \<Rightarrow> (nat \<times> string) option" where
  "scan_uint w limit s = Option.bind (scan_literal w s) (\<lambda>r. scan_digits limit (skip_blanks r))"

text \<open>A variable of type int.\<close>

definition scan_int :: "string \<Rightarrow> string \<Rightarrow> (int \<times> string) option" where
  "scan_int w s =
     Option.bind (scan_literal w s) (\<lambda>r.
       let r = skip_blanks r
       in if starts_with ''-'' r then map_option (\<lambda>(n, t). (- int n, t)) (scan_digits (2 ^ 63 + 1) (drop 1 r))
          else map_option (\<lambda>(n, t). (int n, t)) (scan_digits (2 ^ 63) (if starts_with ''+'' r then drop 1 r else r)))"

subsection \<open>Big integers and durations\<close>

text \<open>\<open>big.Int.Bytes\<close>: big endian, without leading zeros.\<close>

fun nat_bytes :: "nat \<Rightarrow> string" where
  "nat_bytes n = (if n = 0 then [] else nat_bytes (n div 256) @ [char_of (n mod 256)])"

declare nat_bytes.simps [simp del]

definition bytes_nat :: "string \<Rightarrow> nat" where
  "bytes_nat s = foldl (\<lambda>n c. 256 * n + code c) 0 s"

text \<open>Nanoseconds, and what adding them to an instant gives (to the microsecond).\<close>

type_synonym duration = "64 word"

definition seconds :: "int \<Rightarrow> duration" where
  "seconds n = word_of_int n * 1000000000"

definition add_duration :: "timestamp \<Rightarrow> duration \<Rightarrow> timestamp" where
  "add_duration t d = Timestamp (micros t + sint d div 1000)"

subsection \<open>What the encodings promise\<close>

lemma alphabet_length [simp]: "length letters_and_digits = 62" "length std_alphabet = 64" "length url_alphabet = 64"
  by (simp_all add: letters_and_digits_def std_alphabet_def url_alphabet_def)

definition good_alphabet :: "string \<Rightarrow> bool" where
  "good_alphabet A \<longleftrightarrow> length A = 64 \<and> distinct A \<and> list_all (\<lambda>c. 32 < code c \<and> code c < 128) A"

lemma good_alphabets [simp]: "good_alphabet std_alphabet" "good_alphabet url_alphabet"
  by code_simp+

lemma sextets_bound: "n \<in> set (sextets s) \<Longrightarrow> n < 64"
proof (induction s rule: sextets.induct)
  case (2 a)
  then show ?case using code_bound[of a] by auto
next
  case (3 a b)
  then show ?case using code_bound[of a] code_bound[of b] by auto
next
  case (4 a b c s)
  then show ?case using code_bound[of a] code_bound[of b] code_bound[of c] by auto
qed simp

lemma byte_halves: "(a mod 4 * 16 + b div 16) mod 16 * 16 + (b mod 16 * 4 + k) div 4 = b"
  if "b < 256" "k < 4" for a b k :: nat
proof -
  have "(a mod 4 * 16 + b div 16) mod 16 = b div 16" using that by simp
  moreover have "(b mod 16 * 4 + k) div 4 = b mod 16" using that by simp
  ultimately show ?thesis by simp
qed

lemma octets_sextets: "octets (sextets s) = Some s"
proof (induction s rule: sextets.induct)
  case (3 a b)
  have "code a div 4 * 4 + (code a mod 4 * 16 + code b div 16) div 16 = code a"
    using code_bound[of b] by simp
  moreover have "(code a mod 4 * 16 + code b div 16) mod 16 * 16 + code b mod 16 * 4 div 4 = code b"
    using byte_halves[of "code b" 0 "code a"] code_bound[of b] by simp
  ultimately show ?case by (simp only: sextets.simps octets.simps char_of_code)
next
  case (4 a b c s)
  have "code a div 4 * 4 + (code a mod 4 * 16 + code b div 16) div 16 = code a"
    using code_bound[of b] by simp
  moreover have "(code a mod 4 * 16 + code b div 16) mod 16 * 16 + (code b mod 16 * 4 + code c div 64) div 4 = code b"
    using byte_halves[of "code b" "code c div 64" "code a"] code_bound[of b] code_bound[of c] by simp
  moreover have "(code b mod 16 * 4 + code c div 64) mod 4 * 64 + code c mod 64 = code c"
    using code_bound[of c] by simp
  ultimately show ?case using 4 by (simp only: sextets.simps octets.simps char_of_code option.map)
qed auto

lemma those_map_Some: "(\<And>x. x \<in> set xs \<Longrightarrow> f x = Some (g x)) \<Longrightarrow> those (map f xs) = Some (map g xs)"
  by (induction xs) auto

text \<open>Decoding undoes encoding.\<close>

lemma raw_decode_encode:
  assumes A: "good_alphabet A" shows "raw_decode A (raw_encode A s) = Some s"
proof -
  have A': "length A = 64" "distinct A" and printable: "\<And>c. c \<in> set A \<Longrightarrow> 32 < code c"
    using A by (auto simp: good_alphabet_def list_all_iff)
  have "A ! n \<in> set A" if "n \<in> set (sextets s)" for n using sextets_bound[OF that] A' by simp
  then have keep: "filter (\<lambda>c. code c \<noteq> 10 \<and> code c \<noteq> 13) (raw_encode A s) = raw_encode A s"
    using printable by (fastforce simp: raw_encode_def filter_id_conv)
  have "map_of (zip A [0..<length A]) (A ! n) = Some n" if "n \<in> set (sextets s)" for n
    using sextets_bound[OF that] A' by (simp add: map_of_zip_nth)
  then have "those (map (map_of (zip A [0..<length A])) (raw_encode A s)) = Some (map (\<lambda>n. n) (sextets s))"
    unfolding raw_encode_def map_map by (intro those_map_Some) simp
  then show ?thesis by (simp add: raw_decode_def keep octets_sextets)
qed

lemma raw_encode_inj: "good_alphabet A \<Longrightarrow> raw_encode A s = raw_encode A t \<longleftrightarrow> s = t"
  using raw_decode_encode by (metis option.inject)

lemma raw_encode_chars: "good_alphabet A \<Longrightarrow> c \<in> set (raw_encode A s) \<Longrightarrow> c \<in> set A"
  using sextets_bound by (auto simp: raw_encode_def good_alphabet_def)

lemma bytes_nat_snoc: "bytes_nat (s @ [c]) = 256 * bytes_nat s + code c"
  by (simp add: bytes_nat_def)

lemma bytes_nat_bytes: "bytes_nat (nat_bytes n) = n"
proof (induction n rule: nat_bytes.induct)
  case (1 n)
  then show ?case
    by (cases "n = 0")
      (simp add: nat_bytes.simps[of 0] bytes_nat_def, simp add: nat_bytes.simps[of n] bytes_nat_snoc)
qed

lemma hex_digit_inj: "m < 16 \<Longrightarrow> n < 16 \<Longrightarrow> hex_digit m = hex_digit n \<longleftrightarrow> m = n"
  using hex_value_digit by (metis option.inject)

lemma hex_encode_inj: "hex_encode s = hex_encode t \<longleftrightarrow> s = t"
proof
  show "hex_encode s = hex_encode t \<Longrightarrow> s = t"
  proof (induction s arbitrary: t)
    case (Cons c s)
    then obtain d t' where t: "t = d # t'" by (cases t) (auto simp: hex_encode_def)
    have "code c div 16 < 16" "code d div 16 < 16" using code_bound[of c] code_bound[of d] by auto
    with Cons.prems have "code c div 16 = code d div 16" "code c mod 16 = code d mod 16" "hex_encode s = hex_encode t'"
      by (auto simp: t hex_encode_def hex_digit_inj)
    moreover from this have "code c = code d" by (metis div_mult_mod_eq)
    ultimately show ?case using Cons.IH t by (simp add: code_inj)
  qed (simp add: hex_encode_def)
qed simp

lemma length_hex_encode: "length (hex_encode s) = 2 * length s"
  by (induction s) (simp_all add: hex_encode_def)

subsection \<open>Scanning what was printed\<close>

lemma decimal_show_nat [simp]: "decimal (show_nat n) = n"
  using show_nat_value by (simp add: decimal_def)

lemma starts_with_self [simp]: "starts_with w (w @ s)"
  by (simp add: starts_with_def)

lemma skip_blanks_digit: "is_digit c \<Longrightarrow> skip_blanks (c # s) = c # s"
proof -
  assume d: "is_digit c"
  have "list_all (\<lambda>w. w \<noteq> [] \<and> \<not> is_digit (hd w)) space_encodings" by code_simp
  then have "\<not> starts_with w (c # s)" if "w \<in> set space_encodings" for w
    using that d by (cases w) (auto simp: list_all_iff starts_with_def)
  then have "find (\<lambda>w. starts_with w (c # s)) (filter (\<lambda>w. w \<noteq> bytes [10]) space_encodings) = None"
    by (auto simp: find_None_iff)
  then show ?thesis by (simp add: skip_blanks_def)
qed

lemma scan_digits_show:
  assumes "n < limit" "rest = [] \<or> \<not> is_digit (hd rest)"
  shows "scan_digits limit (show_nat n @ rest) = Some (n, rest)"
proof -
  have all: "\<forall>c\<in>set (show_nat n). is_digit c" using show_nat_digits by blast
  have "takeWhile is_digit (show_nat n @ rest) = show_nat n" "dropWhile is_digit (show_nat n @ rest) = rest"
    using all assms(2) by (cases rest; simp add: takeWhile_append dropWhile_append)+
  then show ?thesis using assms(1) by (simp add: scan_digits_def Let_def show_nat_ne)
qed

lemma skip_blanks_show [simp]: "skip_blanks (show_nat n @ rest) = show_nat n @ rest"
  using show_nat_Cons[of n] skip_blanks_digit by auto

lemma scan_uint_show:
  "n < limit \<Longrightarrow> rest = [] \<or> \<not> is_digit (hd rest) \<Longrightarrow> scan_uint w limit (w @ show_nat n @ rest) = Some (n, rest)"
  by (simp add: scan_uint_def scan_literal_def scan_digits_show)

lemma scan_int_show:
  assumes "n < 2 ^ 63" "rest = [] \<or> \<not> is_digit (hd rest)"
  shows "scan_int w (w @ show_nat n @ rest) = Some (int n, rest)"
proof -
  have "\<not> starts_with ''-'' (show_nat n @ rest)" "\<not> starts_with ''+'' (show_nat n @ rest)"
    using show_nat_Cons[of n] by (auto simp: starts_with_def is_digit_def code_def)
  then show ?thesis
    using assms by (simp add: scan_int_def scan_literal_def Let_def scan_digits_show)
qed

subsection \<open>Trimming\<close>

definition printable :: "char \<Rightarrow> bool" where
  "printable c \<longleftrightarrow> 32 < code c \<and> code c < 128"

lemma trim_front_printable:
  assumes "list_all (\<lambda>w. w \<noteq> [] \<and> \<not> printable (hd w)) spaces" "s = [] \<or> printable (hd s)"
  shows "trim_front n spaces s = s"
proof (cases n)
  case (Suc m)
  have "\<not> starts_with w s" if "w \<in> set spaces" for w
    using assms that by (cases w; cases s) (auto simp: list_all_iff starts_with_def)
  then have "find (\<lambda>w. starts_with w s) spaces = None" by (auto simp: find_None_iff)
  with Suc show ?thesis by simp
qed simp

lemma TrimSpace_printable: "\<forall>c\<in>set s. printable c \<Longrightarrow> TrimSpace s = s"
proof -
  assume s: "\<forall>c\<in>set s. printable c"
  then have ends: "s = [] \<or> printable (hd s)" "rev s = [] \<or> printable (hd (rev s))"
    using hd_in_set[of s] hd_in_set[of "rev s"] by (blast, simp) (metis set_rev)
  have "list_all (\<lambda>w. w \<noteq> [] \<and> \<not> printable (hd w)) space_encodings"
    "list_all (\<lambda>w. w \<noteq> [] \<and> \<not> printable (hd w)) (map rev space_encodings)" by code_simp+
  then show ?thesis using trim_front_printable ends by (simp add: TrimSpace_def)
qed

end
