(* ===== verification/AuthTokens.thy ===== *)
theory AuthTokens
  imports GoText IsoTime
begin

section \<open>Tokens and passwords of the auth service (services/auth/internal/auth)\<close>

text \<open>
  tokens.go and password.go. SHA-256, RSA keys, argon2 and golang-jwt are parameters (\<open>crypto\<close>), random
  bytes and new UUIDs are arguments; a UUID is its canonical text. \<open>GoError\<close> is any other error value;
  \<open>GoPanic\<close> is a panic, which is no error value and passes every \<open>err != nil\<close>.
\<close>

datatype go_error = ErrNotFound | ErrEmailTaken | ErrTokenInvalid | ErrInvalidHash | ErrMismatch | GoError | GoPanic

type_synonym 'a go = "go_error + 'a"

record rsa_public =
  rsa_N :: nat
  rsa_E :: "64 word"

record rsa_key =
  public_key :: rsa_public
  private_part :: nat

text \<open>A \<open>jwt.NumericDate\<close>: whole seconds since 1970.\<close>

definition unix_epoch :: int where
  "unix_epoch = 62135596800"

definition NewNumericDate :: "timestamp \<Rightarrow> int" where
  "NewNumericDate t = micros t div 1000000 - unix_epoch"

definition numeric_time :: "int \<Rightarrow> timestamp" where
  "numeric_time n = Timestamp ((n + unix_epoch) * 1000000)"

record Claims =
  Subject :: string
  Issuer :: string
  Audience :: "string list"
  ID :: string
  IssuedAt :: "int option"
  ExpiresAt :: "int option"
  NotBefore :: "int option"
  Email :: string
  TokenID :: string

text \<open>
  \<open>sign_rs256\<close> is \<open>SignedString\<close> of a token with the RS256 method, the \<open>kid\<close> header and the claims.
  \<open>parse_with_claims\<close> is \<open>jwt.ParseWithClaims\<close> with an issuer, an audience and a required expiry, at a
  clock reading; the key function is given the algorithm of the token's header.
\<close>

record crypto =
  sha256 :: "string \<Rightarrow> string"
  argon2_id_key :: "string \<Rightarrow> string \<Rightarrow> 32 word \<Rightarrow> 32 word \<Rightarrow> 8 word \<Rightarrow> 32 word \<Rightarrow> string go"
  sign_rs256 :: "rsa_key \<Rightarrow> string \<Rightarrow> Claims \<Rightarrow> string go"
  parse_with_claims :: "(string \<Rightarrow> rsa_public go) \<Rightarrow> string \<Rightarrow> string \<Rightarrow> timestamp \<Rightarrow> string \<Rightarrow> Claims go"

subsection \<open>The issuer\<close>

definition DefaultAccessTTL :: duration where
  "DefaultAccessTTL = seconds (15 * 60)"

definition DefaultRefreshTTL :: duration where
  "DefaultRefreshTTL = seconds (30 * 24 * 60 * 60)"

record issuer =
  is_key :: rsa_key
  is_key_id :: string
  is_issuer :: string
  is_audience :: string
  is_access_ttl :: duration

definition KeyID :: "crypto \<Rightarrow> rsa_public \<Rightarrow> string" where
  "KeyID C pub = hex_encode (take 8 (sha256 C (nat_bytes (rsa_N pub))))"

definition NewIssuer :: "crypto \<Rightarrow> rsa_key \<Rightarrow> string \<Rightarrow> string \<Rightarrow> duration \<Rightarrow> issuer" where
  "NewIssuer C key issuerURL audience accessTTL =
     \<lparr>is_key = key, is_key_id = KeyID C (public_key key), is_issuer = issuerURL, is_audience = audience,
      is_access_ttl = (if sint accessTTL \<le> 0 then DefaultAccessTTL else accessTTL)\<rparr>"

definition access_claims :: "issuer \<Rightarrow> string \<Rightarrow> string \<Rightarrow> string \<Rightarrow> timestamp \<Rightarrow> Claims" where
  "access_claims I tokenID userID email now =
     \<lparr>Subject = userID, Issuer = is_issuer I, Audience = [is_audience I], ID = tokenID,
      IssuedAt = Some (NewNumericDate now),
      ExpiresAt = Some (NewNumericDate (add_duration now (is_access_ttl I))),
      NotBefore = Some (NewNumericDate now), Email = email, TokenID = tokenID\<rparr>"

definition IssueAccess :: "crypto \<Rightarrow> issuer \<Rightarrow> string \<Rightarrow> string \<Rightarrow> string \<Rightarrow> timestamp \<Rightarrow> (string \<times> string) go" where
  "IssueAccess C I tokenID userID email now =
     (case sign_rs256 C (is_key I) (is_key_id I) (access_claims I tokenID userID email now) of
        Inl GoPanic \<Rightarrow> Inl GoPanic
      | Inl _ \<Rightarrow> Inl GoError
      | Inr token \<Rightarrow> Inr (token, tokenID))"

text \<open>The methods of \<open>*jwt.SigningMethodRSA\<close>; the key function refuses every other one.\<close>

definition rsa_methods :: "string list" where
  "rsa_methods = [''RS256'', ''RS384'', ''RS512'']"

definition key_function :: "issuer \<Rightarrow> string \<Rightarrow> rsa_public go" where
  "key_function I alg = (if alg \<in> set rsa_methods then Inr (public_key (is_key I)) else Inl GoError)"

definition Verify :: "crypto \<Rightarrow> issuer \<Rightarrow> timestamp \<Rightarrow> string \<Rightarrow> Claims go" where
  "Verify C I now token =
     (case parse_with_claims C (key_function I) (is_issuer I) (is_audience I) now token of
        Inl GoPanic \<Rightarrow> Inl GoPanic
      | Inl _ \<Rightarrow> Inl GoError
      | Inr cl \<Rightarrow> Inr cl)"

subsection \<open>The key set\<close>

record jwk =
  Kty :: string
  Use :: string
  Alg :: string
  Kid :: string
  jwk_N :: string
  jwk_E :: string

fun drop_zeros :: "string \<Rightarrow> string" where
  "drop_zeros (c # d # s) = (if code c = 0 then drop_zeros (d # s) else c # d # s)"
| "drop_zeros s = s"

text \<open>\<open>byte(...)\<close> keeps the low eight bits.\<close>

definition to_byte :: "64 word \<Rightarrow> char" where
  "to_byte w = char_of (unat (ucast w :: 8 word))"

definition bigEndian :: "64 word \<Rightarrow> string" where
  "bigEndian value = drop_zeros [to_byte (drop_bit 16 value), to_byte (drop_bit 8 value), to_byte value]"

definition PublicJWKS :: "issuer \<Rightarrow> jwk list" where
  "PublicJWKS I =
     (let pub = public_key (is_key I)
      in [\<lparr>Kty = ''RSA'', Use = ''sig'', Alg = ''RS256'', Kid = is_key_id I,
           jwk_N = raw_encode url_alphabet (nat_bytes (rsa_N pub)),
           jwk_E = raw_encode url_alphabet (bigEndian (rsa_E pub))\<rparr>])"

subsection \<open>Refresh tokens\<close>

definition HashRefreshToken :: "crypto \<Rightarrow> string \<Rightarrow> string" where
  "HashRefreshToken C token = hex_encode (sha256 C token)"

text \<open>The random source yields 32 bytes or fails.\<close>

definition NewRefreshToken :: "crypto \<Rightarrow> string go \<Rightarrow> (string \<times> string) go" where
  "NewRefreshToken C random =
     (case random of
        Inl _ \<Rightarrow> Inl GoError
      | Inr raw \<Rightarrow> (let token = raw_encode url_alphabet raw in Inr (token, HashRefreshToken C token)))"

subsection \<open>Passwords\<close>

definition argonTime :: nat where "argonTime = 1"
definition argonMemory :: nat where "argonMemory = 64 * 1024"
definition argonThreads :: nat where "argonThreads = 4"
definition argonKeyLen :: nat where "argonKeyLen = 32"
definition argon_version :: nat where "argon_version = 19"

text \<open>\<open>fmt.Sprintf("$argon2id$v=%d$m=%d,t=%d,p=%d$%s$%s", ...)\<close>\<close>

definition format_hash :: "nat \<Rightarrow> nat \<Rightarrow> nat \<Rightarrow> string \<Rightarrow> string \<Rightarrow> string" where
  "format_hash memory time threads salt key =
     ''$argon2id$v='' @ show_nat argon_version @ ''$m='' @ show_nat memory @ '',t='' @ show_nat time
       @ '',p='' @ show_nat threads @ ''$'' @ raw_encode std_alphabet salt @ ''$'' @ raw_encode std_alphabet key"

definition HashPassword :: "crypto \<Rightarrow> string go \<Rightarrow> string \<Rightarrow> string go" where
  "HashPassword C random password =
     (case random of
        Inl _ \<Rightarrow> Inl GoError
      | Inr salt \<Rightarrow>
          (case argon2_id_key C password salt (of_nat argonTime) (of_nat argonMemory) (of_nat argonThreads) (of_nat argonKeyLen) of
             Inl e \<Rightarrow> Inl e
           | Inr key \<Rightarrow> Inr (format_hash argonMemory argonTime argonThreads salt key)))"

text \<open>\<open>fmt.Sscanf(parts[3], "m=%d,t=%d,p=%d", ...)\<close> into a uint32, a uint32 and a uint8.\<close>

definition scan_parameters :: "string \<Rightarrow> (nat \<times> nat \<times> nat) option" where
  "scan_parameters s =
     Option.bind (scan_uint ''m='' (2 ^ 32) s) (\<lambda>(memory, s).
     Option.bind (scan_uint '',t='' (2 ^ 32) s) (\<lambda>(time, s).
     Option.bind (scan_uint '',p='' (2 ^ 8) s) (\<lambda>(threads, s). Some (memory, time, threads))))"

definition VerifyPassword :: "crypto \<Rightarrow> string \<Rightarrow> string \<Rightarrow> unit go" where
  "VerifyPassword C password encoded =
     (let parts = split_on (CHR ''$'') encoded in
      if length parts \<noteq> 6 \<or> parts ! 1 \<noteq> ''argon2id'' then Inl ErrInvalidHash
      else
        (case scan_int ''v='' (parts ! 2) of
           None \<Rightarrow> Inl ErrInvalidHash
         | Some (version, _) \<Rightarrow>
             if version \<noteq> int argon_version then Inl ErrInvalidHash
             else
               (case scan_parameters (parts ! 3) of
                  None \<Rightarrow> Inl ErrInvalidHash
                | Some (memory, time, threads) \<Rightarrow>
                    (case (raw_decode std_alphabet (parts ! 4), raw_decode std_alphabet (parts ! 5)) of
                       (Some salt, Some want) \<Rightarrow>
                         (case argon2_id_key C password salt (of_nat time) (of_nat memory) (of_nat threads) (of_nat (length want)) of
                            Inl e \<Rightarrow> Inl e
                          | Inr got \<Rightarrow> if got \<noteq> want then Inl ErrMismatch else Inr ())
                     | _ \<Rightarrow> Inl ErrInvalidHash))))"

subsection \<open>Instants and dates\<close>

lemma numeric_time_le: "numeric_time n \<le> t \<longleftrightarrow> n \<le> NewNumericDate t"
  by (cases t) (auto simp: numeric_time_def NewNumericDate_def less_eq_timestamp_def)

lemma numeric_time_less [simp]: "numeric_time m < numeric_time n \<longleftrightarrow> m < n"
  by (simp add: numeric_time_def)

lemma NewNumericDate_numeric [simp]: "NewNumericDate (numeric_time n) = n"
  by (simp add: numeric_time_def NewNumericDate_def)

lemma sint_seconds:
  assumes "0 \<le> n" "n \<le> 9223372036" shows "sint (seconds n) = n * 1000000000"
proof -
  have "seconds n = word_of_int (n * 1000000000)" by (simp add: seconds_def)
  then have "sint (seconds n) = signed_take_bit 63 (n * 1000000000)" by (simp only: signed_of_int) simp
  then show ?thesis using assms by (simp add: signed_take_bit_int_eq_self)
qed

lemma NewNumericDate_add:
  assumes "0 \<le> n" "n \<le> 9223372036"
  shows "NewNumericDate (add_duration t (seconds n)) = NewNumericDate t + n"
proof -
  have "micros t + n * 1000000000 div 1000 = micros t + n * 1000000" by simp
  moreover have "(micros t + n * 1000000) div 1000000 = micros t div 1000000 + n" by simp
  ultimately show ?thesis by (simp add: NewNumericDate_def add_duration_def sint_seconds[OF assms])
qed

subsection \<open>The key set\<close>

lemma to_byte_code: "code (to_byte w) = unat w mod 256"
  by (simp add: to_byte_def unsigned_ucast_eq take_bit_eq_mod)

lemma bytes_nat_drop_zeros [simp]: "bytes_nat (drop_zeros s) = bytes_nat s"
  by (induction s rule: drop_zeros.induct) (auto simp: bytes_nat_def)

lemma bytes_nat_three: "bytes_nat [a, b, c] = 65536 * code a + 256 * code b + code c"
  by (simp add: bytes_nat_def)

lemma bytes_nat_bigEndian: "bytes_nat (bigEndian w) = unat w mod 2 ^ 24"
proof -
  have "(256 * (256 * (n div 65536 mod 256) + n div 256 mod 256) + n mod 256) = n mod 16777216" for n :: nat
  proof -
    have "n mod 16777216 = n mod (65536 * 256)" by simp
    also have "\<dots> = 65536 * (n div 65536 mod 256) + n mod 65536" by (rule mod_mult2_eq)
    also have "n mod 65536 = n mod (256 * 256)" by simp
    also have "\<dots> = 256 * (n div 256 mod 256) + n mod 256" by (rule mod_mult2_eq)
    finally show ?thesis by simp
  qed
  note digits = this
  have "unat (drop_bit 16 w) = unat w div 65536" "unat (drop_bit 8 w) = unat w div 256"
    by (simp_all only: unat_drop_bit_eq) (simp_all add: drop_bit_eq_div)
  then have "bytes_nat (bigEndian w) = 65536 * (unat w div 65536 mod 256) + 256 * (unat w div 256 mod 256) + unat w mod 256"
    by (simp only: bigEndian_def bytes_nat_drop_zeros bytes_nat_three to_byte_code)
  with digits[of "unat w"] show ?thesis by simp
qed

subsection \<open>Passwords\<close>

definition hashable :: "nat \<Rightarrow> nat \<Rightarrow> nat \<Rightarrow> bool" where
  "hashable memory time threads \<longleftrightarrow> memory < 2 ^ 32 \<and> time < 2 ^ 32 \<and> threads < 2 ^ 8"

lemma split_on_none: "d \<notin> set s \<Longrightarrow> split_on d s = [s]"
  by (induction s) auto

lemma split_on_append: "d \<notin> set w \<Longrightarrow> split_on d (w @ d # s) = w # split_on d s"
  by (induction w) auto

lemma scan_parameters_show:
  assumes "hashable m t p"
  shows "scan_parameters (''m='' @ show_nat m @ '',t='' @ show_nat t @ '',p='' @ show_nat p) = Some (m, t, p)"
proof -
  have "scan_uint ''m='' (2 ^ 32) (''m='' @ show_nat m @ '',t='' @ show_nat t @ '',p='' @ show_nat p)
      = Some (m, '',t='' @ show_nat t @ '',p='' @ show_nat p)"
    using assms by (intro scan_uint_show) (auto simp: hashable_def is_digit_def code_def)
  moreover have "scan_uint '',t='' (2 ^ 32) ('',t='' @ show_nat t @ '',p='' @ show_nat p) = Some (t, '',p='' @ show_nat p)"
    using assms by (intro scan_uint_show) (auto simp: hashable_def is_digit_def code_def)
  moreover have "scan_uint '',p='' (2 ^ 8) ('',p='' @ show_nat p @ []) = Some (p, [])"
    using assms by (intro scan_uint_show) (auto simp: hashable_def)
  ultimately show ?thesis by (simp add: scan_parameters_def)
qed

lemma dollar_free:
  "CHR ''$'' \<notin> set (show_nat n)" "CHR ''$'' \<notin> set (raw_encode std_alphabet s)"
proof -
  show "CHR ''$'' \<notin> set (show_nat n)"
    using show_nat_digits[of "CHR ''$''" n] by (auto simp: is_digit_def code_def)
  have "list_all (\<lambda>c. c \<noteq> CHR ''$'') std_alphabet" by code_simp
  then show "CHR ''$'' \<notin> set (raw_encode std_alphabet s)"
    using raw_encode_chars[OF good_alphabets(1)] by (auto simp: list_all_iff)
qed

lemma split_six:
  assumes "d \<notin> set a" "d \<notin> set b" "d \<notin> set c" "d \<notin> set e" "d \<notin> set f" "d \<notin> set g"
  shows "split_on d (a @ d # b @ d # c @ d # e @ d # f @ d # g) = [a, b, c, e, f, g]"
  using assms by (simp add: split_on_append split_on_none)

lemma split_format_hash:
  "split_on (CHR ''$'') (format_hash m t p salt key) =
     [[], ''argon2id'', ''v='' @ show_nat argon_version, ''m='' @ show_nat m @ '',t='' @ show_nat t @ '',p='' @ show_nat p,
      raw_encode std_alphabet salt, raw_encode std_alphabet key]"
proof -
  let ?d = "CHR ''$''"
  have "format_hash m t p salt key = [] @ ?d # ''argon2id'' @ ?d # (''v='' @ show_nat argon_version) @ ?d #
      (''m='' @ show_nat m @ '',t='' @ show_nat t @ '',p='' @ show_nat p) @ ?d # raw_encode std_alphabet salt @ ?d #
      raw_encode std_alphabet key"
    by (simp add: format_hash_def)
  then show ?thesis
    by (simp only:) (rule split_six; simp add: dollar_free)
qed

text \<open>What \<open>VerifyPassword\<close> makes of a hash in the format, whatever its parameters are.\<close>

lemma VerifyPassword_format:
  assumes "hashable m t p"
  shows "VerifyPassword C password (format_hash m t p salt want) =
    (case argon2_id_key C password salt (of_nat t) (of_nat m) (of_nat p) (of_nat (length want)) of
       Inl e \<Rightarrow> Inl e
     | Inr got \<Rightarrow> if got \<noteq> want then Inl ErrMismatch else Inr ())"
proof -
  have version: "scan_int ''v='' (''v='' @ show_nat argon_version @ []) = Some (int argon_version, [])"
    by (rule scan_int_show) (simp_all add: argon_version_def)
  show ?thesis
    using version
    by (simp add: VerifyPassword_def split_format_hash scan_parameters_show[OF assms]
        raw_decode_encode del: append.simps)
qed

text \<open>Nothing but a well-formed hash of the password is accepted.\<close>

lemma VerifyPassword_accepts:
  assumes "VerifyPassword C password encoded = Inr ()"
  shows "\<exists>version parameters salt64 key64 rest memory time threads salt want.
    encoded \<noteq> [] \<and> length (split_on (CHR ''$'') encoded) = 6
    \<and> tl (split_on (CHR ''$'') encoded) = [''argon2id'', version, parameters, salt64, key64]
    \<and> scan_int ''v='' version = Some (int argon_version, rest) \<and> scan_parameters parameters = Some (memory, time, threads)
    \<and> raw_decode std_alphabet salt64 = Some salt \<and> raw_decode std_alphabet key64 = Some want
    \<and> argon2_id_key C password salt (of_nat time) (of_nat memory) (of_nat threads) (of_nat (length want)) = Inr want"
proof -
  define parts where "parts = split_on (CHR ''$'') encoded"
  note v = assms[unfolded VerifyPassword_def Let_def parts_def[symmetric]]
  from v have six: "length parts = 6" "parts ! 1 = ''argon2id''" by (auto split: if_splits)
  then obtain a b c d e f where parts: "parts = [a, b, c, d, e, f]"
    by (auto simp: length_Suc_conv eval_nat_numeral)
  have "encoded \<noteq> []" using six(1) by (auto simp: parts_def)
  with v six show ?thesis
    unfolding parts_def[symmetric] by (auto simp: parts split: option.splits if_splits prod.splits sum.splits)
qed

subsection \<open>What golang-jwt and argon2 document\<close>

text \<open>
  A token that was signed with RS256 parses to its claims, if the key function gives the public key, the
  issuer and the audience are right, and the clock is between \<open>nbf\<close> and \<open>exp\<close>; and a token that parses has
  passed these checks. Claims are JSON in between, so their strings are restricted to ASCII here.
\<close>

definition is_ascii :: "string \<Rightarrow> bool" where
  "is_ascii s \<longleftrightarrow> list_all (\<lambda>c. code c < 128) s"

definition ascii_claims :: "Claims \<Rightarrow> bool" where
  "ascii_claims cl \<longleftrightarrow> is_ascii (Subject cl) \<and> is_ascii (Issuer cl) \<and> list_all is_ascii (Audience cl) \<and> is_ascii (ID cl)
     \<and> is_ascii (Email cl) \<and> is_ascii (TokenID cl)"

definition valid_at :: "string \<Rightarrow> string \<Rightarrow> timestamp \<Rightarrow> Claims \<Rightarrow> bool" where
  "valid_at iss aud now cl \<longleftrightarrow> Issuer cl = iss \<and> aud \<in> set (Audience cl)
     \<and> (case ExpiresAt cl of None \<Rightarrow> False | Some e \<Rightarrow> now < numeric_time e)
     \<and> (case NotBefore cl of None \<Rightarrow> True | Some n \<Rightarrow> numeric_time n \<le> now)"

text \<open>The compact form: base64url and dots.\<close>

definition compact_token :: "string \<Rightarrow> bool" where
  "compact_token token \<longleftrightarrow> token \<noteq> [] \<and> set token \<subseteq> insert (CHR ''.'') (set url_alphabet)"

lemma compact_raw_encode: "s \<noteq> [] \<Longrightarrow> compact_token (raw_encode url_alphabet s)"
proof -
  assume "s \<noteq> []"
  then have "raw_encode url_alphabet s \<noteq> []" by (cases s rule: sextets.cases) (auto simp: raw_encode_def)
  then show ?thesis using raw_encode_chars[OF good_alphabets(2)] by (auto simp: compact_token_def)
qed

lemma compact_printable: "compact_token token \<Longrightarrow> c \<in> set token \<Longrightarrow> 32 < code c \<and> code c < 128"
  using good_alphabets(2) by (auto simp: compact_token_def good_alphabet_def list_all_iff code_def)

definition jwt_law :: "crypto \<Rightarrow> bool" where
  "jwt_law C \<longleftrightarrow>
     (\<forall>key kid cl token. sign_rs256 C key kid cl = Inr token \<longrightarrow> compact_token token)
   \<and> (\<forall>key kid cl token keyfunc iss aud now. sign_rs256 C key kid cl = Inr token \<longrightarrow> ascii_claims cl \<longrightarrow>
        keyfunc ''RS256'' = Inr (public_key key) \<longrightarrow> valid_at iss aud now cl \<longrightarrow>
        parse_with_claims C keyfunc iss aud now token = Inr cl)
   \<and> (\<forall>keyfunc iss aud now token cl. parse_with_claims C keyfunc iss aud now token = Inr cl \<longrightarrow> valid_at iss aud now cl)"

lemma jwt_lawD:
  assumes "jwt_law C"
  shows "sign_rs256 C key kid cl = Inr token \<Longrightarrow> compact_token token"
    and "sign_rs256 C key kid cl = Inr token \<Longrightarrow> ascii_claims cl \<Longrightarrow> keyfunc ''RS256'' = Inr (public_key key) \<Longrightarrow>
      valid_at iss aud now cl \<Longrightarrow> parse_with_claims C keyfunc iss aud now token = Inr cl"
    and "parse_with_claims C keyfunc iss aud now token = Inr cl \<Longrightarrow> valid_at iss aud now cl"
  using assms unfolding jwt_law_def by blast+

definition argon2_law :: "crypto \<Rightarrow> bool" where
  "argon2_law C \<longleftrightarrow> (\<forall>password salt t m p n.
     (\<forall>k. argon2_id_key C password salt t m p n = Inr k \<longrightarrow> length k = unat n)
     \<and> (t \<noteq> 0 \<and> p \<noteq> 0 \<and> n \<noteq> 0 \<longrightarrow> (\<exists>k. argon2_id_key C password salt t m p n = Inr k)))"

lemma argon2_total:
  assumes "argon2_law C" shows "\<exists>k. argon2_id_key C password salt 1 65536 4 32 = Inr k \<and> length k = 32"
proof -
  have "(1 :: 32 word) \<noteq> 0" "(4 :: 8 word) \<noteq> 0" "(32 :: 32 word) \<noteq> 0" by simp_all
  with assms obtain k where "argon2_id_key C password salt 1 65536 4 32 = Inr k" unfolding argon2_law_def by blast
  moreover from this assms have "length k = unat (32 :: 32 word)" unfolding argon2_law_def by blast
  ultimately show ?thesis by simp
qed

lemma HashPassword_eq:
  "HashPassword C (Inr salt) password =
    (case argon2_id_key C password salt 1 65536 4 32 of Inl e \<Rightarrow> Inl e | Inr key \<Rightarrow> Inr (format_hash 65536 1 4 salt key))"
  unfolding HashPassword_def argonMemory_def argonTime_def argonThreads_def argonKeyLen_def
  by (simp split: sum.split)

lemma HashPassword_total: "argon2_law C \<Longrightarrow> \<exists>hash. HashPassword C (Inr salt) password = Inr hash"
  using argon2_total[of C password salt] by (auto simp: HashPassword_eq)

lemma VerifyPassword_hashed:
  assumes "argon2_law C" "HashPassword C (Inr salt) password = Inr hash"
  shows "VerifyPassword C other hash = (if argon2_id_key C other salt 1 65536 4 32 = argon2_id_key C password salt 1 65536 4 32
    then Inr () else Inl ErrMismatch)"
proof -
  obtain k k' where k: "argon2_id_key C password salt 1 65536 4 32 = Inr k" "length k = 32"
    "argon2_id_key C other salt 1 65536 4 32 = Inr k'"
    using argon2_total[OF assms(1)] by metis
  then have "hash = format_hash 65536 1 4 salt k" using assms(2) by (simp add: HashPassword_eq)
  moreover have "hashable 65536 1 4" by (simp add: hashable_def)
  ultimately show ?thesis using k by (simp add: VerifyPassword_format)
qed

text \<open>The claims as JSON: empty members are left out.\<close>

definition claims_json :: "Claims \<Rightarrow> json" where
  "claims_json cl =
     (let text = (\<lambda>k s. if s = [] then [] else [(k, JStr s)]);
          date = (\<lambda>k d. case d of None \<Rightarrow> [] | Some n \<Rightarrow> [(k, JInt n)])
      in JObj (text ''iss'' (Issuer cl) @ text ''sub'' (Subject cl)
           @ (if Audience cl = [] then [] else [(''aud'', JArr (map JStr (Audience cl)))])
           @ date ''exp'' (ExpiresAt cl) @ date ''nbf'' (NotBefore cl) @ date ''iat'' (IssuedAt cl) @ text ''jti'' (ID cl)
           @ [(''email'', JStr (Email cl))] @ text ''jti_ref'' (TokenID cl)))"

subsection \<open>Parameters to evaluate on\<close>

text \<open>A token is the JSON text of the modulus of its key and its claims, in base 64; hashes are made of the input.\<close>

definition sealed :: "Claims \<Rightarrow> json" where
  "sealed cl =
     (let date = (\<lambda>d. case d of None \<Rightarrow> JNull | Some n \<Rightarrow> JInt n)
      in JArr [JStr (Subject cl), JStr (Issuer cl), JArr (map JStr (Audience cl)), JStr (ID cl), date (IssuedAt cl),
           date (ExpiresAt cl), date (NotBefore cl), JStr (Email cl), JStr (TokenID cl)])"

definition text_of :: "json \<Rightarrow> string" where
  "text_of j = (case j of JStr s \<Rightarrow> s | _ \<Rightarrow> [])"

definition date_of :: "json \<Rightarrow> int option" where
  "date_of j = (case j of JInt n \<Rightarrow> Some n | _ \<Rightarrow> None)"

definition unsealed :: "json \<Rightarrow> Claims option" where
  "unsealed j =
     (case j of
        JArr [sub, iss, JArr aud, i, iat, expires, nbf, email, ref] \<Rightarrow>
          Some \<lparr>Subject = text_of sub, Issuer = text_of iss, Audience = map text_of aud, ID = text_of i, IssuedAt = date_of iat,
            ExpiresAt = date_of expires, NotBefore = date_of nbf, Email = text_of email, TokenID = text_of ref\<rparr>
      | _ \<Rightarrow> None)"

lemma unsealed_sealed [simp]: "unsealed (sealed cl) = Some cl"
  by (cases cl) (simp add: sealed_def unsealed_def text_of_def date_of_def Let_def comp_def split: option.splits)

fun signed_parts :: "json \<Rightarrow> (int \<times> Claims) option" where
  "signed_parts (JArr [JInt n, j]) = map_option (Pair n) (unsealed j)"
| "signed_parts _ = None"

definition plain_parse :: "(string \<Rightarrow> rsa_public go) \<Rightarrow> string \<Rightarrow> string \<Rightarrow> timestamp \<Rightarrow> string \<Rightarrow> Claims go" where
  "plain_parse keyfunc iss aud now token =
     (case (Option.bind (Option.bind (raw_decode url_alphabet token) (\<lambda>t. as_option (json_loads t))) signed_parts, keyfunc ''RS256'') of
        (Some (n, cl), Inr pub) \<Rightarrow> if n = int (rsa_N pub) \<and> valid_at iss aud now cl then Inr cl else Inl GoError
      | _ \<Rightarrow> Inl GoError)"

definition plain_crypto :: crypto where
  "plain_crypto =
     \<lparr>sha256 = (\<lambda>s. s),
      argon2_id_key = (\<lambda>password salt t m p n. if t = 0 \<or> p = 0 \<or> n = 0 then Inl GoPanic
        else Inr (take (unat n) (password @ replicate (unat n) (CHR ''a'')))),
      sign_rs256 = (\<lambda>key kid cl. Inr (raw_encode url_alphabet (json_dumps (JArr [JInt (int (rsa_N (public_key key))), sealed cl])))),
      parse_with_claims = plain_parse\<rparr>"

lemma sealed_dict_ok [simp]: "dict_ok (sealed cl)"
  by (simp add: sealed_def Let_def list_all_iff split: option.splits)

lemma plain_jwt_law [simp]: "jwt_law plain_crypto"
proof -
  have "valid_at iss aud now cl" if "plain_parse keyfunc iss aud now token = Inr cl" for keyfunc iss aud now token cl
    using that by (auto simp: plain_parse_def split: sum.splits option.splits if_splits)
  moreover have "plain_parse keyfunc iss aud now (raw_encode url_alphabet (json_dumps (JArr [JInt (int (rsa_N (public_key key))), sealed cl]))) = Inr cl"
    if "keyfunc ''RS256'' = Inr (public_key key)" "valid_at iss aud now cl" for keyfunc iss aud now key cl
    using that json_loads_dumps[of "JArr [JInt (int (rsa_N (public_key key))), sealed cl]"]
    by (simp add: plain_parse_def raw_decode_encode del: json_dumps.simps)
  moreover have "json_dumps (JArr [JInt (int (rsa_N (public_key key))), sealed cl]) \<noteq> []" for key cl by simp
  then have "compact_token (raw_encode url_alphabet (json_dumps (JArr [JInt (int (rsa_N (public_key key))), sealed cl])))" for key cl
    by (rule compact_raw_encode)
  ultimately show ?thesis
    unfolding jwt_law_def by (auto simp: plain_crypto_def simp del: json_dumps.simps)
qed

lemma plain_argon2_law [simp]: "argon2_law plain_crypto"
  by (auto simp: argon2_law_def plain_crypto_def)

subsection \<open>What holds of tokens and passwords\<close>

text \<open>
  C18: A password verifies against its hash and no other does. \<open>HashPassword\<close> makes a text that
  \<open>VerifyPassword\<close> takes apart into the same salt, costs and key: it accepts the password, answers
  ErrMismatch to every password with another key, and a hash written with other costs is checked with these.
\<close>

theorem password_round_trip:
  assumes "argon2_law C" and "hashable m t p" "argon2_id_key C old salt (of_nat t) (of_nat m) (of_nat p) (of_nat (length key)) = Inr key"
  shows "(\<exists>hash. HashPassword C (Inr salt) password = Inr hash \<and> VerifyPassword C password hash = Inr ()
      \<and> (\<forall>other. VerifyPassword C other hash = (if argon2_id_key C other salt 1 65536 4 32 = argon2_id_key C password salt 1 65536 4 32
           then Inr () else Inl ErrMismatch)))
    \<and> VerifyPassword C old (format_hash m t p salt key) = Inr ()"
proof
  obtain hash where hash: "HashPassword C (Inr salt) password = Inr hash" using HashPassword_total[OF assms(1)] by blast
  then show "\<exists>hash. HashPassword C (Inr salt) password = Inr hash \<and> VerifyPassword C password hash = Inr ()
      \<and> (\<forall>other. VerifyPassword C other hash = (if argon2_id_key C other salt 1 65536 4 32 = argon2_id_key C password salt 1 65536 4 32
           then Inr () else Inl ErrMismatch))"
    by (intro exI[of _ hash]) (simp add: VerifyPassword_hashed[OF assms(1) hash])
  show "VerifyPassword C old (format_hash m t p salt key) = Inr ()"
    by (simp add: VerifyPassword_format[OF assms(2)] assms(3))
qed

theorem password_round_trip_witness:
  "\<exists>hash. HashPassword plain_crypto (Inr ''salt'') ''correct horse battery'' = Inr hash
    \<and> VerifyPassword plain_crypto ''correct horse battery'' hash = Inr () \<and> VerifyPassword plain_crypto ''wrong password'' hash = Inl ErrMismatch"
proof -
  have "hashable 8 3 1" by (simp add: hashable_def)
  moreover have "argon2_id_key plain_crypto ''old'' ''salt'' (of_nat 3) (of_nat 8) (of_nat 1) (of_nat (length ''old'')) = Inr ''old''"
    by (simp add: plain_crypto_def)
  ultimately obtain hash where "HashPassword plain_crypto (Inr ''salt'') ''correct horse battery'' = Inr hash"
    "VerifyPassword plain_crypto ''correct horse battery'' hash = Inr ()"
    "\<forall>other. VerifyPassword plain_crypto other hash = (if argon2_id_key plain_crypto other ''salt'' 1 65536 4 32
        = argon2_id_key plain_crypto ''correct horse battery'' ''salt'' 1 65536 4 32 then Inr () else Inl ErrMismatch)"
    using password_round_trip[OF plain_argon2_law, of 8 3 1 "''old''" "''salt''" "''old''" "''correct horse battery''"] by blast
  moreover have "argon2_id_key plain_crypto ''wrong password'' ''salt'' 1 65536 4 32
      \<noteq> argon2_id_key plain_crypto ''correct horse battery'' ''salt'' 1 65536 4 32"
    by (simp add: plain_crypto_def)
  ultimately show ?thesis by (intro exI[of _ hash]) simp
qed

text \<open>
  The key set publishes the signing key. The modulus of the one key in it decodes to the modulus of the
  signing key, the exponent to the low 24 bits of its exponent, and its id is the one tokens are signed with.
\<close>

lemma key_set_publishes_the_key:
  "\<exists>k. PublicJWKS I = [k] \<and> Kid k = is_key_id I \<and> Alg k = ''RS256''
    \<and> map_option bytes_nat (raw_decode url_alphabet (jwk_N k)) = Some (rsa_N (public_key (is_key I)))
    \<and> map_option bytes_nat (raw_decode url_alphabet (jwk_E k)) = Some (unat (rsa_E (public_key (is_key I))) mod 2 ^ 24)"
  by (simp add: PublicJWKS_def Let_def raw_decode_encode bytes_nat_bytes bytes_nat_bigEndian)

text \<open>The vectors of password_test.go: no malformed hash is accepted.\<close>

lemma malformed_hashes_refused:
  "VerifyPassword C pw [] = Inl ErrInvalidHash" "VerifyPassword C pw ''not-a-hash'' = Inl ErrInvalidHash"
  "VerifyPassword C pw ''$argon2id$broken'' = Inl ErrInvalidHash"
  "VerifyPassword C pw ''$bcrypt$v=19$m=65536,t=1,p=4$c2FsdA$aGFzaA'' = Inl ErrInvalidHash"
  by (simp_all add: VerifyPassword_def)

text \<open>Different random bytes give different refresh tokens.\<close>

lemma refresh_tokens_differ:
  "NewRefreshToken C (Inr raw) = Inr (token, hash) \<Longrightarrow> NewRefreshToken C (Inr raw') = Inr (token, hash') \<Longrightarrow> raw = raw'"
  by (auto simp: NewRefreshToken_def Let_def raw_encode_inj)

end
