(* ===== verification/GoTime.thy ===== *)
theory GoTime
  imports GoText IsoTime
begin

section \<open>Instants as text: \<open>t.UTC().Format(time.RFC3339)\<close>\<close>

text \<open>
  How the auth service (services/auth/internal/store/store.go) writes the expiry of a revocation: the
  date, the time of day in whole seconds, and a Z. The day of an instant is counted from the first day
  of year 1; its year is found by walking up from a year that cannot be too late. The last lemma shows
  that \<open>fromisoformat\<close> of Python reads the text back.
\<close>

text \<open>\<open>expiresAt.UTC().Format(time.RFC3339)\<close>: the date of a day counted from the first of year 1, the time of day, a Z.\<close>

function year_from :: "nat \<Rightarrow> nat \<Rightarrow> nat" where
  "year_from y n = (if days_before_year (Suc y) \<le> n then year_from (Suc y) n else y)"
  by auto
termination
proof (relation "measure (\<lambda>(y, n). Suc n - y)")
  fix y n assume "days_before_year (Suc y) \<le> n"
  moreover have "y div 100 \<le> y div 4" by (rule div_le_mono2) auto
  then have "y \<le> days_before_year (Suc y)" by (simp add: days_before_year_def Let_def)
  ultimately show "((Suc y, n), y, n) \<in> measure (\<lambda>(y, n). Suc n - y)" by simp
qed simp

declare year_from.simps [simp del]

definition year_of_day :: "nat \<Rightarrow> nat" where
  "year_of_day n = year_from (Suc (n div 366)) n"

fun month_from :: "nat \<Rightarrow> nat list \<Rightarrow> nat \<Rightarrow> nat \<times> nat" where
  "month_from y [] r = (12, r)"
| "month_from y (m # ms) r = (if r < days_in_month y m then (m, r) else month_from y ms (r - days_in_month y m))"

definition pad :: "nat \<Rightarrow> nat \<Rightarrow> string" where
  "pad width n = (let ds = show_nat n in replicate (width - length ds) (CHR ''0'') @ ds)"

definition format_rfc3339 :: "timestamp \<Rightarrow> string" where
  "format_rfc3339 t =
     (let s = nat (micros t div 1000000); day = s div 86400; rest = s mod 86400;
          y = year_of_day day; (m, d) = month_from y [1..<13] (day - days_before_year y)
      in pad 4 y @ ''-'' @ pad 2 m @ ''-'' @ pad 2 (Suc d) @ ''T'' @ pad 2 (rest div 3600) @ '':''
         @ pad 2 (rest mod 3600 div 60) @ '':'' @ pad 2 (rest mod 60) @ ''Z'')"

subsection \<open>The calendar\<close>

lemma days_before_year_Suc:
  assumes "1 \<le> y"
  shows "days_before_year (Suc y) = days_before_year y + (if is_leap y then 366 else 365)"
proof -
  obtain p where y: "y = Suc p" using assms by (cases y) auto
  define i j l :: nat where ijl: "i = (if Suc p mod 4 = 0 then 1 else 0)" "j = (if Suc p mod 100 = 0 then 1 else 0)"
    "l = (if Suc p mod 400 = 0 then 1 else 0)"
  define a b c where abc: "a = p div 4" "b = p div 100" "c = p div 400"
  have "b \<le> a" unfolding abc by (rule div_le_mono2) auto
  have "Suc p mod 100 = 0 \<Longrightarrow> Suc p mod 4 = 0" "Suc p mod 400 = 0 \<Longrightarrow> Suc p mod 100 = 0"
    by presburger+
  then have ij: "j \<le> i" "l \<le> j" and leap: "(if is_leap y then 366 else 365) = 365 + i - j + l"
    by (auto simp: ijl is_leap_def y)
  have "Suc p div 4 = a + i" "Suc p div 100 = b + j" "Suc p div 400 = c + l" by (auto simp: ijl abc div_Suc)
  then have "days_before_year (Suc y) = Suc p * 365 + (a + i) - (b + j) + (c + l)"
    by (simp add: y days_before_year_def Let_def)
  moreover have "days_before_year y = p * 365 + a - b + c" by (simp add: y abc days_before_year_def Let_def)
  ultimately show ?thesis unfolding leap using \<open>b \<le> a\<close> ij by simp
qed

lemma days_before_year_mono: "1 \<le> y \<Longrightarrow> y \<le> z \<Longrightarrow> days_before_year y \<le> days_before_year z"
proof (induction z)
  case (Suc z)
  then show ?case using days_before_year_Suc[of z] by (cases "y = Suc z") auto
qed simp

lemma year_from_spec:
  assumes "1 \<le> y" "days_before_year y \<le> n"
  shows "1 \<le> year_from y n \<and> days_before_year (year_from y n) \<le> n \<and> n < days_before_year (Suc (year_from y n))"
  using assms
proof (induction y n rule: year_from.induct)
  case (1 y n)
  then show ?case
    by (cases "days_before_year (Suc y) \<le> n") (simp_all add: year_from.simps[of y n])
qed

lemma year_of_day_spec:
  "1 \<le> year_of_day n \<and> days_before_year (year_of_day n) \<le> n \<and> n < days_before_year (Suc (year_of_day n))"
proof -
  let ?q = "n div 366"
  have "?q div 100 \<le> ?q div 4" "?q div 400 \<le> ?q div 100" by (rule div_le_mono2; simp)+
  then have "days_before_year (Suc ?q) \<le> 365 * ?q + ?q div 4"
    unfolding days_before_year_def Let_def diff_Suc_1 by linarith
  also have "\<dots> \<le> 366 * ?q" by simp
  also have "\<dots> \<le> n" by simp
  finally show ?thesis unfolding year_of_day_def by (intro year_from_spec) auto
qed

lemma month_from_spec:
  assumes "k \<le> 13" "r < sum_list (map (days_in_month y) [k..<13])" "month_from y [k..<13] r = (m, d)"
  shows "k \<le> m \<and> m \<le> 12 \<and> d < days_in_month y m \<and> r = sum_list (map (days_in_month y) [k..<m]) + d"
  using assms
proof (induction "13 - k" arbitrary: k r)
  case (Suc i)
  then have k: "[k..<13] = k # [Suc k..<13]" by (simp add: upt_conv_Cons)
  show ?case
  proof (cases "r < days_in_month y k")
    case True
    with Suc.prems Suc.hyps(2) show ?thesis by (auto simp: k)
  next
    case False
    have "Suc k \<le> m \<and> m \<le> 12 \<and> d < days_in_month y m \<and>
        r - days_in_month y k = sum_list (map (days_in_month y) [Suc k..<m]) + d"
      using Suc.hyps Suc.prems False by (intro Suc.hyps(1)) (auto simp: k)
    moreover from this have "[k..<m] = k # [Suc k..<m]" by (simp add: upt_conv_Cons)
    ultimately show ?thesis using False by auto
  qed
qed simp

lemma days_of_year: "sum_list (map (days_in_month y) [1..<13]) = (if is_leap y then 366 else 365)"
  by (simp add: days_in_month_def upt_rec)

subsection \<open>The text\<close>

lemma decimal_append: "decimal (xs @ ys) = foldl (\<lambda>a c. 10 * a + (code c - 48)) (decimal xs) ys"
  by (simp add: decimal_def)

lemma decimal_zeros: "decimal (replicate k (CHR ''0'') @ ds) = decimal ds"
  by (induction k) (simp_all add: decimal_def code_def)

lemma length_show_nat: "1 \<le> w \<Longrightarrow> n < 10 ^ w \<Longrightarrow> length (show_nat n) \<le> w"
proof (induction n arbitrary: w rule: show_nat.induct)
  case (1 n)
  show ?case
  proof (cases "n < 10")
    case True
    with "1.prems" show ?thesis by (simp add: show_nat.simps[of n])
  next
    case False
    with "1.prems" obtain v where w: "w = Suc v" "1 \<le> v"
      by (cases w) (auto, metis One_nat_def Suc_leI less_one not_gr_zero power_0 mult_1_right power_Suc)
    with "1.prems" have "n div 10 < 10 ^ v" by auto
    with "1.IH"[OF False] w False show ?thesis by (simp add: show_nat.simps[of n])
  qed
qed

lemma pad_spec:
  assumes "1 \<le> w" "n < 10 ^ w"
  shows "length (pad w n) = w \<and> (\<forall>c\<in>set (pad w n). is_digit c) \<and> decimal (pad w n) = n"
  using length_show_nat[OF assms] show_nat_digits[of _ n]
  by (auto simp: pad_def Let_def decimal_zeros is_digit_def code_def)

lemma pad2: "n < 100 \<Longrightarrow> \<exists>a b. pad 2 n = [a, b] \<and> is_digit a \<and> is_digit b \<and> decimal [a, b] = n"
  using pad_spec[of 2 n] by (cases "pad 2 n") (auto simp: length_Suc_conv)

lemma pad4: "n < 10000 \<Longrightarrow> \<exists>a b c d. pad 4 n = [a, b, c, d] \<and> is_digit a \<and> is_digit b \<and> is_digit c \<and> is_digit d
    \<and> decimal [a, b, c, d] = n"
proof -
  assume "n < 10000"
  then have "length (pad 4 n) = Suc (Suc (Suc (Suc 0)))" "\<forall>c\<in>set (pad 4 n). is_digit c" "decimal (pad 4 n) = n"
    using pad_spec[of 4 n] by auto
  then show ?thesis by (auto simp: length_Suc_conv)
qed

lemma replace_char_append: "replace_char d new (s @ t) = replace_char d new s @ replace_char d new t"
  by (simp add: replace_char_def)

lemma replace_char_digits: "\<forall>c\<in>set s. is_digit c \<Longrightarrow> replace_char (CHR ''Z'') new s = s"
  by (induction s) (auto simp: replace_char_def is_digit_def code_def)

lemma civil_date:
  assumes "month_from (year_of_day n) [1..<13] (n - days_before_year (year_of_day n)) = (m, d)"
  shows "valid_date (year_of_day n) m (Suc d) \<longleftrightarrow> year_of_day n \<le> 9999" and "m < 100" "Suc d < 100"
    and "n = days_before_year (year_of_day n) + days_before_month (year_of_day n) m + d"
proof -
  define y where "y = year_of_day n"
  have year: "1 \<le> y" "days_before_year y \<le> n" "n < days_before_year y + (if is_leap y then 366 else 365)"
    using year_of_day_spec[of n] days_before_year_Suc[of y] by (auto simp: y_def)
  have "n - days_before_year y < sum_list (map (days_in_month y) [1..<13])"
    unfolding days_of_year using year(2,3) by linarith
  from month_from_spec[OF _ this] assms have m: "1 \<le> m" "m \<le> 12" "d < days_in_month y m"
    and sum: "n - days_before_year y = days_before_month y m + d"
    by (auto simp: y_def days_before_month_def)
  have "days_in_month y m \<le> 31" by (simp add: days_in_month_def)
  with m show "m < 100" "Suc d < 100" by auto
  show "n = days_before_year (year_of_day n) + days_before_month (year_of_day n) m + d"
    using sum year(2) unfolding y_def by linarith
  show "valid_date (year_of_day n) m (Suc d) \<longleftrightarrow> year_of_day n \<le> 9999"
    using m year(1) unfolding y_def by (auto simp: valid_date_def)
qed

lemma pieces_read_back:
  assumes "valid_date y m d" "h < 24" "i < 60" "s < 60" "m < 100" "d < 100"
  shows "fromisoformat other (replace_char (CHR ''Z'') ''+00:00''
      (pad 4 y @ ''-'' @ pad 2 m @ ''-'' @ pad 2 d @ ''T'' @ pad 2 h @ '':'' @ pad 2 i @ '':'' @ pad 2 s @ ''Z''))
    = Inr \<lparr>wall = wall_clock y m d h i s, utcoffset = Some 0\<rparr>"
proof -
  have "y < 10000" using assms(1) by (simp add: valid_date_def)
  then obtain y1 y2 y3 y4 where y: "pad 4 y = [y1, y2, y3, y4]" "is_digit y1" "is_digit y2" "is_digit y3" "is_digit y4"
    "decimal [y1, y2, y3, y4] = y" using pad4 by blast
  obtain m1 m2 where m: "pad 2 m = [m1, m2]" "is_digit m1" "is_digit m2" "decimal [m1, m2] = m" using pad2[OF assms(5)] by blast
  obtain d1 d2 where d: "pad 2 d = [d1, d2]" "is_digit d1" "is_digit d2" "decimal [d1, d2] = d" using pad2[OF assms(6)] by blast
  obtain h1 h2 where h: "pad 2 h = [h1, h2]" "is_digit h1" "is_digit h2" "decimal [h1, h2] = h" using pad2[of h] assms(2) by auto
  obtain i1 i2 where i: "pad 2 i = [i1, i2]" "is_digit i1" "is_digit i2" "decimal [i1, i2] = i" using pad2[of i] assms(3) by auto
  obtain s1 s2 where s: "pad 2 s = [s1, s2]" "is_digit s1" "is_digit s2" "decimal [s1, s2] = s" using pad2[of s] assms(4) by auto
  let ?text = "[y1, y2, y3, y4, CHR ''-'', m1, m2, CHR ''-'', d1, d2, CHR ''T'', h1, h2, CHR '':'', i1, i2, CHR '':'', s1, s2,
    CHR ''+'', CHR ''0'', CHR ''0'', CHR '':'', CHR ''0'', CHR ''0'']"
  have noz: "is_digit c \<Longrightarrow> c \<noteq> CHR ''Z''" for c by (auto simp: is_digit_def code_def)
  have plain: "replace_char (CHR ''Z'') ''+00:00''
      (pad 4 y @ ''-'' @ pad 2 m @ ''-'' @ pad 2 d @ ''T'' @ pad 2 h @ '':'' @ pad 2 i @ '':'' @ pad 2 s @ ''Z'') = ?text"
    using y(2-5) m(2,3) d(2,3) h(2,3) i(2,3) s(2,3)
    by (simp add: y(1) m(1) d(1) h(1) i(1) s(1) replace_char_def noz)
  have digits: "digits_at ?text 0 4 = y" "digits_at ?text 5 2 = m" "digits_at ?text 8 2 = d" "digits_at ?text 11 2 = h"
    "digits_at ?text 14 2 = i" "digits_at ?text 17 2 = s" "digits_at ?text 20 2 = 0" "digits_at ?text 23 2 = 0"
    using y(6) m(4) d(4) h(4) i(4) s(4) by (simp_all add: digits_at_def decimal_def code_def)
  have zero: "is_digit (CHR ''0'')" by (simp add: is_digit_def code_def)
  have "rfc3339_shape ?text"
    unfolding rfc3339_shape_def digits using y(2-5) m(2,3) d(2,3) h(2,3) i(2,3) s(2,3) zero by simp
  moreover have "read_rfc3339 ?text = Inr \<lparr>wall = wall_clock y m d h i s, utcoffset = Some 0\<rparr>"
    unfolding read_rfc3339_def digits Let_def using assms(1-4) by simp
  ultimately show ?thesis unfolding plain fromisoformat_def by simp
qed

lemma seconds_of_day: "r div 3600 * 3600 + r mod 3600 div 60 * 60 + r mod 60 = r" for r :: nat
proof -
  have "r mod 3600 mod 60 = r mod 60" by (rule mod_mod_cancel) simp
  then have "r mod 3600 div 60 * 60 + r mod 60 = r mod 3600" by (metis div_mult_mod_eq)
  then show ?thesis using div_mult_mod_eq[of r 3600] by linarith
qed

text \<open>The end of the last year that RFC 3339 can write.\<close>

definition year_10000 :: timestamp where
  "year_10000 = wall_clock 10000 1 1 0 0 0"

text \<open>The text is read back as the instant, cut to whole seconds.\<close>

lemma fromisoformat_format:
  assumes "0 \<le> micros t" "t < year_10000"
  shows "fromisoformat other (replace_char (CHR ''Z'') ''+00:00'' (format_rfc3339 t))
    = Inr \<lparr>wall = Timestamp (micros t div 1000000 * 1000000), utcoffset = Some 0\<rparr>"
proof -
  define s where "s = nat (micros t div 1000000)"
  define n where "n = s div 86400"
  define r where "r = s mod 86400"
  define y where "y = year_of_day n"
  obtain m d where md: "month_from y [1..<13] (n - days_before_year y) = (m, d)" by fastforce
  note civil = civil_date[of n m d, folded y_def, OF md]
  have "micros t < int (days_before_year 10000 * 86400) * 1000000"
    using assms(2) by (cases t) (simp add: year_10000_def wall_clock_def days_before_month_def)
  then have "s < days_before_year 10000 * 86400" using assms(1) by (simp add: s_def)
  then have "n < days_before_year 10000" by (simp add: n_def less_mult_imp_div_less)
  then have y: "y \<le> 9999"
    using days_before_year_mono[of 10000 y] year_of_day_spec[of n] unfolding y_def[symmetric] by linarith
  have "format_rfc3339 t = pad 4 y @ ''-'' @ pad 2 m @ ''-'' @ pad 2 (Suc d) @ ''T'' @ pad 2 (r div 3600) @ '':''
      @ pad 2 (r mod 3600 div 60) @ '':'' @ pad 2 (r mod 60) @ ''Z''"
    unfolding format_rfc3339_def Let_def s_def[symmetric] n_def[symmetric] r_def[symmetric] y_def[symmetric] md by simp
  moreover have "r div 3600 < 24" by (simp add: r_def less_mult_imp_div_less)
  moreover have "wall_clock y m (Suc d) (r div 3600) (r mod 3600 div 60) (r mod 60) = Timestamp (micros t div 1000000 * 1000000)"
  proof -
    have "n * 86400 + r = s" by (simp add: n_def r_def)
    then have "(days_before_year y + days_before_month y m + (Suc d - 1)) * 86400 + r div 3600 * 3600 + r mod 3600 div 60 * 60 + r mod 60 = s"
      using civil(4) seconds_of_day[of r] by simp
    then show ?thesis
      using assms(1) unfolding wall_clock_def by (simp only:) (simp add: s_def)
  qed
  ultimately show ?thesis
    using pieces_read_back[of y m "Suc d" "r div 3600" "r mod 3600 div 60" "r mod 60" other] civil(1-3) y by simp
qed

end
