(* ===== verification/AuthStore.thy ===== *)
theory AuthStore
  imports AuthTokens GoTime Relay "HOL-Library.List_Lexorder"
begin

section \<open>The database of the auth service (services/auth/internal/store/store.go)\<close>

text \<open>
  The tables of migrations/0001_init.sql and the functions of store.go. Every function is one statement
  or one transaction, and takes effect at one moment; \<open>now\<close> is the clock of the database, ids that the
  database makes are arguments. Columns that nothing reads (created_at of users, id and created_at of
  refresh_tokens) are left out. The table outbox_events has the columns of the outbox of the posts
  service, so its rows are \<open>outbox_event\<close>s. Postgres cannot store a NUL byte in a text column or in JSONB;
  its \<open>lower\<close>, which depends on the locale, is a parameter.
\<close>

record user =
  u_id :: string
  u_email :: string
  u_password_hash :: string

record refresh_token =
  rf_user_id :: string
  rf_token_hash :: string
  rf_expires_at :: timestamp
  rf_revoked_at :: "timestamp option"

record auth_db =
  adb_users :: "user list"
  adb_refresh :: "refresh_token list"
  adb_outbox :: "outbox_event list"

definition empty_auth_db :: auth_db where
  "empty_auth_db = \<lparr>adb_users = [], adb_refresh = [], adb_outbox = []\<rparr>"

text \<open>A statement or transaction under its fate.\<close>

definition exec :: "db_fate \<Rightarrow> (auth_db \<Rightarrow> 'a go \<times> auth_db) \<Rightarrow> auth_db \<Rightarrow> 'a go \<times> auth_db" where
  "exec fate f db =
     (case fate of Works \<Rightarrow> f db | Fails \<Rightarrow> (Inl GoError, db) | Unanswered \<Rightarrow> (Inl GoError, snd (f db)))"

definition storable :: "string \<Rightarrow> bool" where
  "storable s \<longleftrightarrow> char_of (0 :: nat) \<notin> set s"

definition TopicTokenRevoke :: string where
  "TopicTokenRevoke = ''token_revoked''"

subsection \<open>Users\<close>

text \<open>
  The INSERT of \<open>CreateUser\<close> under the primary key and the unique index on \<open>lower(email)\<close>; a violation of
  either is the code 23505, which is read as a taken email.
\<close>

definition CreateUser :: "(string \<Rightarrow> string) \<Rightarrow> db_fate \<Rightarrow> string \<Rightarrow> string \<Rightarrow> string \<Rightarrow> auth_db \<Rightarrow> user go \<times> auth_db" where
  "CreateUser lower fate new_id email hash =
     exec fate (\<lambda>db.
       if \<not> storable email then (Inl GoError, db)
       else if row_at u_id new_id (adb_users db) \<noteq> None \<or> row_at (lower \<circ> u_email) (lower email) (adb_users db) \<noteq> None
       then (Inl ErrEmailTaken, db)
       else (let u = \<lparr>u_id = new_id, u_email = email, u_password_hash = hash\<rparr>
             in (Inr u, db\<lparr>adb_users := adb_users db @ [u]\<rparr>)))"

definition UserByEmail :: "(string \<Rightarrow> string) \<Rightarrow> db_fate \<Rightarrow> string \<Rightarrow> auth_db \<Rightarrow> user go \<times> auth_db" where
  "UserByEmail lower fate email =
     exec fate (\<lambda>db.
       (if \<not> storable email then Inl GoError
        else case row_at (lower \<circ> u_email) (lower email) (adb_users db) of None \<Rightarrow> Inl ErrNotFound | Some u \<Rightarrow> Inr u, db))"

definition UserByID :: "db_fate \<Rightarrow> string \<Rightarrow> auth_db \<Rightarrow> user go \<times> auth_db" where
  "UserByID fate i =
     exec fate (\<lambda>db. (case row_at u_id i (adb_users db) of None \<Rightarrow> Inl ErrNotFound | Some u \<Rightarrow> Inr u, db))"

subsection \<open>Refresh tokens\<close>

definition StoreRefreshToken :: "db_fate \<Rightarrow> string \<Rightarrow> string \<Rightarrow> timestamp \<Rightarrow> auth_db \<Rightarrow> unit go \<times> auth_db" where
  "StoreRefreshToken fate userID hash expiresAt =
     exec fate (\<lambda>db.
       if row_at u_id userID (adb_users db) = None \<or> row_at rf_token_hash hash (adb_refresh db) \<noteq> None then (Inl GoError, db)
       else (Inr (), db\<lparr>adb_refresh := adb_refresh db @
              [\<lparr>rf_user_id = userID, rf_token_hash = hash, rf_expires_at = expiresAt, rf_revoked_at = None\<rparr>]\<rparr>))"

text \<open>The UPDATE of \<open>ConsumeRefreshToken\<close>, with the user ids it returns; the first one is scanned.\<close>

definition redeemable :: "timestamp \<Rightarrow> string \<Rightarrow> refresh_token \<Rightarrow> bool" where
  "redeemable now hash r \<longleftrightarrow> rf_token_hash r = hash \<and> rf_revoked_at r = None \<and> now < rf_expires_at r"

definition ConsumeRefreshToken :: "timestamp \<Rightarrow> db_fate \<Rightarrow> string \<Rightarrow> auth_db \<Rightarrow> string go \<times> auth_db" where
  "ConsumeRefreshToken now fate hash =
     exec fate (\<lambda>db.
       (case map rf_user_id (filter (redeemable now hash) (adb_refresh db)) of [] \<Rightarrow> Inl ErrTokenInvalid | u # _ \<Rightarrow> Inr u,
        db\<lparr>adb_refresh := map (\<lambda>r. if redeemable now hash r then r\<lparr>rf_revoked_at := Some now\<rparr> else r) (adb_refresh db)\<rparr>))"

subsection \<open>Revocations and the outbox\<close>

definition revocation_payload :: "string \<Rightarrow> string \<Rightarrow> timestamp \<Rightarrow> json" where
  "revocation_payload tokenID userID expiresAt =
     JObj [(''expires_at'', JStr (format_rfc3339 expiresAt)), (''token_id'', JStr tokenID), (''user_id'', JStr userID)]"

definition RevokeAccessToken :: "timestamp \<Rightarrow> db_fate \<Rightarrow> string \<Rightarrow> string \<Rightarrow> string \<Rightarrow> timestamp \<Rightarrow> auth_db \<Rightarrow> unit go \<times> auth_db" where
  "RevokeAccessToken now fate event_id tokenID userID expiresAt =
     exec fate (\<lambda>db.
       if \<not> storable tokenID \<or> row_at o_id event_id (adb_outbox db) \<noteq> None then (Inl GoError, db)
       else (Inr (), db\<lparr>
         adb_refresh := map (\<lambda>r. if rf_user_id r = userID \<and> rf_revoked_at r = None then r\<lparr>rf_revoked_at := Some now\<rparr> else r)
                          (adb_refresh db),
         adb_outbox := adb_outbox db @
           [\<lparr>o_id = event_id, o_topic = TopicTokenRevoke, o_key = userID,
             o_payload = revocation_payload tokenID userID expiresAt, o_created_at = now, o_published_at = None\<rparr>]\<rparr>))"

text \<open>
  \<open>ClaimOutbox\<close> is the query of the other relay (its LIMIT is 100); it runs outside any transaction, so
  the locks it takes are gone when it returns.
\<close>

definition ClaimOutbox :: "db_fate \<Rightarrow> string list \<Rightarrow> nat \<Rightarrow> auth_db \<Rightarrow> outbox_event list go \<times> auth_db" where
  "ClaimOutbox fate locked limit =
     exec fate (\<lambda>db. (case claim_batch locked (int limit) (adb_outbox db) of Inl _ \<Rightarrow> Inl GoError | Inr rows \<Rightarrow> Inr rows, db))"

definition MarkPublished :: "timestamp \<Rightarrow> db_fate \<Rightarrow> string list \<Rightarrow> auth_db \<Rightarrow> unit go \<times> auth_db" where
  "MarkPublished now fate ids db =
     (if ids = [] then (Inr (), db)
      else exec fate (\<lambda>db. (Inr (), db\<lparr>adb_outbox := mark_published now ids (adb_outbox db)\<rparr>)) db)"

subsection \<open>Migrations\<close>

text \<open>
  \<open>Migrate\<close>: the state is the versions recorded in schema_migrations and the scripts the database has run.
  For each file the SELECT that looks for its version may fail, and its transaction has a fate; the first
  error ends the call. \<open>create\<close> is the fate of the CREATE TABLE IF NOT EXISTS of the table itself.
\<close>

record schema_state =
  sm_versions :: "string list"
  sm_ran :: "string list"

fun migrate_files :: "(string \<Rightarrow> bool \<times> db_fate) \<Rightarrow> (string \<times> string) list \<Rightarrow> schema_state \<Rightarrow> unit go \<times> schema_state" where
  "migrate_files fate [] st = (Inr (), st)"
| "migrate_files fate ((name, body) # files) st =
     (if \<not> fst (fate name) then (Inl GoError, st)
      else if name \<in> set (sm_versions st) then migrate_files fate files st
      else
        (let st' = \<lparr>sm_versions = sm_versions st @ [name], sm_ran = sm_ran st @ [body]\<rparr> in
         case snd (fate name) of
           Works \<Rightarrow> migrate_files fate files st'
         | Fails \<Rightarrow> (Inl GoError, st)
         | Unanswered \<Rightarrow> (Inl GoError, st')))"

text \<open>\<open>sort.Strings\<close> on the names of the embedded files.\<close>

definition Migrate :: "db_fate \<Rightarrow> (string \<Rightarrow> bool \<times> db_fate) \<Rightarrow> (string \<times> string) list \<Rightarrow> schema_state \<Rightarrow> unit go \<times> schema_state" where
  "Migrate create fate files st =
     (if create = Works then migrate_files fate (sort_key (map code \<circ> fst) files) st else (Inl GoError, st))"

subsection \<open>The store as one machine\<close>

text \<open>
  The statements and transactions that change the tables. Requests run at the same time, and each is a
  sequence of these; a list of steps is thus any interleaving of any requests. A step comes with the
  clock of the database and its fate; its outcome is an error, or the user id that a redeemed refresh
  token returns (empty for the others).
\<close>

datatype store_op = MakeUser string string string | PutRefresh string string timestamp | Redeem string
  | Revocation string string string timestamp | Mark "string list"

type_synonym store_step = "timestamp \<times> db_fate \<times> store_op"

fun store_step :: "(string \<Rightarrow> string) \<Rightarrow> store_step \<Rightarrow> auth_db \<Rightarrow> string go \<times> auth_db" where
  "store_step lower (now, fate, MakeUser i email hash) db =
     (let (r, db') = CreateUser lower fate i email hash db in (map_sum id (\<lambda>_. []) r, db'))"
| "store_step lower (now, fate, PutRefresh u hash expires) db =
     (let (r, db') = StoreRefreshToken fate u hash expires db in (map_sum id (\<lambda>_. []) r, db'))"
| "store_step lower (now, fate, Redeem hash) db = ConsumeRefreshToken now fate hash db"
| "store_step lower (now, fate, Revocation event_id token u expires) db =
     (let (r, db') = RevokeAccessToken now fate event_id token u expires db in (map_sum id (\<lambda>_. []) r, db'))"
| "store_step lower (now, fate, Mark ids) db =
     (let (r, db') = MarkPublished now fate ids db in (map_sum id (\<lambda>_. []) r, db'))"

fun run_store :: "(string \<Rightarrow> string) \<Rightarrow> store_step list \<Rightarrow> auth_db \<Rightarrow> string go list \<times> auth_db" where
  "run_store lower [] db = ([], db)"
| "run_store lower (x # xs) db =
     (let (r, db') = store_step lower x db; (rs, db'') = run_store lower xs db' in (r # rs, db''))"

text \<open>The steps of a run in which the refresh token with this hash was redeemed.\<close>

definition redeemed :: "string \<Rightarrow> store_step \<times> string go \<Rightarrow> bool" where
  "redeemed hash xr = (case xr of ((now, fate, Redeem h), Inr u) \<Rightarrow> h = hash | _ \<Rightarrow> False)"

definition redemptions :: "(string \<Rightarrow> string) \<Rightarrow> string \<Rightarrow> store_step list \<Rightarrow> auth_db \<Rightarrow> nat" where
  "redemptions lower hash xs db = length (filter (redeemed hash) (zip xs (fst (run_store lower xs db))))"

text \<open>What the constraints of the tables and the code keep.\<close>

definition revocation_row :: "outbox_event \<Rightarrow> bool" where
  "revocation_row e \<longleftrightarrow> o_topic e = TopicTokenRevoke \<and> (\<exists>token expires. o_payload e = revocation_payload token (o_key e) expires)"

definition auth_db_ok :: "(string \<Rightarrow> string) \<Rightarrow> auth_db \<Rightarrow> bool" where
  "auth_db_ok lower db \<longleftrightarrow> distinct (map u_id (adb_users db)) \<and> distinct (map (lower \<circ> u_email) (adb_users db))
     \<and> distinct (map rf_token_hash (adb_refresh db)) \<and> distinct (map o_id (adb_outbox db))
     \<and> rf_user_id ` set (adb_refresh db) \<subseteq> u_id ` set (adb_users db)
     \<and> (\<forall>e\<in>set (adb_outbox db). revocation_row e)"

lemma empty_auth_db_ok [simp]: "auth_db_ok lower empty_auth_db"
  by (simp add: auth_db_ok_def empty_auth_db_def)

subsection \<open>One step\<close>

lemma exec_cases:
  obtains (carried_out) "exec fate f db = f db" | (failed) "exec fate f db = (Inl GoError, db)"
  | (unanswered) "exec fate f db = (Inl GoError, snd (f db))"
  by (cases fate) (auto simp: exec_def)

lemma exec_state: "snd (exec fate f db) = db \<or> snd (exec fate f db) = snd (f db)"
  by (cases fate) (auto simp: exec_def)

lemma exec_Inr: "exec fate f db = (Inr x, db') \<Longrightarrow> f db = (Inr x, db')"
  by (cases fate) (auto simp: exec_def)

text \<open>A property of states that the statement itself keeps is kept whatever its fate.\<close>

lemma exec_keeps: "P db \<Longrightarrow> (P db \<Longrightarrow> P (snd (f db))) \<Longrightarrow> P (snd (exec fate f db))"
  using exec_state[of fate f db] by auto

lemma revocation_row_marked [simp]: "revocation_row (e\<lparr>o_published_at := t\<rparr>) = revocation_row e"
  by (simp add: revocation_row_def)

lemma map_if_field:
  "(\<And>r. g (f r) = g r) \<Longrightarrow> map g (map (\<lambda>r. if P r then f r else r) xs) = map g xs"
  by simp

lemma CreateUser_ok: "auth_db_ok lower db \<Longrightarrow> auth_db_ok lower (snd (CreateUser lower fate i email hash db))"
  unfolding CreateUser_def by (rule exec_keeps) (auto simp: auth_db_ok_def Let_def row_at_None_iff comp_def)

lemma StoreRefreshToken_ok: "auth_db_ok lower db \<Longrightarrow> auth_db_ok lower (snd (StoreRefreshToken fate u hash expires db))"
  unfolding StoreRefreshToken_def by (rule exec_keeps) (auto simp: auth_db_ok_def row_at_None_iff)

lemma ConsumeRefreshToken_ok: "auth_db_ok lower db \<Longrightarrow> auth_db_ok lower (snd (ConsumeRefreshToken now fate hash db))"
  unfolding ConsumeRefreshToken_def
  by (rule exec_keeps) (auto simp: auth_db_ok_def comp_def if_distrib[of rf_token_hash] cong: if_cong)

lemma RevokeAccessToken_ok: "auth_db_ok lower db \<Longrightarrow> auth_db_ok lower (snd (RevokeAccessToken now fate e token u expires db))"
  unfolding RevokeAccessToken_def
  by (rule exec_keeps)
    (auto simp: auth_db_ok_def comp_def row_at_None_iff revocation_row_def if_distrib[of rf_token_hash] cong: if_cong)

lemma MarkPublished_ok:
  assumes "auth_db_ok lower db" shows "auth_db_ok lower (snd (MarkPublished now fate ids db))"
proof -
  have "auth_db_ok lower (db\<lparr>adb_outbox := mark_published now ids (adb_outbox db)\<rparr>)"
    using assms by (auto simp: auth_db_ok_def) (auto simp: mark_published_def)
  then show ?thesis
    using assms by (auto simp: MarkPublished_def intro!: exec_keeps[where P = "auth_db_ok lower"])
qed

lemmas store_functions_ok = CreateUser_ok StoreRefreshToken_ok ConsumeRefreshToken_ok RevokeAccessToken_ok MarkPublished_ok

lemma store_step_ok: "auth_db_ok lower db \<Longrightarrow> auth_db_ok lower (snd (store_step lower x db))"
proof -
  assume ok: "auth_db_ok lower db"
  obtain now fate op where x: "x = (now, fate, op)" by (cases x) auto
  show ?thesis
    using store_functions_ok[OF ok] by (cases op) (simp_all add: x Let_def case_prod_beta)
qed

lemma run_store_ok: "auth_db_ok lower db \<Longrightarrow> auth_db_ok lower (snd (run_store lower xs db))"
  by (induction xs arbitrary: db) (simp_all add: Let_def case_prod_beta store_step_ok)

subsection \<open>Spent refresh tokens stay spent\<close>

definition spent :: "string \<Rightarrow> auth_db \<Rightarrow> bool" where
  "spent hash db \<longleftrightarrow> hash \<in> rf_token_hash ` set (adb_refresh db)
     \<and> (\<forall>r\<in>set (adb_refresh db). rf_token_hash r = hash \<longrightarrow> rf_revoked_at r \<noteq> None)"

lemma spent_mapI:
  assumes rows: "adb_refresh db' = map f (adb_refresh db)" and f: "\<And>r. rf_token_hash (f r) = rf_token_hash r"
    and known: "hash \<in> rf_token_hash ` set (adb_refresh db)"
    and revoked: "\<And>r. r \<in> set (adb_refresh db) \<Longrightarrow> rf_token_hash r = hash \<Longrightarrow> rf_revoked_at (f r) \<noteq> None"
  shows "spent hash db'"
proof -
  have "rf_token_hash ` set (adb_refresh db') = rf_token_hash ` set (adb_refresh db)"
    by (simp add: rows image_image f)
  moreover have "rf_revoked_at q \<noteq> None" if q: "q \<in> set (adb_refresh db')" "rf_token_hash q = hash" for q
  proof -
    obtain r where "r \<in> set (adb_refresh db)" "q = f r" using q(1) by (auto simp: rows)
    with revoked[of r] q(2) show ?thesis by (simp add: f)
  qed
  ultimately show ?thesis using known by (simp add: spent_def)
qed

lemma spent_same: "spent hash db \<Longrightarrow> adb_refresh db' = adb_refresh db \<Longrightarrow> spent hash db'"
  by (simp add: spent_def)

lemma refresh_unchanged:
  "adb_refresh (snd (CreateUser lower fate i email h db)) = adb_refresh db"
  "adb_refresh (snd (MarkPublished now fate ids db)) = adb_refresh db"
  by (cases fate; simp add: CreateUser_def MarkPublished_def exec_def Let_def)+

lemma spent_step: "spent hash db \<Longrightarrow> spent hash (snd (store_step lower x db))"
proof -
  assume sp: "spent hash db"
  then have known: "hash \<in> rf_token_hash ` set (adb_refresh db)"
    and revoked: "\<And>r. r \<in> set (adb_refresh db) \<Longrightarrow> rf_token_hash r = hash \<Longrightarrow> rf_revoked_at r \<noteq> None"
    by (auto simp: spent_def)
  obtain now fate op where x: "x = (now, fate, op)" by (cases x) auto
  show ?thesis
  proof (cases op)
    case (MakeUser i email h)
    with sp show ?thesis by (simp add: x case_prod_beta Let_def spent_same refresh_unchanged)
  next
    case (PutRefresh u h expires)
    have "spent hash (snd (StoreRefreshToken fate u h expires db))"
      unfolding StoreRefreshToken_def
      by (rule exec_keeps) (use sp in \<open>auto simp: spent_def row_at_None_iff\<close>)
    with PutRefresh show ?thesis by (simp add: x case_prod_beta Let_def)
  next
    case (Redeem h)
    have "spent hash (snd (ConsumeRefreshToken now fate h db))"
      unfolding ConsumeRefreshToken_def
      by (rule exec_keeps[where P = "spent hash", OF sp]) (rule spent_mapI[where f = "\<lambda>r. if redeemable now h r then r\<lparr>rf_revoked_at := Some now\<rparr> else r", OF _ _ known],
          auto dest: revoked)
    with Redeem show ?thesis by (simp add: x)
  next
    case (Revocation e token u expires)
    have "spent hash (snd (RevokeAccessToken now fate e token u expires db))"
      unfolding RevokeAccessToken_def
    proof (rule exec_keeps[where P = "spent hash", OF sp], goal_cases)
      case 1
      have "spent hash (db\<lparr>adb_refresh := map (\<lambda>r. if rf_user_id r = u \<and> rf_revoked_at r = None
          then r\<lparr>rf_revoked_at := Some now\<rparr> else r) (adb_refresh db), adb_outbox := box\<rparr>)" for box
        by (rule spent_mapI[where f = "\<lambda>r. if rf_user_id r = u \<and> rf_revoked_at r = None
          then r\<lparr>rf_revoked_at := Some now\<rparr> else r", OF _ _ known]) (auto dest: revoked)
      with sp show ?case by simp
    qed
    with Revocation show ?thesis by (simp add: x case_prod_beta Let_def)
  next
    case (Mark ids)
    with sp show ?thesis by (simp add: x case_prod_beta Let_def spent_same refresh_unchanged)
  qed
qed

lemma spent_not_redeemed: "spent hash db \<Longrightarrow> \<not> redeemed hash (x, fst (store_step lower x db))"
proof
  assume sp: "spent hash db" and "redeemed hash (x, fst (store_step lower x db))"
  then obtain now fate u where x: "x = (now, fate, Redeem hash)" and "fst (ConsumeRefreshToken now fate hash db) = Inr u"
    by (auto simp: redeemed_def split: prod.splits store_op.splits sum.splits)
  moreover have "filter (redeemable now hash) (adb_refresh db) = []"
    using sp by (auto simp: filter_empty_conv redeemable_def spent_def)
  ultimately show False by (cases fate) (auto simp: ConsumeRefreshToken_def exec_def)
qed

lemma redeemed_spends:
  assumes ok: "auth_db_ok lower db" and r: "redeemed hash (x, fst (store_step lower x db))"
  shows "spent hash (snd (store_step lower x db))"
proof -
  from r obtain now fate u where x: "x = (now, fate, Redeem hash)" and u: "fst (ConsumeRefreshToken now fate hash db) = Inr u"
    by (auto simp: redeemed_def split: prod.splits store_op.splits sum.splits)
  then have step: "snd (store_step lower x db) = db\<lparr>adb_refresh :=
      map (\<lambda>r. if redeemable now hash r then r\<lparr>rf_revoked_at := Some now\<rparr> else r) (adb_refresh db)\<rparr>"
    and "filter (redeemable now hash) (adb_refresh db) \<noteq> []"
    by (cases fate; auto simp: ConsumeRefreshToken_def exec_def)+
  then obtain row where row: "row \<in> set (adb_refresh db)" "redeemable now hash row" by (auto simp: filter_empty_conv)
  then have "r = row" if "r \<in> set (adb_refresh db)" "rf_token_hash r = hash" for r
    using ok that by (auto simp: auth_db_ok_def redeemable_def intro: distinct_map_inj_on_set)
  note only = this
  have "rf_token_hash row = hash" using row(2) by (simp add: redeemable_def)
  then have known: "hash \<in> rf_token_hash ` set (adb_refresh db)" using row(1) by blast
  have "adb_refresh (snd (store_step lower x db)) = map (\<lambda>r. if redeemable now hash r then r\<lparr>rf_revoked_at := Some now\<rparr> else r) (adb_refresh db)"
    unfolding step by simp
  then show ?thesis
    by (rule spent_mapI[OF _ _ known]) (use row(2) only in auto)
qed

lemma redeemed_simps [simp]:
  "redeemed hash ((now, fate, Redeem h), r) \<longleftrightarrow> h = hash \<and> (\<exists>u. r = Inr u)"
  "\<not> redeemed hash ((now, fate, MakeUser i email h), r)" "\<not> redeemed hash ((now, fate, PutRefresh u h expires), r)"
  "\<not> redeemed hash ((now, fate, Revocation e token u expires), r)" "\<not> redeemed hash ((now, fate, Mark ids), r)"
  by (cases r; auto simp: redeemed_def)+

lemma redemptions_Cons:
  "redemptions lower hash (x # xs) db = (if redeemed hash (x, fst (store_step lower x db)) then 1 else 0)
     + redemptions lower hash xs (snd (store_step lower x db))"
  by (simp add: redemptions_def Let_def case_prod_beta)

lemma spent_redemptions: "spent hash db \<Longrightarrow> redemptions lower hash xs db = 0"
  by (induction xs arbitrary: db)
    (simp add: redemptions_def, simp add: redemptions_Cons spent_not_redeemed spent_step)

lemma revoked_user_spent:
  assumes "RevokeAccessToken now fate e token u expires db = (Inr (), db1)"
    and "r \<in> set (adb_refresh db)" "rf_user_id r = u" "auth_db_ok lower db"
  shows "spent (rf_token_hash r) db1"
proof -
  have db1: "db1 = snd (RevokeAccessToken now Works e token u expires db)"
    and "storable token" "row_at o_id e (adb_outbox db) = None"
    using exec_Inr[OF assms(1)[unfolded RevokeAccessToken_def]]
    by (auto simp: RevokeAccessToken_def exec_def split: if_splits)
  then have refresh: "adb_refresh db1 = map (\<lambda>r. if rf_user_id r = u \<and> rf_revoked_at r = None then r\<lparr>rf_revoked_at := Some now\<rparr> else r) (adb_refresh db)"
    by (simp add: RevokeAccessToken_def exec_def)
  have "q = r" if "q \<in> set (adb_refresh db)" "rf_token_hash q = rf_token_hash r" for q
    using assms(2,4) that by (auto simp: auth_db_ok_def intro: distinct_map_inj_on_set)
  note only = this
  have "rf_token_hash r \<in> rf_token_hash ` set (adb_refresh db)" using assms(2) by blast
  then show ?thesis
    by (intro spent_mapI[OF refresh]) (use assms(3) in \<open>auto dest: only\<close>)
qed

lemma no_live_left: "filter (\<lambda>r. rf_user_id r = u \<and> rf_revoked_at r = None)
    (map (\<lambda>r. if rf_user_id r = u \<and> rf_revoked_at r = None then r\<lparr>rf_revoked_at := Some now\<rparr> else r) rows) = []"
  by (induction rows) auto

text \<open>All or nothing, whatever the fate.\<close>

lemma RevokeAccessToken_outcome:
  assumes "RevokeAccessToken now fate e token u expires db = (x, db1)"
  shows "db1 = db \<and> (\<exists>err. x = Inl err)
    \<or> adb_users db1 = adb_users db \<and> filter (\<lambda>r. rf_user_id r = u \<and> rf_revoked_at r = None) (adb_refresh db1) = []
      \<and> adb_outbox db1 = adb_outbox db @ [\<lparr>o_id = e, o_topic = TopicTokenRevoke, o_key = u,
             o_payload = revocation_payload token u expires, o_created_at = now, o_published_at = None\<rparr>]"
proof -
  let ?refresh = "map (\<lambda>r. if rf_user_id r = u \<and> rf_revoked_at r = None then r\<lparr>rf_revoked_at := Some now\<rparr> else r) (adb_refresh db)"
  let ?box = "adb_outbox db @ [\<lparr>o_id = e, o_topic = TopicTokenRevoke, o_key = u,
    o_payload = revocation_payload token u expires, o_created_at = now, o_published_at = None\<rparr>]"
  define db2 where "db2 = db\<lparr>adb_refresh := ?refresh, adb_outbox := ?box\<rparr>"
  have works: "RevokeAccessToken now Works e token u expires db =
      (if \<not> storable token \<or> row_at o_id e (adb_outbox db) \<noteq> None then (Inl GoError, db) else (Inr (), db2))"
    by (simp add: RevokeAccessToken_def exec_def db2_def)
  have "RevokeAccessToken now fate e token u expires db = exec fate (RevokeAccessToken now Works e token u expires) db"
    by (cases fate) (simp_all add: RevokeAccessToken_def exec_def)
  with assms works have "db1 = db \<and> (\<exists>err. x = Inl err) \<or> db1 = db2"
    by (cases fate) (simp_all add: exec_def split: if_split_asm, blast)
  moreover have "filter (\<lambda>r. rf_user_id r = u \<and> rf_revoked_at r = None) ?refresh = []"
    by (rule no_live_left)
  ultimately show ?thesis by (elim disjE) (simp_all add: db2_def)
qed

text \<open>A refresh token that is stored, not revoked and not expired is redeemed for its user.\<close>

lemma redeem_live:
  assumes "auth_db_ok lower db" "r \<in> set (adb_refresh db)" "rf_revoked_at r = None" "now < rf_expires_at r"
  shows "filter (redeemable now (rf_token_hash r)) (adb_refresh db) = [r]"
proof -
  have inj: "distinct (map rf_token_hash (adb_refresh db))" using assms(1) by (simp add: auth_db_ok_def)
  obtain xs ys where split: "adb_refresh db = xs @ r # ys" using assms(2) by (meson split_list)
  with inj have "rf_token_hash r \<notin> rf_token_hash ` set (xs @ ys)" by auto
  then have "rf_token_hash q \<noteq> rf_token_hash r" if "q \<in> set (xs @ ys)" for q using that by (metis imageI)
  then have "filter (redeemable now (rf_token_hash r)) (xs @ ys) = []" by (auto simp: filter_empty_conv redeemable_def)
  with assms(3,4) show ?thesis by (simp add: split redeemable_def)
qed

subsection \<open>What holds of the store\<close>

text \<open>Two users, one with a refresh token.\<close>

definition sample_auth_db :: auth_db where
  "sample_auth_db = \<lparr>adb_users = [\<lparr>u_id = ''u1'', u_email = ''Ann@x.org'', u_password_hash = ''h''\<rparr>,
       \<lparr>u_id = ''u2'', u_email = ''bob@x.org'', u_password_hash = ''h''\<rparr>],
     adb_refresh = [\<lparr>rf_user_id = ''u1'', rf_token_hash = ''aa'', rf_expires_at = Timestamp 100, rf_revoked_at = None\<rparr>],
     adb_outbox = []\<rparr>"

lemma sample_auth_db_ok [simp]: "auth_db_ok py_lower sample_auth_db"
proof -
  have "py_lower ''Ann@x.org'' \<noteq> py_lower ''bob@x.org''" by code_simp
  then show ?thesis by (simp add: auth_db_ok_def sample_auth_db_def del: py_lower_simps)
qed

text \<open>
  C12: A refresh token works at most once. Whatever requests run at the same time, whatever statements fail
  or lose their answer, and whatever is registered, refreshed, revoked or published meanwhile: of all the
  attempts to redeem a token, at most one gets a user id back.
\<close>

theorem refresh_token_works_once:
  assumes "auth_db_ok lower db" shows "redemptions lower hash xs db \<le> 1"
  using assms
proof (induction xs arbitrary: db)
  case (Cons x xs)
  show ?case
  proof (cases "redeemed hash (x, fst (store_step lower x db))")
    case True
    from redeemed_spends[OF Cons.prems this] spent_redemptions show ?thesis by (simp add: redemptions_Cons True)
  next
    case False
    with Cons.IH[OF store_step_ok[OF Cons.prems, of x]] show ?thesis by (simp add: redemptions_Cons)
  qed
qed (simp add: redemptions_def)

theorem refresh_token_works_once_witness:
  "redemptions py_lower ''aa'' [(Timestamp 1, Works, Redeem ''aa''), (Timestamp 2, Works, Redeem ''aa'')] sample_auth_db \<le> 1
    \<and> redemptions py_lower ''aa'' [(Timestamp 1, Works, Redeem ''aa''), (Timestamp 2, Works, Redeem ''aa'')] sample_auth_db = 1"
  using refresh_token_works_once[OF sample_auth_db_ok, of "''aa''" "[(Timestamp 1, Works, Redeem ''aa''), (Timestamp 2, Works, Redeem ''aa'')]"]
  by (simp add: redemptions_def redeemed_def ConsumeRefreshToken_def exec_def redeemable_def sample_auth_db_def)

text \<open>
  C13: Revoking an access token ends the sessions of its user. Once \<open>RevokeAccessToken\<close> has returned, no
  refresh token that the user had is ever redeemed again.
\<close>

theorem revocation_ends_the_sessions:
  assumes "auth_db_ok lower db" "RevokeAccessToken now fate e token u expires db = (Inr (), db1)"
    and "r \<in> set (adb_refresh db)" "rf_user_id r = u"
  shows "redemptions lower (rf_token_hash r) xs db1 = 0"
  using spent_redemptions[OF revoked_user_spent[OF assms(2-4,1)]] .

theorem revocation_ends_the_sessions_witness:
  "redemptions py_lower ''aa'' [(Timestamp 3, Works, Redeem ''aa'')]
     (snd (RevokeAccessToken (Timestamp 2) Works ''e1'' ''t1'' ''u1'' (Timestamp 9) sample_auth_db)) = 0"
proof -
  let ?r = "\<lparr>rf_user_id = ''u1'', rf_token_hash = ''aa'', rf_expires_at = Timestamp 100, rf_revoked_at = None\<rparr>"
  have "storable ''t1''" by code_simp
  then have run: "RevokeAccessToken (Timestamp 2) Works ''e1'' ''t1'' ''u1'' (Timestamp 9) sample_auth_db
      = (Inr (), snd (RevokeAccessToken (Timestamp 2) Works ''e1'' ''t1'' ''u1'' (Timestamp 9) sample_auth_db))"
    by (simp add: RevokeAccessToken_def exec_def sample_auth_db_def)
  have "?r \<in> set (adb_refresh sample_auth_db)" by (simp add: sample_auth_db_def)
  from revocation_ends_the_sessions[OF sample_auth_db_ok run this] show ?thesis by simp
qed

text \<open>
  C19: A refresh that is under way escapes it. The request redeems the old token, then the revocation is
  committed, then the request stores its new token: that one is not revoked and is redeemed for the user.
\<close>

theorem refresh_under_way_survives:
  assumes "auth_db_ok lower db" "r \<in> set (adb_refresh db)" "rf_revoked_at r = None" "now < rf_expires_at r"
    and "storable token" "e \<notin> o_id ` set (adb_outbox db)"
    and "new \<notin> rf_token_hash ` set (adb_refresh db)" "later < expires"
  shows "fst (run_store lower
     [(now, Works, Redeem (rf_token_hash r)), (now', Works, Revocation e token (rf_user_id r) t),
      (now'', Works, PutRefresh (rf_user_id r) new expires), (later, Works, Redeem new)] db)
    = [Inr (rf_user_id r), Inr [], Inr [], Inr (rf_user_id r)]"
proof -
  let ?f = "\<lambda>q. if redeemable now (rf_token_hash r) q then q\<lparr>rf_revoked_at := Some now\<rparr> else q"
  let ?g = "\<lambda>q. if rf_user_id q = rf_user_id r \<and> rf_revoked_at q = None then q\<lparr>rf_revoked_at := Some now'\<rparr> else q"
  define old where "old = map ?g (map ?f (adb_refresh db))"
  define row where "row = \<lparr>rf_user_id = rf_user_id r, rf_token_hash = new, rf_expires_at = expires, rf_revoked_at = None\<rparr>"
  define db1 where "db1 = snd (store_step lower (now, Works, Redeem (rf_token_hash r)) db)"
  define db2 where "db2 = snd (store_step lower (now', Works, Revocation e token (rf_user_id r) t) db1)"
  define db3 where "db3 = snd (store_step lower (now'', Works, PutRefresh (rf_user_id r) new expires) db2)"
  have first: "store_step lower (now, Works, Redeem (rf_token_hash r)) db = (Inr (rf_user_id r), db1)"
    unfolding db1_def using redeem_live[OF assms(1-4)] by (simp add: ConsumeRefreshToken_def exec_def)
  have db1: "adb_refresh db1 = map ?f (adb_refresh db)" "adb_users db1 = adb_users db" "adb_outbox db1 = adb_outbox db"
    by (simp_all add: db1_def ConsumeRefreshToken_def exec_def)
  have second: "store_step lower (now', Works, Revocation e token (rf_user_id r) t) db1 = (Inr [], db2)"
    and db2: "adb_refresh db2 = old" "adb_users db2 = adb_users db"
    using assms(5,6) db1 by (auto simp: db2_def old_def RevokeAccessToken_def exec_def row_at_None_iff)
  have unknown: "new \<notin> rf_token_hash ` set old" using assms(7) by (auto simp: old_def)
  moreover have "rf_user_id r \<in> u_id ` set (adb_users db)" using assms(1,2) by (auto simp: auth_db_ok_def)
  ultimately have third: "store_step lower (now'', Works, PutRefresh (rf_user_id r) new expires) db2 = (Inr [], db3)"
    and db3: "adb_refresh db3 = old @ [row]"
    by (auto simp: db3_def db2 row_def StoreRefreshToken_def exec_def row_at_None_iff)
  have "filter (redeemable later new) old = []" using unknown by (auto simp: filter_empty_conv redeemable_def)
  then have "fst (store_step lower (later, Works, Redeem new) db3) = Inr (rf_user_id r)"
    using assms(8) by (simp add: ConsumeRefreshToken_def exec_def db3 redeemable_def row_def)
  then show ?thesis
    by (simp only: run_store.simps first second third Let_def prod.case prod.sel) (simp add: case_prod_beta)
qed

theorem refresh_under_way_survives_witness:
  "fst (run_store py_lower
     [(Timestamp 1, Works, Redeem ''aa''), (Timestamp 2, Works, Revocation ''e1'' ''t1'' ''u1'' (Timestamp 9)),
      (Timestamp 3, Works, PutRefresh ''u1'' ''bb'' (Timestamp 90)), (Timestamp 4, Works, Redeem ''bb'')] sample_auth_db)
    = [Inr ''u1'', Inr [], Inr [], Inr ''u1'']"
proof -
  let ?r = "\<lparr>rf_user_id = ''u1'', rf_token_hash = ''aa'', rf_expires_at = Timestamp 100, rf_revoked_at = None\<rparr>"
  have "?r \<in> set (adb_refresh sample_auth_db)" "storable ''t1''" by (simp add: sample_auth_db_def) code_simp
  from refresh_under_way_survives[OF sample_auth_db_ok this(1) _ _ this(2), of "Timestamp 1" "''e1''" "''bb''" "Timestamp 4" "Timestamp 90"
      "Timestamp 2" "Timestamp 9" "Timestamp 3"]
  show ?thesis by (simp add: sample_auth_db_def)
qed

subsection \<open>Migrations run once\<close>

lemma migrate_files_new:
  assumes "set (map fst rest) \<inter> set (sm_versions st) = {}" "distinct (map fst rest)"
  shows "\<exists>n. sm_versions (snd (migrate_files fate rest st)) = sm_versions st @ map fst (take n rest)
    \<and> sm_ran (snd (migrate_files fate rest st)) = sm_ran st @ map snd (take n rest)
    \<and> (fst (migrate_files fate rest st) = Inr () \<longrightarrow> length rest \<le> n)"
  using assms
proof (induction rest arbitrary: st)
  case (Cons f rest)
  obtain name body where f: "f = (name, body)" by (cases f)
  let ?st = "\<lparr>sm_versions = sm_versions st @ [name], sm_ran = sm_ran st @ [body]\<rparr>"
  have new: "name \<notin> set (sm_versions st)" using Cons.prems by (auto simp: f)
  have dis: "set (map fst rest) \<inter> set (sm_versions ?st) = {}" "distinct (map fst rest)" using Cons.prems by (auto simp: f)
  consider (works) "fst (fate name)" "snd (fate name) = Works" | (unanswered) "fst (fate name)" "snd (fate name) = Unanswered"
    | (failed) "migrate_files fate (f # rest) st = (Inl GoError, st)"
    using new by (cases "fst (fate name)"; cases "snd (fate name)") (auto simp: f)
  then show ?case
  proof cases
    case works
    obtain n where "sm_versions (snd (migrate_files fate rest ?st)) = sm_versions ?st @ map fst (take n rest)"
      "sm_ran (snd (migrate_files fate rest ?st)) = sm_ran ?st @ map snd (take n rest)"
      "fst (migrate_files fate rest ?st) = Inr () \<longrightarrow> length rest \<le> n"
      using Cons.IH[OF dis] by blast
    with works new show ?thesis by (intro exI[of _ "Suc n"]) (simp add: f)
  next
    case unanswered
    with new show ?thesis by (intro exI[of _ 1]) (simp add: f)
  qed (rule exI[of _ 0], simp)
qed simp

lemma migrate_files_old:
  "fst ` set old \<subseteq> set (sm_versions st) \<Longrightarrow> migrate_files fate (old @ rest) st = migrate_files fate rest st
    \<or> migrate_files fate (old @ rest) st = (Inl GoError, st)"
  by (induction old) auto

text \<open>Up to \<open>n\<close>, the files have been applied, in order, and no others.\<close>

definition files_applied :: "(string \<times> string) list \<Rightarrow> nat \<Rightarrow> schema_state" where
  "files_applied files n = \<lparr>sm_versions = map fst (take n files), sm_ran = map snd (take n files)\<rparr>"

lemma migrate_files_applied:
  assumes "distinct (map fst files)"
  shows "\<exists>m. snd (migrate_files fate files (files_applied files n)) = files_applied files m
    \<and> (fst (migrate_files fate files (files_applied files n)) = Inr () \<longrightarrow> length files \<le> m)"
proof -
  let ?old = "take n files" and ?rest = "drop n files"
  have "distinct (map fst ?old @ map fst ?rest)" using assms by (simp flip: map_append)
  then have dis: "set (map fst ?rest) \<inter> set (sm_versions (files_applied files n)) = {}" "distinct (map fst ?rest)"
    by (auto simp: files_applied_def)
  obtain k where k: "sm_versions (snd (migrate_files fate ?rest (files_applied files n))) = map fst ?old @ map fst (take k ?rest)"
    "sm_ran (snd (migrate_files fate ?rest (files_applied files n))) = map snd ?old @ map snd (take k ?rest)"
    "fst (migrate_files fate ?rest (files_applied files n)) = Inr () \<longrightarrow> length ?rest \<le> k"
    using migrate_files_new[OF dis, of fate] by (auto simp: files_applied_def)
  have "take (n + k) files = ?old @ take k ?rest" by (rule take_add)
  with k(1,2) have rest: "snd (migrate_files fate ?rest (files_applied files n)) = files_applied files (n + k)"
    by (simp add: files_applied_def)
  from migrate_files_old[of ?old "files_applied files n" fate ?rest] have
    "migrate_files fate files (files_applied files n) = migrate_files fate ?rest (files_applied files n)
      \<or> migrate_files fate files (files_applied files n) = (Inl GoError, files_applied files n)"
    by (auto simp: files_applied_def)
  then show ?thesis
  proof
    assume "migrate_files fate files (files_applied files n) = migrate_files fate ?rest (files_applied files n)"
    with rest k(3) show ?thesis by (intro exI[of _ "n + k"]) auto
  qed auto
qed

definition by_name :: "(string \<times> string) list \<Rightarrow> (string \<times> string) list" where
  "by_name files = sort_key (map code \<circ> fst) files"

lemma migrate_runs:
  assumes "distinct (map fst files)"
  shows "\<exists>n. fold (\<lambda>(create, fate) st. snd (Migrate create fate files st)) runs (files_applied (by_name files) 0) = files_applied (by_name files) n"
proof (induction runs rule: rev_induct)
  case (snoc r runs)
  obtain create fate where r: "r = (create, fate)" by fastforce
  have "distinct (map fst (by_name files))" using assms by (simp add: by_name_def distinct_map)
  from migrate_files_applied[OF this] snoc show ?case
    by (fastforce simp: r Migrate_def by_name_def)
qed auto

text \<open>
  The schema scripts run once each, in the order of their names. However often the service starts, and
  wherever its migrations are interrupted, what has run is an initial part of the sorted scripts; a call
  that succeeds has completed them.
\<close>

lemma migrations_run_once:
  assumes "distinct (map fst files)"
    and "st = fold (\<lambda>(create, fate) st. snd (Migrate create fate files st)) runs \<lparr>sm_versions = [], sm_ran = []\<rparr>"
  shows "prefix (sm_ran st) (map snd (by_name files))
    \<and> (fst (Migrate create fate files st) = Inr () \<longrightarrow> sm_ran (snd (Migrate create fate files st)) = map snd (by_name files))"
proof -
  have "\<lparr>sm_versions = [], sm_ran = []\<rparr> = files_applied (by_name files) 0" by (simp add: files_applied_def)
  with migrate_runs[OF assms(1), of runs] assms(2) obtain n where st: "st = files_applied (by_name files) n" by auto
  have dis: "distinct (map fst (by_name files))" using assms(1) by (simp add: by_name_def distinct_map)
  from migrate_files_applied[OF dis, of fate n] obtain m where m:
    "snd (migrate_files fate (by_name files) st) = files_applied (by_name files) m"
    "fst (migrate_files fate (by_name files) st) = Inr () \<longrightarrow> length (by_name files) \<le> m"
    by (auto simp: st)
  then have "fst (Migrate create fate files st) = Inr () \<longrightarrow> sm_ran (snd (Migrate create fate files st)) = map snd (by_name files)"
    by (auto simp: Migrate_def files_applied_def by_name_def[symmetric])
  moreover have "prefix (sm_ran st) (map snd (by_name files))" by (simp add: st files_applied_def take_is_prefix flip: take_map)
  ultimately show ?thesis by blast
qed

end
