(* ===== verification/AuthApi.thy ===== *)
theory AuthApi
  imports AuthStore
begin

section \<open>The HTTP API of the auth service (services/auth/internal/api/api.go)\<close>

text \<open>
  A handler gets the circumstances of its call (\<open>call\<close>: the readings of the clocks, the fates of its
  statements, what the random sources and the database make up), the request and the tables; it returns
  the reply (None if it panics: the server closes the connection) and the tables. The body of a request
  is the first JSON value in it, None if there is none or it is larger than 1 MiB. \<open>lower\<close> of Postgres
  and \<open>uuid.Parse\<close> are parameters.
\<close>

record auth_lib =
  lib_crypto :: crypto
  pg_lower :: "string \<Rightarrow> string"
  uuid_parse :: "string \<Rightarrow> string option"

record server =
  sv_issuer :: issuer
  sv_refresh_ttl :: duration
  sv_dummy_hash :: string

record call =
  ca_now :: timestamp
  ca_later :: timestamp
  ca_db_now :: timestamp
  ca_fate :: "nat \<Rightarrow> db_fate"
  ca_row_id :: string
  ca_token_id :: string
  ca_random :: "string go"

type_synonym reply = "json response option"

definition New :: "crypto \<Rightarrow> issuer \<Rightarrow> duration \<Rightarrow> string \<Rightarrow> server" where
  "New C issuer refreshTTL dummyHash =
     \<lparr>sv_issuer = issuer, sv_refresh_ttl = (if sint refreshTTL \<le> 0 then DefaultRefreshTTL else refreshTTL),
      sv_dummy_hash = dummyHash\<rparr>"

subsection \<open>Helpers\<close>

definition writeJSON :: "nat \<Rightarrow> (string \<times> json) list \<Rightarrow> reply" where
  "writeJSON status body = Some (Response status (JObj body))"

definition writeError :: "nat \<Rightarrow> string \<Rightarrow> reply" where
  "writeError status msg = writeJSON status [(''error'', JStr msg)]"

text \<open>\<open>s.fail\<close>; a panic on the way there ends the handler.\<close>

definition fail :: "go_error \<Rightarrow> reply" where
  "fail e = (if e = GoPanic then None else writeError 500 ''internal error'')"

text \<open>
  \<open>decode\<close> into a struct of string fields: a member goes to the field of its name (exactly, else up to
  case), null leaves the field as it is, any other value and any other member is an error.
\<close>

definition field_for :: "string list \<Rightarrow> string \<Rightarrow> string option" where
  "field_for names key =
     (if key \<in> set names then Some key else find (\<lambda>n. fold_name n = fold_name key) names)"

fun decode_members :: "string list \<Rightarrow> (string \<times> json) list \<Rightarrow> (string \<Rightarrow> string) \<Rightarrow> (string \<Rightarrow> string) option" where
  "decode_members names [] dst = Some dst"
| "decode_members names ((key, v) # kvs) dst =
     (case (field_for names key, v) of
        (Some n, JStr s) \<Rightarrow> decode_members names kvs (dst(n := s))
      | (Some n, JNull) \<Rightarrow> decode_members names kvs dst
      | _ \<Rightarrow> None)"

definition decode :: "string list \<Rightarrow> json option \<Rightarrow> (string \<Rightarrow> string) option" where
  "decode names body =
     (case body of
        Some (JObj kvs) \<Rightarrow> decode_members names kvs (\<lambda>_. [])
      | Some JNull \<Rightarrow> Some (\<lambda>_. [])
      | _ \<Rightarrow> None)"

definition bearerToken :: "string \<Rightarrow> string" where
  "bearerToken header =
     (if length header < 7 \<or> map ascii_lower (take 7 header) \<noteq> ''bearer '' then [] else TrimSpace (drop 7 header))"

subsection \<open>The handlers\<close>

definition auth_health :: "call \<Rightarrow> auth_db \<Rightarrow> reply \<times> auth_db" where
  "auth_health c db =
     ((if ca_fate c 0 \<noteq> Works then writeJSON 503 [(''status'', JStr ''database unreachable'')]
       else writeJSON 200 [(''status'', JStr ''ok'')]), db)"

definition jwk_json :: "jwk \<Rightarrow> json" where
  "jwk_json k = JObj [(''kty'', JStr (Kty k)), (''use'', JStr (Use k)), (''alg'', JStr (Alg k)), (''kid'', JStr (Kid k)),
     (''n'', JStr (jwk_N k)), (''e'', JStr (jwk_E k))]"

definition jwks :: "server \<Rightarrow> auth_db \<Rightarrow> reply \<times> auth_db" where
  "jwks S db = (writeJSON 200 [(''keys'', JArr (map jwk_json (PublicJWKS (sv_issuer S))))], db)"

definition register :: "auth_lib \<Rightarrow> call \<Rightarrow> json option \<Rightarrow> auth_db \<Rightarrow> reply \<times> auth_db" where
  "register L c body db =
     (case decode [''email'', ''password''] body of
        None \<Rightarrow> (writeError 400 ''invalid json'', db)
      | Some b \<Rightarrow>
          (let email = TrimSpace (b ''email'') in
           if email = [] \<or> CHR ''@'' \<notin> set email then (writeError 400 ''a valid email is required'', db)
           else if length (b ''password'') < 12 then (writeError 400 ''password must be at least 12 characters'', db)
           else
             (case HashPassword (lib_crypto L) (ca_random c) (b ''password'') of
                Inl e \<Rightarrow> (fail e, db)
              | Inr hash \<Rightarrow>
                  (case CreateUser (pg_lower L) (ca_fate c 0) (ca_row_id c) email hash db of
                     (Inl ErrEmailTaken, db') \<Rightarrow> (writeError 409 ''email is already registered'', db')
                   | (Inl e, db') \<Rightarrow> (fail e, db')
                   | (Inr user, db') \<Rightarrow>
                       (writeJSON 201 [(''email'', JStr (u_email user)), (''id'', JStr (u_id user))], db')))))"

text \<open>\<open>n\<close> statements of the request have been made before.\<close>

definition issueTokens :: "auth_lib \<Rightarrow> server \<Rightarrow> call \<Rightarrow> nat \<Rightarrow> string \<Rightarrow> string \<Rightarrow> auth_db \<Rightarrow> reply \<times> auth_db" where
  "issueTokens L S c n userID email db =
     (case IssueAccess (lib_crypto L) (sv_issuer S) (ca_token_id c) userID email (ca_now c) of
        Inl e \<Rightarrow> (fail e, db)
      | Inr (access, _) \<Rightarrow>
          (case NewRefreshToken (lib_crypto L) (ca_random c) of
             Inl e \<Rightarrow> (fail e, db)
           | Inr (refresh, hash) \<Rightarrow>
               (let expires = add_duration (ca_later c) (sv_refresh_ttl S) in
                case StoreRefreshToken (ca_fate c n) userID hash expires db of
                  (Inl e, db') \<Rightarrow> (fail e, db')
                | (Inr _, db') \<Rightarrow>
                    (writeJSON 200 [(''access_token'', JStr access), (''expires_in'', JInt (sint DefaultAccessTTL div 1000000000)),
                       (''refresh_token'', JStr refresh), (''token_type'', JStr ''Bearer'')], db'))))"

definition login :: "auth_lib \<Rightarrow> server \<Rightarrow> call \<Rightarrow> json option \<Rightarrow> auth_db \<Rightarrow> reply \<times> auth_db" where
  "login L S c body db =
     (case decode [''email'', ''password''] body of
        None \<Rightarrow> (writeError 400 ''invalid json'', db)
      | Some b \<Rightarrow>
          (case UserByEmail (pg_lower L) (ca_fate c 0) (b ''email'') db of
             (Inl ErrNotFound, db') \<Rightarrow>
               (if VerifyPassword (lib_crypto L) (b ''password'') (sv_dummy_hash S) = Inl GoPanic then None
                else writeError 401 ''invalid credentials'', db')
           | (Inl e, db') \<Rightarrow> (fail e, db')
           | (Inr user, db') \<Rightarrow>
               (case VerifyPassword (lib_crypto L) (b ''password'') (u_password_hash user) of
                  Inl e \<Rightarrow> (if e = GoPanic then None else writeError 401 ''invalid credentials'', db')
                | Inr _ \<Rightarrow> issueTokens L S c 1 (u_id user) (u_email user) db')))"

definition refresh :: "auth_lib \<Rightarrow> server \<Rightarrow> call \<Rightarrow> json option \<Rightarrow> auth_db \<Rightarrow> reply \<times> auth_db" where
  "refresh L S c body db =
     (case decode [''refresh_token''] body of
        None \<Rightarrow> (writeError 400 ''invalid json'', db)
      | Some b \<Rightarrow>
          (case ConsumeRefreshToken (ca_db_now c) (ca_fate c 0) (HashRefreshToken (lib_crypto L) (b ''refresh_token'')) db of
             (Inl ErrTokenInvalid, db') \<Rightarrow> (writeError 401 ''refresh token is not valid'', db')
           | (Inl e, db') \<Rightarrow> (fail e, db')
           | (Inr userID, db') \<Rightarrow>
               (case UserByID (ca_fate c 1) userID db' of
                  (Inl e, db'') \<Rightarrow> (fail e, db'')
                | (Inr user, db'') \<Rightarrow> issueTokens L S c 2 (u_id user) (u_email user) db'')))"

definition revoke :: "auth_lib \<Rightarrow> server \<Rightarrow> call \<Rightarrow> string \<Rightarrow> auth_db \<Rightarrow> reply \<times> auth_db" where
  "revoke L S c authorization db =
     (let token = bearerToken authorization in
      if token = [] then (writeError 401 ''bearer token required'', db)
      else
        (case Verify (lib_crypto L) (sv_issuer S) (ca_now c) token of
           Inl e \<Rightarrow> (if e = GoPanic then None else writeError 401 ''token is not valid'', db)
         | Inr cl \<Rightarrow>
             (case uuid_parse L (Subject cl) of
                None \<Rightarrow> (writeError 401 ''token subject is not a uuid'', db)
              | Some userID \<Rightarrow>
                  (let expires = (case ExpiresAt cl of Some n \<Rightarrow> numeric_time n
                                  | None \<Rightarrow> add_duration (ca_later c) DefaultAccessTTL) in
                   case RevokeAccessToken (ca_db_now c) (ca_fate c 0) (ca_row_id c) (ID cl) userID expires db of
                     (Inl e, db') \<Rightarrow> (fail e, db')
                   | (Inr _, db') \<Rightarrow> (writeJSON 202 [(''status'', JStr ''revocation queued'')], db')))))"

subsection \<open>Routes\<close>

record api_request =
  ar_method :: string
  ar_path :: string
  ar_authorization :: string
  ar_body :: "json option"

definition handlers :: "auth_lib \<Rightarrow> server \<Rightarrow> call \<Rightarrow> api_request \<Rightarrow> ((string \<times> string) \<times> (auth_db \<Rightarrow> reply \<times> auth_db)) list" where
  "handlers L S c q =
     [((''GET'', ''/healthz''), auth_health c),
      ((''GET'', ''/.well-known/jwks.json''), jwks S),
      ((''POST'', ''/register''), register L c (ar_body q)),
      ((''POST'', ''/login''), login L S c (ar_body q)),
      ((''POST'', ''/refresh''), refresh L S c (ar_body q)),
      ((''POST'', ''/revoke''), revoke L S c (ar_authorization q))]"

text \<open>
  \<open>Routes\<close> with the ServeMux: a GET pattern also takes HEAD; a known path with another method is a 405, an
  unknown path a 404, both with a text body (JNull here).
\<close>

definition Routes :: "auth_lib \<Rightarrow> server \<Rightarrow> call \<Rightarrow> api_request \<Rightarrow> auth_db \<Rightarrow> reply \<times> auth_db" where
  "Routes L S c q db =
     (let m = (if ar_method q = ''HEAD'' then ''GET'' else ar_method q);
          known = ar_path q \<in> (snd \<circ> fst) ` set (handlers L S c q)
      in case map_of (handlers L S c q) (m, ar_path q) of
           Some handler \<Rightarrow> handler db
         | None \<Rightarrow> (Some (Response (if known then 405 else 404) JNull), db))"

subsection \<open>A request is a sequence of steps of the store\<close>

definition steps_to :: "(string \<Rightarrow> string) \<Rightarrow> auth_db \<Rightarrow> auth_db \<Rightarrow> bool" where
  "steps_to lower db db' \<longleftrightarrow> (\<exists>xs. db' = snd (run_store lower xs db))"

lemma run_store_append: "snd (run_store lower (xs @ ys) db) = snd (run_store lower ys (snd (run_store lower xs db)))"
  by (induction xs arbitrary: db) (simp_all add: Let_def case_prod_beta)

lemma steps_refl [simp]: "steps_to lower db db"
  unfolding steps_to_def by (rule exI[of _ "[]"]) simp

lemma steps_trans: "steps_to lower db db1 \<Longrightarrow> steps_to lower db1 db2 \<Longrightarrow> steps_to lower db db2"
  unfolding steps_to_def by (metis run_store_append)

lemma step_one: "db' = snd (store_step lower x db) \<Longrightarrow> steps_to lower db db'"
  unfolding steps_to_def by (rule exI[of _ "[x]"]) (simp add: Let_def case_prod_beta)

lemma steps_functions:
  "CreateUser lower fate i email hash db = (r1, db') \<Longrightarrow> steps_to lower db db'"
  "StoreRefreshToken fate u hash expires db = (r2, db') \<Longrightarrow> steps_to lower db db'"
  "ConsumeRefreshToken now fate hash db = (r3, db') \<Longrightarrow> steps_to lower db db'"
  "RevokeAccessToken now fate e token u expires db = (r2, db') \<Longrightarrow> steps_to lower db db'"
  by (auto intro: step_one[where x = "(Timestamp 0, fate, MakeUser i email hash)"]
      step_one[where x = "(Timestamp 0, fate, PutRefresh u hash expires)"]
      step_one[where x = "(now, fate, Redeem hash)"] step_one[where x = "(now, fate, Revocation e token u expires)"]
      simp: Let_def case_prod_beta)

lemma reads_keep: "snd (UserByEmail lower fate email db) = db" "snd (UserByID fate i db) = db"
  by (cases fate; simp add: UserByEmail_def UserByID_def exec_def)+

lemma UserBy_db: "UserByEmail lower fate email db = (r, db') \<Longrightarrow> db' = db" "UserByID fate i db = (r, db') \<Longrightarrow> db' = db"
  using reads_keep by (metis snd_conv)+

lemma issueTokens_steps: "steps_to (pg_lower L) db (snd (issueTokens L S c n u email db))"
  by (auto simp: issueTokens_def Let_def split: sum.splits prod.splits dest: steps_functions(2))

lemma register_steps: "steps_to (pg_lower L) db (snd (register L c body db))"
  by (auto simp: register_def Let_def split: option.splits sum.splits prod.splits go_error.splits dest: steps_functions(1))

lemma login_steps: "steps_to (pg_lower L) db (snd (login L S c body db))"
  using issueTokens_steps
  by (auto simp: login_def Let_def split: option.splits sum.splits prod.splits go_error.splits dest!: UserBy_db)

lemma refresh_steps: "steps_to (pg_lower L) db (snd (refresh L S c body db))"
proof (cases "decode [''refresh_token''] body")
  case (Some b)
  obtain r db1 where con: "ConsumeRefreshToken (ca_db_now c) (ca_fate c 0) (HashRefreshToken (lib_crypto L) (b ''refresh_token'')) db = (r, db1)"
    by fastforce
  then have one: "steps_to (pg_lower L) db db1" by (rule steps_functions)
  then have "steps_to (pg_lower L) db (snd (issueTokens L S c n u email db1))" for n u email
    by (rule steps_trans) (rule issueTokens_steps)
  with one show ?thesis
    by (auto simp: refresh_def Some con split: sum.splits prod.splits go_error.splits dest!: UserBy_db)
qed (simp add: refresh_def)

lemma revoke_steps: "steps_to (pg_lower L) db (snd (revoke L S c authorization db))"
  by (auto simp: revoke_def Let_def split: option.splits sum.splits prod.splits dest: steps_functions(4))

lemma Routes_steps: "steps_to (pg_lower L) db (snd (Routes L S c q db))"
  using register_steps login_steps refresh_steps revoke_steps
  by (auto simp: Routes_def handlers_def Let_def auth_health_def jwks_def)

lemma steps_to_ok: "steps_to lower db db' \<Longrightarrow> auth_db_ok lower db \<Longrightarrow> auth_db_ok lower db'"
  by (auto simp: steps_to_def run_store_ok)

subsection \<open>What the handlers do when all goes well\<close>

text \<open>The canonical text of a UUID, which \<open>uuid.Parse\<close> documents to read back.\<close>

definition is_uuid :: "string \<Rightarrow> bool" where
  "is_uuid s \<longleftrightarrow> length s = 36 \<and> list_all (\<lambda>c. is_digit c \<or> 97 \<le> code c \<and> code c \<le> 102 \<or> c = CHR ''-'') s"

definition uuid_law :: "auth_lib \<Rightarrow> bool" where
  "uuid_law L \<longleftrightarrow> (\<forall>u. is_uuid u \<longrightarrow> uuid_parse L u = Some u)"

lemma is_uuid_ascii: "is_uuid u \<Longrightarrow> is_ascii u \<and> storable u \<and> u \<noteq> [] \<and> length u \<le> 64"
proof -
  assume u: "is_uuid u"
  have *: "32 < code c \<and> code c < 128" if "c \<in> set u" for c
    using u that by (auto simp: is_uuid_def list_all_iff is_digit_def code_def)
  have "length u = 36" using u by (simp add: is_uuid_def)
  moreover have "\<not> 32 < code (char_of (0 :: nat))" by simp
  ultimately have "char_of (0 :: nat) \<notin> set u" using *[of "char_of (0 :: nat)"] by blast
  with * \<open>length u = 36\<close> show ?thesis by (auto simp: is_ascii_def storable_def list_all_iff)
qed

lemma register_created:
  assumes "register L c body db = (Some (Response 201 r), db')"
  obtains b hash where "decode [''email'', ''password''] body = Some b" "TrimSpace (b ''email'') \<noteq> []"
    "12 \<le> length (b ''password'')" "HashPassword (lib_crypto L) (ca_random c) (b ''password'') = Inr hash"
    "row_at (pg_lower L \<circ> u_email) (pg_lower L (TrimSpace (b ''email''))) (adb_users db) = None"
    "db' = db\<lparr>adb_users := adb_users db @ [\<lparr>u_id = ca_row_id c, u_email = TrimSpace (b ''email''), u_password_hash = hash\<rparr>]\<rparr>"
proof -
  obtain b where b: "decode [''email'', ''password''] body = Some b"
    using assms by (auto simp: register_def writeError_def writeJSON_def split: option.splits)
  note reg = assms[unfolded register_def b option.case Let_def]
  obtain hash where hash: "TrimSpace (b ''email'') \<noteq> []" "12 \<le> length (b ''password'')"
    "HashPassword (lib_crypto L) (ca_random c) (b ''password'') = Inr hash"
    using reg by (auto simp: writeError_def writeJSON_def fail_def split: if_splits sum.splits)
  obtain x db1 where cu: "CreateUser (pg_lower L) (ca_fate c 0) (ca_row_id c) (TrimSpace (b ''email'')) hash db = (x, db1)" by fastforce
  with reg hash have "db1 = db'" "\<exists>u. x = Inr u"
    by (auto simp: writeError_def writeJSON_def fail_def split: if_splits sum.splits go_error.splits)
  with cu have "row_at (pg_lower L \<circ> u_email) (pg_lower L (TrimSpace (b ''email''))) (adb_users db) = None
      \<and> db' = db\<lparr>adb_users := adb_users db @ [\<lparr>u_id = ca_row_id c, u_email = TrimSpace (b ''email''), u_password_hash = hash\<rparr>]\<rparr>"
    by (auto simp: CreateUser_def Let_def dest!: exec_Inr split: if_splits)
  with that b hash show ?thesis by blast
qed

lemma issueTokens_reply:
  assumes "IssueAccess (lib_crypto L) (sv_issuer S) (ca_token_id c) userID email (ca_now c) = Inr (access, i)"
    and "ca_random c = Inr raw" "ca_fate c n = Works" "userID \<in> u_id ` set (adb_users db)"
    and "HashRefreshToken (lib_crypto L) (raw_encode url_alphabet raw) \<notin> rf_token_hash ` set (adb_refresh db)"
  shows "issueTokens L S c n userID email db =
    (writeJSON 200 [(''access_token'', JStr access), (''expires_in'', JInt 900),
       (''refresh_token'', JStr (raw_encode url_alphabet raw)), (''token_type'', JStr ''Bearer'')],
     db\<lparr>adb_refresh := adb_refresh db @ [\<lparr>rf_user_id = userID,
       rf_token_hash = HashRefreshToken (lib_crypto L) (raw_encode url_alphabet raw),
       rf_expires_at = add_duration (ca_later c) (sv_refresh_ttl S), rf_revoked_at = None\<rparr>]\<rparr>)"
proof -
  have "sint DefaultAccessTTL div 1000000000 = 900"
    using sint_seconds[of 900] by (simp add: DefaultAccessTTL_def)
  moreover obtain row where "row_at u_id userID (adb_users db) = Some row"
    using assms(4) by (cases "row_at u_id userID (adb_users db)") (auto simp: row_at_None_iff)
  moreover have "row_at rf_token_hash (HashRefreshToken (lib_crypto L) (raw_encode url_alphabet raw)) (adb_refresh db) = None"
    using assms(5) by (auto simp: row_at_None_iff)
  ultimately show ?thesis
    by (simp add: issueTokens_def assms(1-3) NewRefreshToken_def Let_def StoreRefreshToken_def exec_def)
qed

text \<open>An access token that \<open>IssueAccess\<close> has made verifies from the second it was issued in until it expires.\<close>

definition issuable :: "issuer \<Rightarrow> string \<Rightarrow> string \<Rightarrow> string \<Rightarrow> bool" where
  "issuable I tokenID userID email \<longleftrightarrow> is_uuid tokenID \<and> is_uuid userID \<and> is_ascii email
     \<and> is_ascii (is_issuer I) \<and> is_ascii (is_audience I)"

lemma IssueAccess_Inr:
  "IssueAccess C I tokenID userID email now = Inr (token, i) \<Longrightarrow>
    i = tokenID \<and> sign_rs256 C (is_key I) (is_key_id I) (access_claims I tokenID userID email now) = Inr token"
  by (auto simp: IssueAccess_def split: sum.splits go_error.splits)

lemma access_claims_valid:
  "valid_at (is_issuer I) (is_audience I) now (access_claims I tokenID userID email issued) \<longleftrightarrow>
     NewNumericDate issued \<le> NewNumericDate now \<and> now < numeric_time (NewNumericDate (add_duration issued (is_access_ttl I)))"
  by (auto simp: valid_at_def access_claims_def numeric_time_le)

lemma access_claims_ascii: "issuable I tokenID userID email \<Longrightarrow> ascii_claims (access_claims I tokenID userID email issued)"
  by (auto simp: issuable_def ascii_claims_def access_claims_def is_uuid_ascii)

lemma Verify_issued:
  assumes "jwt_law C" "IssueAccess C I tokenID userID email issued = Inr (token, i)" "issuable I tokenID userID email"
    and "NewNumericDate issued \<le> NewNumericDate now" "now < numeric_time (NewNumericDate (add_duration issued (is_access_ttl I)))"
  shows "Verify C I now token = Inr (access_claims I tokenID userID email issued)"
proof -
  have "key_function I ''RS256'' = Inr (public_key (is_key I))" by (simp add: key_function_def rsa_methods_def)
  then have "parse_with_claims C (key_function I) (is_issuer I) (is_audience I) now token = Inr (access_claims I tokenID userID email issued)"
    using assms(4,5) IssueAccess_Inr[OF assms(2)] access_claims_ascii[OF assms(3)]
    by (intro jwt_lawD(2)[OF assms(1)]) (auto simp: access_claims_valid)
  then show ?thesis by (simp add: Verify_def)
qed

lemma bearerToken_compact:
  assumes "compact_token token" shows "bearerToken (''Bearer '' @ token) = token"
proof -
  have "\<forall>c\<in>set token. printable c" using compact_printable[OF assms] by (simp add: printable_def)
  moreover have "map ascii_lower ''Bearer '' = ''bearer ''" by code_simp
  ultimately show ?thesis
    using TrimSpace_printable[of token] by (simp add: bearerToken_def del: list.map)
qed

lemma revoke_own_token:
  assumes laws: "jwt_law (lib_crypto L)" "uuid_law L"
    and issued: "IssueAccess (lib_crypto L) (sv_issuer S) tokenID userID email issued = Inr (token, i)"
      "issuable (sv_issuer S) tokenID userID email"
    and now: "NewNumericDate issued \<le> NewNumericDate (ca_now c)"
      "ca_now c < numeric_time (NewNumericDate (add_duration issued (is_access_ttl (sv_issuer S))))"
    and db: "ca_fate c 0 = Works" "ca_row_id c \<notin> o_id ` set (adb_outbox db)"
  shows "revoke L S c (''Bearer '' @ token) db =
    (writeJSON 202 [(''status'', JStr ''revocation queued'')],
     snd (RevokeAccessToken (ca_db_now c) Works (ca_row_id c) tokenID userID
       (numeric_time (NewNumericDate (add_duration issued (is_access_ttl (sv_issuer S))))) db))"
proof -
  have compact: "compact_token token"
    using jwt_lawD(1)[OF laws(1)] IssueAccess_Inr[OF issued(1)] by blast
  then have ne: "token \<noteq> []" by (simp add: compact_token_def)
  have ids: "uuid_parse L userID = Some userID" "storable tokenID"
    using laws(2) issued(2) is_uuid_ascii by (auto simp: uuid_law_def issuable_def)
  have "row_at o_id (ca_row_id c) (adb_outbox db) = None" using db(2) by (auto simp: row_at_None_iff)
  then show ?thesis
    using ids db(1) unfolding revoke_def Let_def bearerToken_compact[OF compact]
    by (simp add: ne Verify_issued[OF laws(1) issued now] access_claims_def[of _ _ _ _ issued]
        RevokeAccessToken_def exec_def)
qed

text \<open>A revocation is refused before it touches the tables, or runs for the claims of a token that verifies.\<close>

lemma revoke_cases:
  assumes "revoke L S c h db = (reply, db')"
  obtains (refused) "db' = db" "\<forall>r. reply \<noteq> Some (Response 202 r)"
  | (ran) cl u where "Verify (lib_crypto L) (sv_issuer S) (ca_now c) (bearerToken h) = Inr cl" "uuid_parse L (Subject cl) = Some u"
      "(reply, db') = (case RevokeAccessToken (ca_db_now c) (ca_fate c 0) (ca_row_id c) (ID cl) u
          (case ExpiresAt cl of Some n \<Rightarrow> numeric_time n | None \<Rightarrow> add_duration (ca_later c) DefaultAccessTTL) db of
         (Inl e, db') \<Rightarrow> (fail e, db') | (Inr _, db') \<Rightarrow> (writeJSON 202 [(''status'', JStr ''revocation queued'')], db'))"
proof (cases "bearerToken h = []")
  case True
  with assms refused show ?thesis by (auto simp: revoke_def writeError_def writeJSON_def)
next
  case False
  show ?thesis
  proof (cases "Verify (lib_crypto L) (sv_issuer S) (ca_now c) (bearerToken h)")
    case (Inl e)
    with assms False refused show ?thesis by (auto simp: revoke_def writeError_def writeJSON_def split: if_splits)
  next
    case (Inr cl)
    show ?thesis
    proof (cases "uuid_parse L (Subject cl)")
      case None
      with assms False Inr refused show ?thesis by (auto simp: revoke_def writeError_def writeJSON_def)
    next
      case (Some u)
      show ?thesis by (rule ran[OF Inr Some]) (use assms False Inr Some in \<open>simp add: revoke_def Let_def\<close>)
    qed
  qed
qed

subsection \<open>What holds of the API\<close>

text \<open>A service to evaluate on: an issuer with the default settings, and a call in the second 1000.\<close>

definition plain_auth_lib :: auth_lib where
  "plain_auth_lib = \<lparr>lib_crypto = plain_crypto, pg_lower = py_lower, uuid_parse = (\<lambda>s. if is_uuid s then Some s else None)\<rparr>"

lemma plain_auth_lib_simps [simp]: "lib_crypto plain_auth_lib = plain_crypto" "pg_lower plain_auth_lib = py_lower" "uuid_law plain_auth_lib"
  by (simp_all add: plain_auth_lib_def uuid_law_def)

definition sample_key :: rsa_key where
  "sample_key = \<lparr>public_key = \<lparr>rsa_N = 3233, rsa_E = 65537\<rparr>, private_part = 413\<rparr>"

definition sample_server :: server where
  "sample_server = New plain_crypto (NewIssuer plain_crypto sample_key ''http://auth:8080'' ''django-flask-kafka'' (seconds 900)) (seconds 3600) ''none''"

definition user_uuid :: string where
  "user_uuid = ''11111111-1111-4111-8111-111111111111''"

definition token_uuid :: string where
  "token_uuid = ''22222222-2222-4222-8222-222222222222''"

definition sample_call :: "string \<Rightarrow> string \<Rightarrow> call" where
  "sample_call row raw = \<lparr>ca_now = numeric_time 1000, ca_later = numeric_time 1000, ca_db_now = numeric_time 1000,
     ca_fate = (\<lambda>_. Works), ca_row_id = row, ca_token_id = token_uuid, ca_random = Inr raw\<rparr>"

lemma sample_call_simps [simp]:
  "ca_now (sample_call row raw) = numeric_time 1000" "ca_fate (sample_call row raw) n = Works" "ca_row_id (sample_call row raw) = row"
  "ca_db_now (sample_call row raw) = numeric_time 1000" "ca_token_id (sample_call row raw) = token_uuid" "ca_random (sample_call row raw) = Inr raw"
  by (simp_all add: sample_call_def)

lemma sample_uuids [simp]: "is_uuid user_uuid" "is_uuid token_uuid"
  by code_simp+

definition sample_body :: json where
  "sample_body = JObj [(''email'', JStr ''Ann@x.org''), (''password'', JStr ''correct horse'')]"

lemma sample_body_decoded: "decode [''email'', ''password''] (Some sample_body) = Some ((\<lambda>_. [])(''email'' := ''Ann@x.org'', ''password'' := ''correct horse''))"
  by (simp add: sample_body_def decode_def field_for_def)

text \<open>
  C17: Who has registered can log in, and nobody else as them. After a registration was answered with 201, a
  login with the address in any case gets to the tokens if the password has the key of the registered
  one, and a 401 otherwise; the address is the one that was sent, trimmed.
\<close>

theorem registered_user_can_log_in:
  assumes "argon2_law (lib_crypto L)" and "register L c body db = (Some (Response 201 r), db')" "ca_random c = Inr salt"
    and "decode [''email'', ''password''] body = Some b" "decode [''email'', ''password''] body' = Some b'"
    and "pg_lower L (b' ''email'') = pg_lower L (TrimSpace (b ''email''))" "storable (b' ''email'')" "ca_fate c' 0 = Works"
  shows "login L S c' body' db' =
    (if argon2_id_key (lib_crypto L) (b' ''password'') salt 1 65536 4 32 = argon2_id_key (lib_crypto L) (b ''password'') salt 1 65536 4 32
     then issueTokens L S c' 1 (ca_row_id c) (TrimSpace (b ''email'')) db' else (writeError 401 ''invalid credentials'', db'))"
proof -
  obtain hash where hash: "HashPassword (lib_crypto L) (Inr salt) (b ''password'') = Inr hash"
    and new: "row_at (pg_lower L \<circ> u_email) (pg_lower L (TrimSpace (b ''email''))) (adb_users db) = None"
    and db': "db' = db\<lparr>adb_users := adb_users db @ [\<lparr>u_id = ca_row_id c, u_email = TrimSpace (b ''email''), u_password_hash = hash\<rparr>]\<rparr>"
    using register_created[OF assms(2)] assms(3,4) by (metis option.inject)
  have user: "UserByEmail (pg_lower L) (ca_fate c' 0) (b' ''email'') db'
      = (Inr \<lparr>u_id = ca_row_id c, u_email = TrimSpace (b ''email''), u_password_hash = hash\<rparr>, db')"
    using new by (simp add: UserByEmail_def exec_def assms(6-8) db' row_at_append)
  have check: "VerifyPassword (lib_crypto L) other hash = (if argon2_id_key (lib_crypto L) other salt 1 65536 4 32
      = argon2_id_key (lib_crypto L) (b ''password'') salt 1 65536 4 32 then Inr () else Inl ErrMismatch)" for other
    by (rule VerifyPassword_hashed[OF assms(1) hash])
  show ?thesis
    by (simp add: login_def assms(5) user check)
qed

theorem registered_user_can_log_in_witness:
  "fst (login plain_auth_lib sample_server (sample_call ''x'' ''raw'') (Some sample_body)
     (snd (register plain_auth_lib (sample_call user_uuid ''salt'') (Some sample_body) empty_auth_db)))
   = fst (issueTokens plain_auth_lib sample_server (sample_call ''x'' ''raw'') 1 user_uuid ''Ann@x.org''
     (snd (register plain_auth_lib (sample_call user_uuid ''salt'') (Some sample_body) empty_auth_db)))"
proof -
  let ?c = "sample_call user_uuid ''salt''"
  let ?b = "(\<lambda>_. [])(''email'' := ''Ann@x.org'', ''password'' := ''correct horse'')"
  have trim: "TrimSpace ''Ann@x.org'' = ''Ann@x.org''" and store: "storable ''Ann@x.org''" by code_simp+
  obtain hash where hash: "HashPassword plain_crypto (Inr ''salt'') ''correct horse'' = Inr hash"
    by (simp add: HashPassword_def plain_crypto_def argonTime_def argonThreads_def argonKeyLen_def)
  have reg: "register plain_auth_lib ?c (Some sample_body) empty_auth_db = (Some (Response 201 (JObj [(''email'', JStr ''Ann@x.org''), (''id'', JStr user_uuid)])),
      snd (register plain_auth_lib ?c (Some sample_body) empty_auth_db))"
    by (simp add: register_def sample_body_decoded trim store hash CreateUser_def exec_def empty_auth_db_def writeJSON_def Let_def)
  show ?thesis
    using registered_user_can_log_in[OF _ reg, of "''salt''" ?b "Some sample_body" ?b "sample_call ''x'' ''raw''" sample_server]
    by (simp add: sample_body_decoded trim store)
qed

text \<open>
  C14: A revocation and its announcement are stored together. Whatever fails: \<open>POST /revoke\<close> either leaves the
  tables as they are and does not answer 202, or the token verified, the user it names has no live
  refresh token left, and the outbox has one more row, which names the token and its expiry.
\<close>

theorem revocation_is_all_or_nothing:
  assumes "revoke L S c h db = (reply, db')"
  shows "db' = db \<and> (\<forall>r. reply \<noteq> Some (Response 202 r))
    \<or> (\<exists>cl u e. Verify (lib_crypto L) (sv_issuer S) (ca_now c) (bearerToken h) = Inr cl \<and> uuid_parse L (Subject cl) = Some u
        \<and> adb_users db' = adb_users db \<and> filter (\<lambda>r. rf_user_id r = u \<and> rf_revoked_at r = None) (adb_refresh db') = []
        \<and> adb_outbox db' = adb_outbox db @ [e] \<and> o_published_at e = None \<and> o_key e = u
        \<and> (case ExpiresAt cl of Some n \<Rightarrow> o_payload e = revocation_payload (ID cl) u (numeric_time n) | None \<Rightarrow> True))"
proof -
  let ?rest = "\<lambda>db'. \<exists>cl u e. Verify (lib_crypto L) (sv_issuer S) (ca_now c) (bearerToken h) = Inr cl \<and> uuid_parse L (Subject cl) = Some u
        \<and> adb_users db' = adb_users db \<and> filter (\<lambda>r. rf_user_id r = u \<and> rf_revoked_at r = None) (adb_refresh db') = []
        \<and> adb_outbox db' = adb_outbox db @ [e] \<and> o_published_at e = None \<and> o_key e = u
        \<and> (case ExpiresAt cl of Some n \<Rightarrow> o_payload e = revocation_payload (ID cl) u (numeric_time n) | None \<Rightarrow> True)"
  let ?run = "\<lambda>cl u. RevokeAccessToken (ca_db_now c) (ca_fate c 0) (ca_row_id c) (ID cl) u
    (case ExpiresAt cl of Some n \<Rightarrow> numeric_time n | None \<Rightarrow> add_duration (ca_later c) DefaultAccessTTL) db"
  from assms show ?thesis
  proof (cases rule: revoke_cases)
    case (ran cl u)
    obtain x db1 where rv: "?run cl u = (x, db1)" by fastforce
    have db1: "db' = db1" and "\<And>e. x = Inl e \<Longrightarrow> \<forall>r. reply \<noteq> Some (Response 202 r)"
      using ran(3) by (auto simp: rv fail_def writeError_def writeJSON_def split: sum.splits)
    moreover have "db1 = db \<and> (\<exists>e. x = Inl e) \<or> ?rest db1"
      using RevokeAccessToken_outcome[OF rv]
    proof (elim disjE conjE)
      assume *: "adb_users db1 = adb_users db" "filter (\<lambda>r. rf_user_id r = u \<and> rf_revoked_at r = None) (adb_refresh db1) = []"
        "adb_outbox db1 = adb_outbox db @ [\<lparr>o_id = ca_row_id c, o_topic = TopicTokenRevoke, o_key = u,
           o_payload = revocation_payload (ID cl) u (case ExpiresAt cl of Some n \<Rightarrow> numeric_time n | None \<Rightarrow> add_duration (ca_later c) DefaultAccessTTL),
           o_created_at = ca_db_now c, o_published_at = None\<rparr>]"
      show ?thesis
        by (intro disjI2 exI conjI, rule ran(1), rule ran(2), rule *(1), rule *(2), rule *(3)) (simp_all split: option.split)
    qed blast
    ultimately show ?thesis by blast
  qed blast
qed

lemma sample_issued:
  "\<exists>token. IssueAccess plain_crypto (sv_issuer sample_server) token_uuid user_uuid ''Ann@x.org'' (numeric_time 1000) = Inr (token, token_uuid)
    \<and> compact_token token"
proof -
  obtain token where token: "IssueAccess plain_crypto (sv_issuer sample_server) token_uuid user_uuid ''Ann@x.org'' (numeric_time 1000) = Inr (token, token_uuid)"
    by (simp add: IssueAccess_def plain_crypto_def)
  with jwt_lawD(1)[OF plain_jwt_law] IssueAccess_Inr[OF token] show ?thesis by blast
qed

lemma sample_issuable: "issuable (sv_issuer sample_server) token_uuid user_uuid ''Ann@x.org''"
  by (simp add: issuable_def sample_server_def New_def NewIssuer_def is_ascii_def code_def)

lemma sample_ttl: "NewNumericDate (add_duration (numeric_time 1000) (is_access_ttl (sv_issuer sample_server))) = 1900"
proof -
  have "is_access_ttl (sv_issuer sample_server) = seconds 900"
    using sint_seconds[of 900] by (simp add: sample_server_def New_def NewIssuer_def)
  then show ?thesis using NewNumericDate_add[of 900 "numeric_time 1000"] by simp
qed

theorem revocation_is_all_or_nothing_witness:
  "\<exists>token e. adb_outbox (snd (revoke plain_auth_lib sample_server (sample_call ''e1'' []) (''Bearer '' @ token) empty_auth_db)) = [e]
    \<and> o_key e = user_uuid \<and> o_payload e = revocation_payload token_uuid user_uuid (numeric_time 1900)"
proof -
  obtain token where token: "IssueAccess plain_crypto (sv_issuer sample_server) token_uuid user_uuid ''Ann@x.org'' (numeric_time 1000) = Inr (token, token_uuid)"
    "compact_token token" using sample_issued by blast
  have v: "Verify plain_crypto (sv_issuer sample_server) (numeric_time 1000) token
      = Inr (access_claims (sv_issuer sample_server) token_uuid user_uuid ''Ann@x.org'' (numeric_time 1000))"
    using sample_ttl by (intro Verify_issued[OF plain_jwt_law token(1) sample_issuable]) simp_all
  have "fst (revoke plain_auth_lib sample_server (sample_call ''e1'' []) (''Bearer '' @ token) empty_auth_db)
      = fst (writeJSON 202 [(''status'', JStr ''revocation queued'')], empty_auth_db)"
    using sample_ttl token(1)
    by (subst revoke_own_token[where issued = "numeric_time 1000" and email = "''Ann@x.org''" and i = token_uuid, OF _ _ _ sample_issuable])
      (simp_all add: empty_auth_db_def)
  then have fst202: "fst (revoke plain_auth_lib sample_server (sample_call ''e1'' []) (''Bearer '' @ token) empty_auth_db)
      = writeJSON 202 [(''status'', JStr ''revocation queued'')]" by simp
  have e: "adb_outbox empty_auth_db = []" by (simp add: empty_auth_db_def)
  have claims: "ID (access_claims (sv_issuer sample_server) token_uuid user_uuid ''Ann@x.org'' (numeric_time 1000)) = token_uuid"
    "Subject (access_claims (sv_issuer sample_server) token_uuid user_uuid ''Ann@x.org'' (numeric_time 1000)) = user_uuid"
    "ExpiresAt (access_claims (sv_issuer sample_server) token_uuid user_uuid ''Ann@x.org'' (numeric_time 1000)) = Some 1900"
    using sample_ttl by (simp_all add: access_claims_def)
  have parse: "uuid_parse plain_auth_lib user_uuid = Some user_uuid" by (simp add: plain_auth_lib_def)
  show ?thesis
    using revocation_is_all_or_nothing[OF prod.collapse[symmetric], of plain_auth_lib sample_server "sample_call ''e1'' []" "''Bearer '' @ token" empty_auth_db]
    unfolding bearerToken_compact[OF token(2)] fst202
    using v by (auto simp: e claims parse writeJSON_def simp del: append_Cons)
qed

text \<open>
  The auth service itself does not refuse a revoked token. The same access token can be revoked again
  until it expires, although the first 202 was sent with the comment that it is refused from then on; every
  time a further event is queued.
\<close>

lemma revoked_token_is_taken_again:
  assumes "jwt_law (lib_crypto L)" "uuid_law L"
    and "IssueAccess (lib_crypto L) (sv_issuer S) tokenID userID email issued = Inr (token, i)" "issuable (sv_issuer S) tokenID userID email"
    and "list_all (\<lambda>c. NewNumericDate issued \<le> NewNumericDate (ca_now c) \<and> ca_fate c 0 = Works
        \<and> ca_now c < numeric_time (NewNumericDate (add_duration issued (is_access_ttl (sv_issuer S))))) [c, c']"
    and "distinct (map o_id (adb_outbox db) @ [ca_row_id c, ca_row_id c'])"
    and "db1 = snd (revoke L S c (''Bearer '' @ token) db)"
  shows "fst (revoke L S c' (''Bearer '' @ token) db1) = Some (Response 202 (JObj [(''status'', JStr ''revocation queued'')]))
    \<and> length (adb_outbox (snd (revoke L S c' (''Bearer '' @ token) db1))) = length (adb_outbox db) + 2"
proof -
  have ids: "storable tokenID" using assms(4) is_uuid_ascii by (auto simp: issuable_def)
  have clocks: "NewNumericDate issued \<le> NewNumericDate (ca_now x)" "ca_fate x 0 = Works"
      "ca_now x < numeric_time (NewNumericDate (add_duration issued (is_access_ttl (sv_issuer S))))" if "x \<in> {c, c'}" for x
    using assms(5) that by auto
  have fresh: "ca_row_id c \<notin> o_id ` set (adb_outbox db)" "ca_row_id c' \<notin> o_id ` set (adb_outbox db)" "ca_row_id c \<noteq> ca_row_id c'"
    using assms(6) by auto
  note go = revoke_own_token[OF assms(1-4)]
  have db1: "adb_outbox db1 = adb_outbox db @ [\<lparr>o_id = ca_row_id c, o_topic = TopicTokenRevoke, o_key = userID,
      o_payload = revocation_payload tokenID userID (numeric_time (NewNumericDate (add_duration issued (is_access_ttl (sv_issuer S))))),
      o_created_at = ca_db_now c, o_published_at = None\<rparr>]"
    using ids fresh(1) clocks[of c] unfolding assms(7)
    by (subst go) (auto simp: RevokeAccessToken_def exec_def row_at_None_iff)
  then have "ca_row_id c' \<notin> o_id ` set (adb_outbox db1)" using fresh by auto
  with ids clocks[of c'] show ?thesis
    by (subst (1 2) go) (auto simp: RevokeAccessToken_def exec_def row_at_None_iff writeJSON_def db1)
qed

lemma revoked_token_is_taken_again_witness:
  "\<exists>token. fst (revoke plain_auth_lib sample_server (sample_call ''e2'' []) (''Bearer '' @ token)
      (snd (revoke plain_auth_lib sample_server (sample_call ''e1'' []) (''Bearer '' @ token) empty_auth_db)))
    = Some (Response 202 (JObj [(''status'', JStr ''revocation queued'')]))"
proof -
  obtain token where "IssueAccess plain_crypto (sv_issuer sample_server) token_uuid user_uuid ''Ann@x.org'' (numeric_time 1000) = Inr (token, token_uuid)"
    using sample_issued by blast
  then have issued: "IssueAccess (lib_crypto plain_auth_lib) (sv_issuer sample_server) token_uuid user_uuid ''Ann@x.org'' (numeric_time 1000) = Inr (token, token_uuid)"
    by simp
  have "jwt_law (lib_crypto plain_auth_lib)" "uuid_law plain_auth_lib" by simp_all
  from revoked_token_is_taken_again[OF this issued sample_issuable, of "sample_call ''e1'' []" "sample_call ''e2'' []" empty_auth_db]
  show ?thesis using sample_ttl by (intro exI[of _ token]) (simp add: empty_auth_db_def)
qed

end
