(* ===== verification/AuthRelay.thy ===== *)
theory AuthRelay
  imports AuthApi Settings
begin

section \<open>The relay and the process of the auth service (services/auth/cmd/authd)\<close>

text \<open>
  relay.go and main.go. kafka-go and the broker are not under src: what one \<open>WriteMessages\<close> does is part of
  the tick of the relay (whether it returns an error, and which records the broker appends). Keys,
  files and connections are parameters of main.go.
\<close>

subsection \<open>relay.go\<close>

record tick =
  tk_now :: timestamp
  tk_locked :: "string list"
  tk_claim :: db_fate
  tk_write_fails :: bool
  tk_appended :: "kafka_record list \<Rightarrow> kafka_record list"
  tk_mark :: db_fate

record auth_relay =
  ar_db :: auth_db
  ar_log :: "kafka_record list"

text \<open>The writer of \<open>NewRelay\<close>: \<open>RequireAll\<close> is -1, a duration is in nanoseconds.\<close>

record kafka_writer =
  wr_addr :: "string list"
  wr_topic :: string
  wr_required_acks :: int
  wr_balancer :: string
  wr_batch_timeout :: duration

definition NewRelay :: "string \<Rightarrow> kafka_writer" where
  "NewRelay brokers =
     \<lparr>wr_addr = split_on (CHR '','') brokers, wr_topic = TopicTokenRevoke, wr_required_acks = -1,
      wr_balancer = ''Hash'', wr_batch_timeout = 200 * 1000000\<rparr>"

text \<open>The writer is bound to one topic, whatever the row says.\<close>

definition kafka_message :: "outbox_event \<Rightarrow> kafka_record" where
  "kafka_message event =
     \<lparr>k_topic = TopicTokenRevoke, k_key = Some (o_key event), k_value = o_payload event,
      k_headers = [(''event_id'', Some (o_id event))]\<rparr>"

text \<open>\<open>publishBatch\<close> from \<open>WriteMessages\<close> on, with the events it has claimed.\<close>

definition write_and_mark :: "tick \<Rightarrow> outbox_event list \<Rightarrow> auth_relay \<Rightarrow> unit go \<times> auth_relay" where
  "write_and_mark t events st =
     (let st1 = st\<lparr>ar_log := ar_log st @ tk_appended t (map kafka_message events)\<rparr> in
      if tk_write_fails t then (Inl GoError, st1)
      else
        (case MarkPublished (tk_now t) (tk_mark t) (map o_id events) (ar_db st1) of
           (Inl e, db') \<Rightarrow> (Inl e, st1\<lparr>ar_db := db'\<rparr>)
         | (Inr _, db') \<Rightarrow> (Inr (), st1\<lparr>ar_db := db'\<rparr>)))"

definition publishBatch :: "tick \<Rightarrow> auth_relay \<Rightarrow> unit go \<times> auth_relay" where
  "publishBatch t st =
     (case ClaimOutbox (tk_claim t) (tk_locked t) 100 (ar_db st) of
        (Inl e, db) \<Rightarrow> (Inl e, st\<lparr>ar_db := db\<rparr>)
      | (Inr events, db) \<Rightarrow>
          if events = [] then (Inr (), st\<lparr>ar_db := db\<rparr>) else write_and_mark t events (st\<lparr>ar_db := db\<rparr>))"

text \<open>
  \<open>Run\<close>: each second a batch, whose error is only logged, until the context is done (it may be done before
  the next tick, never in the middle of a batch).
\<close>

fun relay_Run :: "tick option list \<Rightarrow> auth_relay \<Rightarrow> auth_relay" where
  "relay_Run [] st = st"
| "relay_Run (None # ts) st = st"
| "relay_Run (Some t # ts) st = relay_Run ts (snd (publishBatch t st))"

fun until_done :: "tick option list \<Rightarrow> tick list" where
  "until_done [] = []"
| "until_done (None # ts) = []"
| "until_done (Some t # ts) = t # until_done ts"

lemma relay_Run_fold: "relay_Run ts st = fold (\<lambda>t st. snd (publishBatch t st)) (until_done ts) st"
  by (induction ts st rule: relay_Run.induct) simp_all

subsection \<open>The relay keeps the contract of an outbox\<close>

text \<open>
  With \<open>RequireAll\<close> a \<open>WriteMessages\<close> without an error has appended every message; it appends no others.
\<close>

definition legal_tick :: "tick \<Rightarrow> bool" where
  "legal_tick t \<longleftrightarrow> tk_write_fails t \<or> (\<forall>ms. set ms \<subseteq> set (tk_appended t ms))"

definition good_tick :: "tick \<Rightarrow> bool" where
  "good_tick t \<longleftrightarrow> legal_tick t \<and> tk_locked t = [] \<and> tk_claim t = Works \<and> \<not> tk_write_fails t \<and> tk_mark t = Works"

definition auth_relay_inv :: "auth_relay \<Rightarrow> bool" where
  "auth_relay_inv st \<longleftrightarrow> distinct (map o_id (adb_outbox (ar_db st)))"

definition auth_pending :: "auth_relay \<Rightarrow> kafka_record list" where
  "auth_pending st = map kafka_message (unpublished (adb_outbox (ar_db st)))"

definition relay_tick :: "tick \<Rightarrow> auth_relay \<Rightarrow> auth_relay" where
  "relay_tick t st = snd (publishBatch t st)"

lemma kafka_message_mark [simp]: "kafka_message (e\<lparr>o_published_at := x\<rparr>) = kafka_message e"
  by (simp add: kafka_message_def)

lemma ClaimOutbox_cases:
  obtains (failed) "ClaimOutbox fate locked n db = (Inl GoError, db)"
  | (claimed) events where "ClaimOutbox fate locked n db = (Inr events, db)" "claim_batch locked (int n) (adb_outbox db) = Inr events"
      "fate = Works"
proof -
  obtain events where "claim_batch locked (int n) (adb_outbox db) = Inr events" by (simp add: claim_batch_def)
  then show thesis
    using failed claimed[of events] by (cases fate) (auto simp: ClaimOutbox_def exec_def)
qed

lemma MarkPublished_outcome:
  "adb_outbox (snd (MarkPublished now fate ids db)) \<in> {adb_outbox db, mark_published now ids (adb_outbox db)}"
  "ids \<noteq> [] \<Longrightarrow> fate = Works \<Longrightarrow> MarkPublished now fate ids db = (Inr (), db\<lparr>adb_outbox := mark_published now ids (adb_outbox db)\<rparr>)"
  by (cases fate; simp add: MarkPublished_def exec_def)+

text \<open>The ways a batch ends.\<close>

lemma publishBatch_cases:
  obtains (nothing) "relay_tick t st = st"
  | (sent) events where "claim_batch (tk_locked t) 100 (adb_outbox (ar_db st)) = Inr events" "tk_claim t = Works" "events \<noteq> []"
      "tk_write_fails t" "relay_tick t st = st\<lparr>ar_log := ar_log st @ tk_appended t (map kafka_message events)\<rparr>"
  | (tried) events db where "claim_batch (tk_locked t) 100 (adb_outbox (ar_db st)) = Inr events" "tk_claim t = Works" "events \<noteq> []"
      "\<not> tk_write_fails t" "relay_tick t st = \<lparr>ar_db = db, ar_log = ar_log st @ tk_appended t (map kafka_message events)\<rparr>"
      "adb_outbox db \<in> {adb_outbox (ar_db st), mark_published (tk_now t) (map o_id events) (adb_outbox (ar_db st))}"
      "tk_mark t = Works \<Longrightarrow> adb_outbox db = mark_published (tk_now t) (map o_id events) (adb_outbox (ar_db st))"
proof (cases rule: ClaimOutbox_cases[of "tk_claim t" "tk_locked t" 100 "ar_db st"])
  case failed
  then have "relay_tick t st = st" by (simp add: relay_tick_def publishBatch_def)
  then show ?thesis by (rule nothing)
next
  case (claimed events)
  show ?thesis
  proof (cases "events = []")
    case True
    with claimed have "relay_tick t st = st" by (simp add: relay_tick_def publishBatch_def)
    then show ?thesis by (rule nothing)
  next
    case ne: False
    show ?thesis
    proof (cases "tk_write_fails t")
      case True
      with claimed ne show ?thesis by (intro sent[of events]) (simp_all add: relay_tick_def publishBatch_def write_and_mark_def Let_def)
    next
      case False
      let ?db = "snd (MarkPublished (tk_now t) (tk_mark t) (map o_id events) (ar_db st))"
      have "relay_tick t st = \<lparr>ar_db = ?db, ar_log = ar_log st @ tk_appended t (map kafka_message events)\<rparr>"
        using claimed ne False by (simp add: relay_tick_def publishBatch_def write_and_mark_def Let_def split: sum.split prod.split)
      then show ?thesis
        using claimed ne False
          MarkPublished_outcome(1)[where now = "tk_now t" and fate = "tk_mark t" and ids = "map o_id events" and db = "ar_db st"]
          MarkPublished_outcome(2)[where now = "tk_now t" and fate = "tk_mark t" and ids = "map o_id events" and db = "ar_db st"]
        by (intro tried[of events ?db]) auto
    qed
  qed
qed

lemma claimed_row:
  assumes "auth_relay_inv st" "claim_batch locked n (adb_outbox (ar_db st)) = Inr events"
    and "r \<in> set (unpublished (adb_outbox (ar_db st)))" "o_id r \<in> o_id ` set events"
  shows "r \<in> set events"
proof -
  obtain q where q: "q \<in> set events" "o_id q = o_id r" using assms(4) by auto
  then have "q \<in> set (adb_outbox (ar_db st))" "r \<in> set (adb_outbox (ar_db st))"
    using claim_batch_InrD(1)[OF assms(2)] assms(3) by (auto simp: unpublished_def)
  then have "q = r"
    using distinct_map_inj_on_set[OF assms(1)[unfolded auth_relay_inv_def]] q(2) by blast
  with q show ?thesis by simp
qed

lemma auth_inv_tick: "auth_relay_inv st \<Longrightarrow> auth_relay_inv (relay_tick t st)"
  by (cases rule: publishBatch_cases[of t st]) (auto simp: auth_relay_inv_def)

lemma auth_never_withdrawn: "prefix (ar_log st) (ar_log (relay_tick t st))"
  by (cases rule: publishBatch_cases[of t st]) auto

lemma auth_kept:
  assumes "auth_relay_inv st" "legal_tick t"
  shows "set (auth_pending st) \<subseteq> set (auth_pending (relay_tick t st)) \<union> set (ar_log (relay_tick t st))"
proof (cases rule: publishBatch_cases[of t st])
  case (tried events db)
  have app: "set (map kafka_message events) \<subseteq> set (tk_appended t (map kafka_message events))"
    using assms(2) tried(4) unfolding legal_tick_def by blast
  have "kafka_message r \<in> set (auth_pending (relay_tick t st)) \<union> set (ar_log (relay_tick t st))"
    if r: "r \<in> set (unpublished (adb_outbox (ar_db st)))" for r
  proof (cases "o_id r \<in> o_id ` set events")
    case True
    from claimed_row[OF assms(1) tried(1) r True] app show ?thesis by (auto simp: tried(5))
  next
    case False
    then have "r \<in> set (unpublished (adb_outbox db))" using tried(6) r by (auto simp: unpublished_mark)
    then show ?thesis by (simp add: auth_pending_def tried(5))
  qed
  then show ?thesis by (auto simp: auth_pending_def)
qed (auto simp: auth_pending_def)

lemma auth_progress:
  assumes "auth_relay_inv st" "good_tick t" "auth_pending st \<noteq> []"
  shows "length (auth_pending (relay_tick t st)) < length (auth_pending st)"
proof -
  let ?box = "adb_outbox (ar_db st)"
  have good: "tk_locked t = []" "tk_claim t = Works" "\<not> tk_write_fails t" "tk_mark t = Works"
    using assms(2) by (simp_all add: good_tick_def)
  define events where "events = take 100 (sort_key o_created_at (unpublished ?box))"
  have claim: "claim_batch (tk_locked t) 100 ?box = Inr events" by (simp add: claim_batch_def good(1) events_def)
  have "sort_key o_created_at (unpublished ?box) \<noteq> []"
    using assms(3) by (metis auth_pending_def length_0_conv length_sort map_is_Nil_conv)
  then have ne: "events \<noteq> []" by (simp add: events_def)
  have "auth_pending (relay_tick t st) = map kafka_message (filter (\<lambda>r. o_id r \<notin> o_id ` set events) (unpublished ?box))"
    using claim ne good
    by (simp add: relay_tick_def publishBatch_def write_and_mark_def ClaimOutbox_def exec_def Let_def MarkPublished_outcome(2) auth_pending_def unpublished_mark)
  moreover obtain r where "r \<in> set events" using ne by (cases events) auto
  then have "r \<in> set (unpublished ?box)" "\<not> o_id r \<notin> o_id ` set events"
    using claim_batch_InrD(1)[OF claim] by auto
  ultimately show ?thesis by (simp add: auth_pending_def length_filter_less)
qed

lemma auth_idle: "auth_pending st = [] \<Longrightarrow> auth_pending (relay_tick t st) = []"
  by (cases rule: publishBatch_cases[of t st]) (auto simp: auth_pending_def unpublished_mark)

interpretation auth_outbox: draining_outbox auth_relay_inv auth_pending ar_log legal_tick relay_tick good_tick
  by unfold_locales
    (simp_all add: auth_inv_tick auth_kept auth_never_withdrawn auth_progress auth_idle good_tick_def)

subsection \<open>What holds of the relay\<close>

definition sample_tick :: tick where
  "sample_tick = \<lparr>tk_now = Timestamp 9, tk_locked = [], tk_claim = Works, tk_write_fails = False, tk_appended = id, tk_mark = Works\<rparr>"

lemma good_sample_tick [simp]: "good_tick sample_tick"
  by (simp add: good_tick_def legal_tick_def sample_tick_def)

definition sample_revocation_row :: outbox_event where
  "sample_revocation_row = \<lparr>o_id = ''e1'', o_topic = TopicTokenRevoke, o_key = ''u1'', o_payload = revocation_payload ''t1'' ''u1'' (Timestamp 5),
     o_created_at = Timestamp 1, o_published_at = None\<rparr>"

definition sample_auth_relay :: auth_relay where
  "sample_auth_relay = \<lparr>ar_db = empty_auth_db\<lparr>adb_outbox := [sample_revocation_row]\<rparr>, ar_log = []\<rparr>"

lemma sample_auth_relay_simps [simp]: "auth_relay_inv sample_auth_relay" "auth_pending sample_auth_relay = [kafka_message sample_revocation_row]"
  by (simp_all add: sample_auth_relay_def auth_relay_inv_def auth_pending_def unpublished_def sample_revocation_row_def)

text \<open>
  C15: No revocation is lost on the way to Kafka. Whatever the ticks of the relay meet (a database that fails
  or loses its answer, a broker that stores some of a batch and reports an error), a queued revocation is
  still unpublished or in the log; and as many ticks as there are revocations, in which nothing fails, have
  put every one of them into the log.
\<close>

theorem revocations_reach_the_log:
  assumes "auth_relay_inv st" "list_all legal_tick (until_done ts)"
    and "list_all good_tick (until_done ts')" "length (auth_pending st) \<le> length (until_done ts')"
  shows "set (auth_pending st) \<subseteq> set (auth_pending (relay_Run ts st)) \<union> set (ar_log (relay_Run ts st))
    \<and> auth_pending (relay_Run ts' st) = [] \<and> set (auth_pending st) \<subseteq> set (ar_log (relay_Run ts' st))"
proof -
  have run: "relay_Run us st = fold relay_tick (until_done us) st" for us
    by (simp add: relay_Run_fold relay_tick_def[abs_def])
  show ?thesis
    unfolding run
    using auth_outbox.at_least_once[OF assms(1), of "until_done ts"] auth_outbox.drained[OF assms(1), of "until_done ts'"]
      auth_outbox.drained_and_sent[OF assms(1), of "until_done ts'"] assms(2-4)
    by (simp add: list_all_iff)
qed

theorem revocations_reach_the_log_witness:
  "auth_pending (relay_Run [Some sample_tick, None] sample_auth_relay) = []
    \<and> kafka_message sample_revocation_row \<in> set (ar_log (relay_Run [Some sample_tick, None] sample_auth_relay))"
  using revocations_reach_the_log[of sample_auth_relay "[]" "[Some sample_tick, None]"] by simp

text \<open>
  Two instances of the service publish a revocation twice. \<open>ClaimOutbox\<close> does not keep its locks, so when
  a second instance runs a whole batch between the first one's claim and its write, it claims the same
  rows and marks them; the first one then publishes all of them again.
\<close>

lemma instances_publish_twice:
  assumes "ClaimOutbox Works [] 100 (ar_db st) = (Inr events, db)" "events \<noteq> []"
    and "good_tick t" "tk_appended t = id" "good_tick t'" "tk_appended t' = id"
  shows "\<exists>st1 st2. publishBatch t st = (Inr (), st1) \<and> list_all (\<lambda>e. e \<notin> set events \<or> o_published_at e \<noteq> None) (adb_outbox (ar_db st1))
    \<and> write_and_mark t' events st1 = (Inr (), st2)
    \<and> ar_log st2 = ar_log st @ map kafka_message events @ map kafka_message events"
proof -
  have db: "db = ar_db st" and claim: "claim_batch [] 100 (adb_outbox (ar_db st)) = Inr events"
    using assms(1) by (auto simp: ClaimOutbox_def exec_def split: sum.splits)
  have good: "tk_locked t = []" "tk_claim t = Works" "\<not> tk_write_fails t" "tk_mark t = Works" "\<not> tk_write_fails t'" "tk_mark t' = Works"
    using assms(3,5) by (simp_all add: good_tick_def)
  let ?box = "mark_published (tk_now t) (map o_id events) (adb_outbox (ar_db st))"
  have "publishBatch t st = (Inr (), \<lparr>ar_db = (ar_db st)\<lparr>adb_outbox := ?box\<rparr>, ar_log = ar_log st @ map kafka_message events\<rparr>)"
    using assms(1,2,4) good by (simp add: publishBatch_def write_and_mark_def db Let_def MarkPublished_outcome(2))
  moreover have "list_all (\<lambda>e. e \<notin> set events \<or> o_published_at e \<noteq> None) ?box"
    by (auto simp: mark_published_def list_all_iff)
  ultimately show ?thesis
    using assms(2,6) good by (simp add: write_and_mark_def Let_def MarkPublished_outcome(2))
qed

lemma instances_publish_twice_witness:
  "\<exists>st1 st2. publishBatch sample_tick sample_auth_relay = (Inr (), st1) \<and> write_and_mark sample_tick [sample_revocation_row] st1 = (Inr (), st2)
    \<and> ar_log st2 = [kafka_message sample_revocation_row, kafka_message sample_revocation_row]"
proof -
  have one: "ClaimOutbox Works [] 100 (ar_db sample_auth_relay) = (Inr [sample_revocation_row], ar_db sample_auth_relay)"
    by (simp add: ClaimOutbox_def exec_def claim_batch_def sample_auth_relay_def unpublished_def sample_revocation_row_def)
  have id: "tk_appended sample_tick = id" by (simp add: sample_tick_def)
  have "ar_log sample_auth_relay = []" by (simp add: sample_auth_relay_def)
  with instances_publish_twice[OF one _ good_sample_tick id good_sample_tick id] show ?thesis by auto
qed

subsection \<open>main.go\<close>

text \<open>\<open>os.Getenv\<close> gives the empty string for a variable that is not set.\<close>

definition Getenv :: "environment \<Rightarrow> string \<Rightarrow> string" where
  "Getenv env key = (case env key of None \<Rightarrow> [] | Some v \<Rightarrow> v)"

definition go_env :: "environment \<Rightarrow> string \<Rightarrow> string \<Rightarrow> string" where
  "go_env env key fallback = (if Getenv env key \<noteq> [] then Getenv env key else fallback)"

definition accessTTL :: "environment \<Rightarrow> duration" where
  "accessTTL env =
     (case Atoi (Getenv env ''ACCESS_TTL_SECONDS'') of
        Some s \<Rightarrow> if 0 < s then seconds s else DefaultAccessTTL
      | None \<Rightarrow> DefaultAccessTTL)"

definition refreshTTL :: "environment \<Rightarrow> duration" where
  "refreshTTL env =
     (case Atoi (Getenv env ''REFRESH_TTL_SECONDS'') of
        Some s \<Rightarrow> if 0 < s then seconds s else DefaultRefreshTTL
      | None \<Rightarrow> DefaultRefreshTTL)"

text \<open>
  Files and keys: reading a file, PEM, the two parsers (a PKCS8 key may be of another kind: None) and the
  generation of a key.
\<close>

record pem_lib =
  ReadFile :: "string \<Rightarrow> string go"
  pem_decode :: "string \<Rightarrow> string option"
  parse_pkcs8 :: "string \<Rightarrow> rsa_key option go"
  parse_pkcs1 :: "string \<Rightarrow> rsa_key go"
  GenerateKey :: "rsa_key go"

definition loadOrCreateKey :: "pem_lib \<Rightarrow> string \<Rightarrow> rsa_key go" where
  "loadOrCreateKey K path =
     (if path = [] then GenerateKey K
      else
        (case ReadFile K path of
           Inl e \<Rightarrow> Inl e
         | Inr raw \<Rightarrow>
             (case pem_decode K raw of
                None \<Rightarrow> Inl GoError
              | Some block \<Rightarrow>
                  (case parse_pkcs8 K block of
                     Inl _ \<Rightarrow> (case parse_pkcs1 K block of Inl _ \<Rightarrow> Inl GoError | Inr key \<Rightarrow> Inr key)
                   | Inr None \<Rightarrow> Inl GoError
                   | Inr (Some key) \<Rightarrow> Inr key))))"

text \<open>
  \<open>connectWithRetry\<close>: an attempt is the outcome of \<open>New\<close> and \<open>Ping\<close>, the clock after it, and whether the
  context is done during the pause. None: still trying when the attempts are used up.
\<close>

record attempt =
  at_error :: "go_error option"
  at_now :: timestamp
  at_cancelled :: bool

fun connectWithRetry :: "timestamp \<Rightarrow> attempt list \<Rightarrow> unit go option" where
  "connectWithRetry deadline [] = None"
| "connectWithRetry deadline (a # as) =
     (case at_error a of
        None \<Rightarrow> Some (Inr ())
      | Some e \<Rightarrow>
          if deadline < at_now a then Some (Inl e)
          else if at_cancelled a then Some (Inl GoError)
          else connectWithRetry deadline as)"

text \<open>
  \<open>run\<close> up to the listening server: the key, the connection, the migrations, the issuer and the handlers;
  each error ends it.
\<close>

definition run_setup :: "crypto \<Rightarrow> pem_lib \<Rightarrow> environment \<Rightarrow> unit go \<Rightarrow> unit go \<Rightarrow> string \<Rightarrow> server go" where
  "run_setup C K env connection migrated dummyHash =
     (case loadOrCreateKey K (go_env env ''AUTH_PRIVATE_KEY_FILE'' []) of
        Inl e \<Rightarrow> Inl e
      | Inr key \<Rightarrow>
          (case connection of
             Inl e \<Rightarrow> Inl e
           | Inr _ \<Rightarrow>
               (case migrated of
                  Inl e \<Rightarrow> Inl e
                | Inr _ \<Rightarrow>
                    (let issuer = NewIssuer C key (go_env env ''AUTH_ISSUER'' ''http://auth:8080'')
                                    (go_env env ''AUTH_AUDIENCE'' ''django-flask-kafka'') (accessTTL env)
                     in Inr (New C issuer (refreshTTL env) dummyHash)))))"

text \<open>Once an attempt succeeds before the deadline, the service is connected; the number of failures before it is bounded by the deadline only.\<close>

lemma connectWithRetry_succeeds:
  assumes "list_all (\<lambda>a. \<not> deadline < at_now a \<and> \<not> at_cancelled a) as" "at_error a = None"
  shows "connectWithRetry deadline (as @ a # rest) = Some (Inr ())"
  using assms by (induction as) (auto split: option.splits)

lemma connectWithRetry_gives_up:
  "connectWithRetry deadline as = Some (Inl e) \<Longrightarrow> list_ex (\<lambda>a. deadline < at_now a \<or> at_cancelled a) as"
  by (induction as) (auto split: option.splits if_splits)

text \<open>The clock does not go back, and a second passes after each failed attempt.\<close>

fun paced :: "timestamp \<Rightarrow> attempt list \<Rightarrow> bool" where
  "paced earliest [] = True"
| "paced earliest (a # as) = (earliest \<le> at_now a \<and> paced (Timestamp (micros (at_now a) + 1000000)) as)"

text \<open>The attempt that ends the loop, and what it returns.\<close>

definition ends_at :: "timestamp \<Rightarrow> attempt list \<Rightarrow> nat \<Rightarrow> unit go \<Rightarrow> bool" where
  "ends_at deadline as i r \<longleftrightarrow> i < length as
     \<and> list_all (\<lambda>a. at_error a \<noteq> None \<and> at_now a \<le> deadline \<and> \<not> at_cancelled a) (take i as)
     \<and> (case at_error (as ! i) of
          None \<Rightarrow> r = Inr ()
        | Some e \<Rightarrow> deadline < at_now (as ! i) \<and> r = Inl e
            \<or> at_now (as ! i) \<le> deadline \<and> at_cancelled (as ! i) \<and> r = Inl GoError)"

lemma connectWithRetry_ends:
  assumes "paced t as" "micros deadline < micros t + int n * 1000000" "n < length as"
  shows "\<exists>i\<le>n. \<exists>r. connectWithRetry deadline as = Some r \<and> ends_at deadline as i r"
  using assms
proof (induction as arbitrary: t n)
  case (Cons a as)
  show ?case
  proof (cases "at_error a = None \<or> deadline < at_now a \<or> at_cancelled a")
    case True
    then have "\<exists>r. connectWithRetry deadline (a # as) = Some r \<and> ends_at deadline (a # as) 0 r"
      by (cases "at_error a"; cases "deadline < at_now a") (simp_all add: ends_at_def not_less)
    then show ?thesis by blast
  next
    case False
    have "n \<noteq> 0"
      using Cons.prems(1,2) False by (cases deadline; cases t; cases "at_now a") auto
    then obtain m where n: "n = Suc m" by (cases n) auto
    have "micros deadline < micros (Timestamp (micros (at_now a) + 1000000)) + int m * 1000000"
      using Cons.prems(1,2) n by (cases t; cases "at_now a") auto
    from Cons.IH[OF _ this] Cons.prems(1,3) n
    obtain i r where i: "i \<le> m" "connectWithRetry deadline as = Some r" "ends_at deadline as i r" by auto
    then have "connectWithRetry deadline (a # as) = Some r \<and> ends_at deadline (a # as) (Suc i) r"
      using False by (auto simp: ends_at_def split: option.splits)
    with i(1) n show ?thesis by blast
  qed
qed simp

text \<open>
  C16: Waiting for the database ends. \<open>run\<close> gives \<open>connectWithRetry\<close> thirty seconds; whatever the attempts
  give, it returns with one of the first 32: with a connection at the first attempt that succeeds,
  with the error of the first failure after the deadline, or with the error of the context when that
  is done during a pause.
\<close>

theorem connectWithRetry_returns:
  assumes "paced start attempts" "deadline = Timestamp (micros start + 30 * 1000000)" "32 \<le> length attempts"
  shows "\<exists>i<32. \<exists>r. connectWithRetry deadline attempts = Some r \<and> ends_at deadline attempts i r"
proof -
  have "micros deadline < micros start + int 31 * 1000000" by (simp add: assms(2))
  from connectWithRetry_ends[OF assms(1) this] assms(3)
  obtain i r where "i \<le> 31" "connectWithRetry deadline attempts = Some r" "ends_at deadline attempts i r" by auto
  then show ?thesis by (intro exI[of _ i] conjI exI[of _ r]) simp_all
qed

fun refused_attempts :: "nat \<Rightarrow> int \<Rightarrow> attempt list" where
  "refused_attempts 0 t = []"
| "refused_attempts (Suc n) t =
     \<lparr>at_error = Some GoError, at_now = Timestamp t, at_cancelled = False\<rparr> # refused_attempts n (t + 1000000)"

lemma refused_attempts_simps: "paced (Timestamp t) (refused_attempts n t)" "length (refused_attempts n t) = n"
  by (induction n arbitrary: t) auto

theorem connectWithRetry_returns_witness:
  "\<exists>i<32. \<exists>r. connectWithRetry (Timestamp 30000000) (refused_attempts 40 0) = Some r
    \<and> ends_at (Timestamp 30000000) (refused_attempts 40 0) i r"
  by (rule connectWithRetry_returns[OF refused_attempts_simps(1)]) (simp_all add: refused_attempts_simps(2))

lemma Atoi_show_nat: "n < 2 ^ 63 \<Longrightarrow> Atoi (show_nat n) = Some (int n)"
proof -
  assume n: "n < 2 ^ 63"
  have "list_all is_digit (show_nat n)" using show_nat_digits by (auto simp: list_all_iff)
  moreover have "\<not> starts_with ''-'' (show_nat n)" "\<not> starts_with ''+'' (show_nat n)"
    using show_nat_Cons[of n] by (auto simp: starts_with_def is_digit_def code_def)
  ultimately show ?thesis using n by (simp add: Atoi_def Let_def show_nat_ne)
qed

lemma run_setup_issuer:
  "run_setup C K env connection migrated dummy = Inr S \<Longrightarrow>
    is_access_ttl (sv_issuer S) = (if sint (accessTTL env) \<le> 0 then DefaultAccessTTL else accessTTL env)"
  by (auto simp: run_setup_def Let_def New_def NewIssuer_def split: sum.splits)

lemma accessTTL_set: "env ''ACCESS_TTL_SECONDS'' = Some (show_nat n) \<Longrightarrow> 1 \<le> n \<Longrightarrow> n < 2 ^ 63 \<Longrightarrow> accessTTL env = seconds (int n)"
  by (simp add: accessTTL_def Getenv_def Atoi_show_nat)

text \<open>A key file that any path gives.\<close>

definition plain_key_lib :: pem_lib where
  "plain_key_lib = \<lparr>ReadFile = (\<lambda>_. Inl GoError), pem_decode = (\<lambda>_. None), parse_pkcs8 = (\<lambda>_. Inl GoError),
     parse_pkcs1 = (\<lambda>_. Inl GoError), GenerateKey = Inr sample_key\<rparr>"

text \<open>
  C25: The lifetime of access tokens is the configured one, and the reply does not say so. With a number of
  seconds up to 9223372036 in ACCESS_TTL_SECONDS, tokens expire that many seconds after the second they
  were issued in; the reply to a login or refresh gives 900 seconds whatever the setting.
\<close>

theorem expires_in_ignores_the_setting:
  assumes "env ''ACCESS_TTL_SECONDS'' = Some (show_nat n)" "1 \<le> n" "n \<le> 9223372036"
    and "run_setup C K env connection migrated dummy = Inr S"
    and "issueTokens L S c k userID email db = (Some (Response 200 (JObj kvs)), db')"
  shows "ExpiresAt (access_claims (sv_issuer S) tokenID userID email now) = Some (NewNumericDate now + int n)
    \<and> map_of kvs ''expires_in'' = Some (JInt 900)"
proof
  have ttl: "accessTTL env = seconds (int n)" using assms(1-3) by (intro accessTTL_set) auto
  have "0 < sint (seconds (int n))" using sint_seconds[of "int n"] assms(2,3) by simp
  then have "is_access_ttl (sv_issuer S) = seconds (int n)" using run_setup_issuer[OF assms(4)] by (simp add: ttl)
  then show "ExpiresAt (access_claims (sv_issuer S) tokenID userID email now) = Some (NewNumericDate now + int n)"
    using NewNumericDate_add[of "int n" now] assms(3) by (simp add: access_claims_def)
  have "sint DefaultAccessTTL div 1000000000 = 900" using sint_seconds[of 900] by (simp add: DefaultAccessTTL_def)
  with assms(5) show "map_of kvs ''expires_in'' = Some (JInt 900)"
    by (auto simp: issueTokens_def Let_def fail_def writeError_def writeJSON_def split: sum.splits prod.splits if_splits)
qed

theorem expires_in_ignores_the_setting_witness:
  "\<exists>S kvs. run_setup plain_crypto plain_key_lib [''ACCESS_TTL_SECONDS'' \<mapsto> show_nat 60] (Inr ()) (Inr ()) ''none'' = Inr S
    \<and> fst (issueTokens plain_auth_lib S (sample_call ''x'' ''raw'') 0 ''u1'' ''Ann@x.org'' sample_auth_db) = Some (Response 200 (JObj kvs))
    \<and> ExpiresAt (access_claims (sv_issuer S) token_uuid ''u1'' ''Ann@x.org'' (numeric_time 1000)) = Some 1060
    \<and> map_of kvs ''expires_in'' = Some (JInt 900)"
proof -
  let ?env = "[''ACCESS_TTL_SECONDS'' \<mapsto> show_nat 60]"
  obtain S where S: "run_setup plain_crypto plain_key_lib ?env (Inr ()) (Inr ()) ''none'' = Inr S"
    by (simp add: run_setup_def loadOrCreateKey_def go_env_def Getenv_def plain_key_lib_def Let_def)
  obtain access where access: "IssueAccess plain_crypto (sv_issuer S) token_uuid ''u1'' ''Ann@x.org'' (numeric_time 1000) = Inr (access, token_uuid)"
    by (simp add: IssueAccess_def plain_crypto_def)
  let ?raw = "raw_encode url_alphabet ''raw''"
  have "HashRefreshToken plain_crypto ?raw \<noteq> ''aa''"
  proof
    assume "HashRefreshToken plain_crypto ?raw = ''aa''"
    then have "length (hex_encode ?raw) = 2" by (simp add: HashRefreshToken_def plain_crypto_def)
    moreover have "length (hex_encode ?raw) = 8" by (simp add: length_hex_encode raw_encode_def)
    ultimately show False by simp
  qed
  then have new: "HashRefreshToken (lib_crypto plain_auth_lib) ?raw \<notin> rf_token_hash ` set (adb_refresh sample_auth_db)"
    by (simp add: sample_auth_db_def)
  let ?kvs = "[(''access_token'', JStr access), (''expires_in'', JInt 900), (''refresh_token'', JStr ?raw), (''token_type'', JStr ''Bearer'')]"
  have "\<exists>db'. issueTokens plain_auth_lib S (sample_call ''x'' ''raw'') 0 ''u1'' ''Ann@x.org'' sample_auth_db = (Some (Response 200 (JObj ?kvs)), db')"
    using access new by (subst issueTokens_reply[where access = access and i = token_uuid and raw = "''raw''"])
      (simp_all add: sample_auth_db_def writeJSON_def)
  then obtain db' where reply: "issueTokens plain_auth_lib S (sample_call ''x'' ''raw'') 0 ''u1'' ''Ann@x.org'' sample_auth_db
      = (Some (Response 200 (JObj ?kvs)), db')" by blast
  have env: "?env ''ACCESS_TTL_SECONDS'' = Some (show_nat 60)" by simp
  from expires_in_ignores_the_setting[OF env _ _ S reply, of token_uuid "numeric_time 1000"] S reply show ?thesis
    by (intro exI[of _ S] exI[of _ ?kvs]) simp
qed

text \<open>One second more, and the product in nanoseconds is negative: the setting is dropped without a word.\<close>

lemma huge_lifetime_is_dropped:
  assumes "env ''ACCESS_TTL_SECONDS'' = Some (show_nat 9223372037)" "run_setup C K env connection migrated dummy = Inr S"
  shows "is_access_ttl (sv_issuer S) = DefaultAccessTTL"
proof -
  have "accessTTL env = seconds 9223372037" using accessTTL_set[of env 9223372037] assms(1) by simp
  moreover have "sint (seconds 9223372037) \<le> 0" by (simp add: seconds_def)
  ultimately show ?thesis using run_setup_issuer[OF assms(2)] by simp
qed

end
