(* ===== verification/Access.thy ===== *)
theory Access
  imports AuthRelay RelatedAuth Revocations
begin

section \<open>From the auth service to the services that trust it\<close>

text \<open>
  The auth service signs tokens and announces revocations; the two Python services verify the tokens and
  keep denylists. This theory puts them together: what PyJWT documents of tokens that golang-jwt signed,
  what both services then do with an issued token, and the way of a revocation from POST /revoke through
  outbox, relay and Kafka into both denylists.
\<close>

subsection \<open>What PyJWT and Django document\<close>

text \<open>
  A key of the key set denotes a public key. PyJWKClient finds the key of the kid of a token in the key set
  (\<open>key_text\<close> stands for it); \<open>decode\<close> with a key that denotes the one the token was signed with gives the
  claims, if issuer and audience are right, the required claims are there and the clock is between
  \<open>nbf\<close>, \<open>iat\<close> and \<open>exp\<close>.
\<close>

definition key_text :: "jwk \<Rightarrow> string" where
  "key_text k = jwk_N k @ ''.'' @ jwk_E k"

definition denotes :: "jwk \<Rightarrow> rsa_public \<Rightarrow> bool" where
  "denotes k pub \<longleftrightarrow> map_option bytes_nat (raw_decode url_alphabet (jwk_N k)) = Some (rsa_N pub)
     \<and> map_option bytes_nat (raw_decode url_alphabet (jwk_E k)) = Some (unat (rsa_E pub))"

definition claim_at :: "Claims \<Rightarrow> string \<Rightarrow> json option" where
  "claim_at cl name = (case claims_json cl of JObj kvs \<Rightarrow> map_of kvs name | _ \<Rightarrow> None)"

definition issued_before :: "timestamp \<Rightarrow> Claims \<Rightarrow> bool" where
  "issued_before now cl \<longleftrightarrow> (case IssuedAt cl of None \<Rightarrow> True | Some n \<Rightarrow> numeric_time n \<le> now)"

definition pyjwt_interop :: "crypto \<Rightarrow> jwt_lib \<Rightarrow> issuer \<Rightarrow> timestamp \<Rightarrow> bool" where
  "pyjwt_interop C J I now \<longleftrightarrow>
     (\<forall>cl token client. sign_rs256 C (is_key I) (is_key_id I) cl = Inr token \<longrightarrow>
        (\<forall>k\<in>set (PublicJWKS I). Kid k = is_key_id I \<longrightarrow> get_signing_key_from_jwt J client token = Inr (key_text k)))
   \<and> (\<forall>cl token k iss aud req. sign_rs256 C (is_key I) (is_key_id I) cl = Inr token \<longrightarrow> ascii_claims cl \<longrightarrow>
        denotes k (public_key (is_key I)) \<longrightarrow> valid_at iss aud now cl \<longrightarrow> issued_before now cl \<longrightarrow>
        (\<forall>r\<in>set req. claim_at cl r \<noteq> None) \<longrightarrow> jwt_decode J token (key_text k) [''RS256''] aud iss req = Inr (claims_json cl))"

lemma claims_json_JObj: "\<exists>kvs. claims_json cl = JObj kvs \<and> map_of kvs = claim_at cl"
proof -
  obtain kvs where "claims_json cl = JObj kvs" by (simp add: claims_json_def Let_def)
  then show ?thesis by (simp add: claim_at_def fun_eq_iff)
qed

text \<open>The services are set up for this issuer, and the exponent of its key fits the key set.\<close>

definition trusts :: "auth_settings \<Rightarrow> issuer \<Rightarrow> bool" where
  "trusts A I \<longleftrightarrow> AUTH_ISSUER A = is_issuer I \<and> AUTH_AUDIENCE A = is_audience I \<and> unat (rsa_E (public_key (is_key I))) < 2 ^ 24"

text \<open>Django's \<open>parse_datetime\<close> reads RFC 3339 with whole seconds and a Z.\<close>

definition reads_rfc3339 :: "revocation_lib \<Rightarrow> bool" where
  "reads_rfc3339 P \<longleftrightarrow> (\<forall>n. 0 \<le> n + unix_epoch \<longrightarrow> numeric_time n < year_10000 \<longrightarrow>
     parse_datetime P (format_rfc3339 (numeric_time n)) = Inr (Some (numeric_time n)))"

subsection \<open>An issued token\<close>

lemma bearer_token_compact:
  assumes "compact_token token" shows "bearer_token (Some (''Bearer '' @ token)) = Some token"
proof -
  have ns: "\<not> is_space c" if "c \<in> set token" for c
    using compact_printable[OF assms that] by (auto simp: is_space_def)
  have hd: "dropWhile is_space s = s" if "set s \<subseteq> set token" for s
    using that ns by (cases s) auto
  have strip: "py_strip token = token" by (simp add: py_strip_def hd)
  have "map lower_char ''Bearer '' = ''bearer ''" by code_simp
  then have "py_lower (''Bearer '' @ token) = ''bearer '' @ py_lower token" unfolding py_lower_def by simp
  then have "starts_with ''bearer '' (py_lower (''Bearer '' @ token))" by (simp add: starts_with_def)
  then show ?thesis by (simp add: bearer_token_def strip)
qed

lemma bearer_token_head:
  "bearer_token (Some h) = Some token \<Longrightarrow> starts_with ''bearer '' (py_lower h) \<and> py_strip (drop 7 h) = token"
  by (simp add: bearer_token_def split: if_split_asm)

lemma access_claims_json:
  assumes "issuable I tokenID userID email"
  shows "claim_at (access_claims I tokenID userID email issued) ''sub'' = Some (JStr userID)"
    "claim_at (access_claims I tokenID userID email issued) ''jti'' = Some (JStr tokenID)"
    "claim_at (access_claims I tokenID userID email issued) ''email'' = Some (JStr email)"
    "claim_at (access_claims I tokenID userID email issued) ''exp'' \<noteq> None"
  using assms is_uuid_ascii
  by (auto simp: claim_at_def claims_json_def access_claims_def issuable_def Let_def fun_eq_iff)

text \<open>From its issue to its expiry, both services read the claims out of an issued token.\<close>

lemma verify_issued:
  assumes "pyjwt_interop C J I now" "trusts A I"
    and "IssueAccess C I tokenID userID email issued = Inr (token, i)" "issuable I tokenID userID email"
    and "NewNumericDate issued \<le> NewNumericDate now" "now < numeric_time (NewNumericDate (add_duration issued (is_access_ttl I)))"
  shows "verify J A client token = Inr (claims_json (access_claims I tokenID userID email issued))"
proof -
  let ?cl = "access_claims I tokenID userID email issued"
  have sign: "sign_rs256 C (is_key I) (is_key_id I) ?cl = Inr token" using IssueAccess_Inr[OF assms(3)] by simp
  obtain k where k: "PublicJWKS I = [k]" "Kid k = is_key_id I" "denotes k (public_key (is_key I))"
    using assms(2) by (auto simp: PublicJWKS_def Let_def denotes_def trusts_def raw_decode_encode bytes_nat_bytes bytes_nat_bigEndian)
  have "get_signing_key_from_jwt J client token = Inr (key_text k)"
    using assms(1) sign k unfolding pyjwt_interop_def by (metis list.set_intros(1))
  moreover have "jwt_decode J token (key_text k) [''RS256''] (is_audience I) (is_issuer I) [''exp'', ''sub'', ''jti''] = Inr (claims_json ?cl)"
  proof -
    have "valid_at (is_issuer I) (is_audience I) now ?cl" using assms(5,6) by (simp add: access_claims_valid)
    moreover have "issued_before now ?cl" using assms(5) by (simp add: issued_before_def access_claims_def numeric_time_le)
    moreover have "\<forall>r\<in>set [''exp'', ''sub'', ''jti'']. claim_at ?cl r \<noteq> None" using access_claims_json[OF assms(4)] by auto
    ultimately show ?thesis
      using assms(1) sign k(3) access_claims_ascii[OF assms(4)] unfolding pyjwt_interop_def by blast
  qed
  ultimately show ?thesis using assms(2) by (simp add: verify_def trusts_def)
qed

subsection \<open>A revocation on its way\<close>

lemma revocation_read_by_related:
  assumes "is_uuid k" "is_uuid u" "0 \<le> n + unix_epoch" "numeric_time n < year_10000"
  shows "event_revocation R (revocation_payload k u (numeric_time n)) = Some (k, u, numeric_time n)"
proof -
  have "fromisoformat (iso_other R) (replace_char (CHR ''Z'') ''+00:00'' (format_rfc3339 (numeric_time n)))
      = Inr \<lparr>wall = numeric_time n, utcoffset = Some 0\<rparr>"
    using fromisoformat_format[of "numeric_time n"] assms(3,4) by (simp add: numeric_time_def)
  then show ?thesis
    using assms(1,2) is_uuid_ascii by (simp add: event_revocation_def revocation_payload_def bind_text_def)
qed

lemma revocation_read_by_posts:
  assumes "reads_rfc3339 P" "is_uuid k" "is_uuid u" "0 \<le> n + unix_epoch" "numeric_time n < year_10000"
  shows "revocation_of P (revocation_payload k u (numeric_time n)) = Some (k, u, numeric_time n)"
proof -
  have "parse_datetime P (format_rfc3339 (numeric_time n)) = Inr (Some (numeric_time n))"
    using assms(1,4,5) by (simp add: reads_rfc3339_def)
  then show ?thesis
    using is_uuid_ascii[OF assms(2)] is_uuid_ascii[OF assms(3)]
    by (simp add: revocation_of_def revocation_payload_def parse_expiry_def)
qed

subsection \<open>A denied token\<close>

text \<open>What the denylists of the two services decide about a token that verifies.\<close>

lemma denied_is_refused:
  assumes "decode_law J" "is_denied P db k" "bearer_token h = Some token" "token \<noteq> []"
    and "verify J A (fst (jwk_client_of A cache)) token = Inr (JObj kvs)" "map_of kvs ''jti'' = Some (JStr k)"
  shows "fst (authenticate J A db h cache) = Inl (AuthenticationFailed ''token has been revoked'')"
proof -
  have "is_revoked (jwt_str J) db (JStr k)" using assms(2) by (simp add: is_denied_def is_revoked_def split: if_splits)
  then show ?thesis
    using assms(3-6) by (cases rule: authenticate_cases[OF assms(1), of h A db cache]) auto
qed

lemma posts_refuses_revoked:
  assumes "decode_law J" "parse_datetime_law P" "denylist_inv expiry db"
    and "\<forall>(now, x)\<in>set xs. revokes_honestly P expiry x \<and> now < expiry k" "\<exists>(now, x)\<in>set xs. k \<in> revokes P x"
    and "bearer_token h = Some token" "token \<noteq> []"
    and "verify J A (fst (jwk_client_of A cache)) token = Inr (JObj kvs)" "map_of kvs ''jti'' = Some (JStr k)"
  shows "fst (authenticate J A (fold (\<lambda>(now, x). revocation_step P now x) xs db) h cache)
    = Inl (AuthenticationFailed ''token has been revoked'')"
proof -
  let ?db = "fold (\<lambda>(now, x). revocation_step P now x) xs db"
  have "is_denied P ?db k"
    using posts_denylist.denied_iff_revoked[of expiry db xs P k] assms(2-5) by (simp add: lawful_id)
  from denied_is_refused[OF assms(1) this assms(6-9)] show ?thesis .
qed

lemma related_refuses_revoked:
  assumes "decode_law J" "related_denylist_inv expiry db"
    and "\<forall>(now, payload)\<in>set xs. event_honest R expiry payload \<and> now < expiry k" "\<exists>(now, payload)\<in>set xs. k \<in> revokes_event R payload"
    and "bearer_token h = Some token"
    and "verify J A (fst (jwk_client_of A cache)) token = Inr (JObj kvs)" "map_of kvs ''jti'' = Some (JStr k)"
  shows "fst (requires_auth J R A (fold (\<lambda>(now, payload). token_revoked R now payload) xs db) view h cache)
    = Inr (Response 401 (Inl (''error'', ''token has been revoked'')))"
proof -
  let ?db = "fold (\<lambda>(now, payload). token_revoked R now payload) xs db"
  have "refuses R ?db k"
    using related_denylist.denied_iff_revoked[of expiry db xs R k] assms(2-4) by simp
  then have "row_at rt_token_id k (rdb_revoked ?db) \<noteq> None" by (simp add: refuses_def)
  with requires_auth_outcome[OF assms(1,5,6), of R ?db view] assms(7) show ?thesis by simp
qed

subsection \<open>A revocation reaches the log\<close>

text \<open>After POST /revoke and good ticks of the relay, the log has a record with the payload of the revocation.\<close>

lemma revocation_reaches_the_log:
  assumes "adb_outbox db' = adb_outbox db @ [e]" "o_published_at e = None" "distinct (map o_id (adb_outbox db'))"
    and "list_all good_tick (until_done ts)" "length (unpublished (adb_outbox db)) < length (until_done ts)"
  shows "kafka_message e \<in> set (ar_log (relay_Run ts \<lparr>ar_db = db', ar_log = log0\<rparr>))"
proof -
  let ?st = "\<lparr>ar_db = db', ar_log = log0\<rparr>"
  have pending: "auth_pending ?st = map kafka_message (unpublished (adb_outbox db)) @ [kafka_message e]"
    using assms(1,2) by (simp add: auth_pending_def unpublished_def)
  have "set (auth_pending ?st) \<subseteq> set (ar_log (fold relay_tick (until_done ts) ?st))"
    using assms(3-5) by (intro auth_outbox.drained_and_sent) (simp_all add: auth_relay_inv_def list_all_iff pending)
  then show ?thesis
    by (simp add: pending relay_Run_fold relay_tick_def[abs_def])
qed

subsection \<open>What holds of tokens across the services\<close>

text \<open>Libraries to evaluate on: they read what the sample crypto of the auth service signs, at the second 1100.\<close>

definition sample_pyjwt :: jwt_lib where
  "sample_pyjwt =
     \<lparr>get_signing_key_from_jwt = (\<lambda>_ _. Inr (key_text (hd (PublicJWKS (sv_issuer sample_server))))),
      jwt_decode = (\<lambda>token _ _ aud iss req.
        case plain_parse (\<lambda>_. Inr (public_key sample_key)) iss aud (numeric_time 1100) token of
          Inl _ \<Rightarrow> Inl (PyJWTError ''refused'')
        | Inr cl \<Rightarrow> if list_all (\<lambda>r. claim_at cl r \<noteq> None) req then Inr (claims_json cl) else Inl (PyJWTError ''missing claim_at'')),
      jwt_str = (\<lambda>_. [])\<rparr>"

lemma sample_issuer_key [simp]: "is_key (sv_issuer sample_server) = sample_key" "is_key_id (sv_issuer sample_server) = KeyID plain_crypto (public_key sample_key)"
  "is_issuer (sv_issuer sample_server) = ''http://auth:8080''" "is_audience (sv_issuer sample_server) = ''django-flask-kafka''"
  by (simp_all add: sample_server_def New_def NewIssuer_def)

lemma sample_trusted [simp]: "trusts plain_auth (sv_issuer sample_server)"
  by (simp add: trusts_def plain_auth_def auth_settings_of_def getenv_def sample_key_def)


lemma sample_decode_law [simp]: "decode_law sample_pyjwt"
proof -
  have "\<exists>kvs. claims_json cl = JObj kvs \<and> (\<forall>k\<in>set req. map_of kvs k \<noteq> None)" if "list_all (\<lambda>r. claim_at cl r \<noteq> None) req" for cl req
    using claims_json_JObj[of cl] that by (auto simp: list_all_iff)
  then show ?thesis
    by (auto simp: decode_law_def sample_pyjwt_def split: sum.splits if_splits)
qed

lemma sample_interop [simp]: "pyjwt_interop plain_crypto sample_pyjwt (sv_issuer sample_server) (numeric_time 1100)"
proof -
  have parse: "plain_parse (\<lambda>_. Inr (public_key sample_key)) iss aud now token = Inr cl"
    if "sign_rs256 plain_crypto sample_key kid cl = Inr token" "ascii_claims cl" "valid_at iss aud now cl" for kid cl token iss aud now
    using jwt_lawD(2)[OF plain_jwt_law that(1,2), of "\<lambda>_. Inr (public_key sample_key)"] that(3) by (simp add: plain_crypto_def)
  have "\<forall>k\<in>set (PublicJWKS (sv_issuer sample_server)). k = hd (PublicJWKS (sv_issuer sample_server))"
    by (simp add: PublicJWKS_def Let_def)
  then show ?thesis
    unfolding pyjwt_interop_def sample_issuer_key by (auto simp: sample_pyjwt_def parse list_all_iff)
qed

definition iso_revocation_lib :: revocation_lib where
  "iso_revocation_lib =
     \<lparr>parse_datetime = (\<lambda>s. case fromisoformat (\<lambda>_. None) (replace_char (CHR ''Z'') ''+00:00'' s) of
        Inl _ \<Rightarrow> Inr None | Inr d \<Rightarrow> Inr (Some (wall d))), str_of = (\<lambda>_. ''?'')\<rparr>"

lemma iso_revocation_laws [simp]: "parse_datetime_law iso_revocation_lib" "reads_rfc3339 iso_revocation_lib"
  using fromisoformat_format
  by (auto simp: parse_datetime_law_def reads_rfc3339_def iso_revocation_lib_def numeric_time_def split: sum.splits)

text \<open>
  C11: A token from the auth service opens both services. From the second it was issued in until it expires,
  the posts service takes the user and the address that it was issued for as the caller, and a protected
  view of the related service runs for them, unless the token is on the denylist of the service.
\<close>

theorem issued_token_opens_both_services:
  assumes "jwt_law C" "decode_law J" "pyjwt_interop C J I now" "trusts A I"
    and "IssueAccess C I tokenID userID email issued = Inr (token, i)" "issuable I tokenID userID email"
    and "NewNumericDate issued \<le> NewNumericDate now" "now < numeric_time (NewNumericDate (add_duration issued (is_access_ttl I)))"
    and "\<not> is_revoked (jwt_str J) pdb (JStr tokenID)" "row_at rt_token_id tokenID (rdb_revoked rdb) = None"
  shows "fst (authenticate J A pdb (Some (''Bearer '' @ token)) cache)
      = Inr (Some (\<lparr>tu_id = JStr userID, tu_email = JStr email, tu_token_id = JStr tokenID\<rparr>, token))
    \<and> fst (requires_auth J R A rdb view (Some (''Bearer '' @ token)) cache') = view \<lparr>g_user_id = JStr userID, g_email = JStr email\<rparr>"
proof
  have compact: "compact_token token" using jwt_lawD(1)[OF assms(1)] IssueAccess_Inr[OF assms(5)] by blast
  then have ne: "token \<noteq> []" by (simp add: compact_token_def)
  note bearer = bearer_token_compact[OF compact]
  obtain kvs where kvs: "claims_json (access_claims I tokenID userID email issued) = JObj kvs"
    "map_of kvs = claim_at (access_claims I tokenID userID email issued)"
    using claims_json_JObj by blast
  note jc = access_claims_json[OF assms(6), of issued, folded kvs(2)]
  have v: "verify J A client token = Inr (JObj kvs)" for client
    using verify_issued[OF assms(3-8)] kvs(1) by simp
  have head: "starts_with ''bearer '' (py_lower (''Bearer '' @ token))" "py_strip (drop 7 (''Bearer '' @ token)) = token"
    using bearer_token_head[OF bearer] by blast+
  show "fst (authenticate J A pdb (Some (''Bearer '' @ token)) cache)
      = Inr (Some (\<lparr>tu_id = JStr userID, tu_email = JStr email, tu_token_id = JStr tokenID\<rparr>, token))"
    unfolding authenticate_def option.case Let_def head using ne assms(9) jc(1-3) head(1)
    by (simp only: if_True if_False not_True_eq_False) (simp add: case_prod_beta v)
  show "fst (requires_auth J R A rdb view (Some (''Bearer '' @ token)) cache') = view \<lparr>g_user_id = JStr userID, g_email = JStr email\<rparr>"
    using requires_auth_outcome[OF assms(2) bearer v, of R rdb view] assms(10) jc(1-3) by simp
qed

theorem issued_token_opens_both_services_witness:
  "\<exists>token. fst (authenticate sample_pyjwt plain_auth empty_posts_db (Some (''Bearer '' @ token)) None)
      = Inr (Some (\<lparr>tu_id = JStr user_uuid, tu_email = JStr ''Ann@x.org'', tu_token_id = JStr token_uuid\<rparr>, token))
    \<and> fst (requires_auth sample_pyjwt plain_related_lib plain_auth empty_related_db (\<lambda>g. Inr (Response 200 (Inr (g_email g))))
          (Some (''Bearer '' @ token)) None) = Inr (Response 200 (Inr (JStr ''Ann@x.org'')))"
proof -
  obtain token where token: "IssueAccess plain_crypto (sv_issuer sample_server) token_uuid user_uuid ''Ann@x.org'' (numeric_time 1000) = Inr (token, token_uuid)"
    using sample_issued by blast
  have "\<not> is_revoked (jwt_str sample_pyjwt) empty_posts_db (JStr token_uuid)"
    "row_at rt_token_id token_uuid (rdb_revoked empty_related_db) = None"
    by (simp_all add: is_revoked_def empty_posts_db_def empty_related_db_def)
  from issued_token_opens_both_services[OF plain_jwt_law sample_decode_law sample_interop sample_trusted token sample_issuable _ _ this,
      where view = "\<lambda>g. Inr (Response 200 (Inr (g_email g)))" and R = plain_related_lib and cache = None and cache' = None]
  show ?thesis using sample_ttl by auto
qed

end
