(* ===== verification/RevocationConsumer.thy ===== *)
theory RevocationConsumer
  imports RelatedAuth Pipeline
begin

section \<open>Revocations in the consumer of the related service (services/related/consumer.py, jwtauth.py)\<close>

text \<open>
  The consumer of the related service with everything that can happen to it (\<open>consumer_step\<close>), seen from
  the token check: what the rows of the denylist are worth after rounds, failures, lost commits, crashes
  and second deliveries, and what \<open>requires_auth\<close> answers.
\<close>

subsection \<open>The process until an instant\<close>

text \<open>
  A step either leaves the database alone or applies a record of the log; then the clock of the process,
  which also decides which expired rows go, reads less than \<open>t\<close>.
\<close>

definition dated_before :: "related_lib \<Rightarrow> timestamp \<Rightarrow> consumer \<Rightarrow> consumer \<Rightarrow> bool" where
  "dated_before L t c c' \<longleftrightarrow> c_db c' = c_db c \<or>
     (\<exists>tp. \<exists>m\<in>set (c_log c tp). \<exists>now. now < t \<and> handle L now Works m (c_db c) = (Inr True, c_db c'))"

inductive reached_before :: "related_lib \<Rightarrow> timestamp \<Rightarrow> consumer \<Rightarrow> bool" for L t where
  start: "reached_before L t (new_consumer empty_related_db)"
| step: "reached_before L t c \<Longrightarrow> consumer_step L c c' \<Longrightarrow> dated_before L t c c' \<Longrightarrow> reached_before L t c'"

lemma reached_before_reachable: "reached_before L t c \<Longrightarrow> consumer_reachable L c"
  by (induction rule: reached_before.induct) (auto intro: consumer_reachable.intros)

text \<open>Rounds at clock readings before \<open>t\<close> are such steps.\<close>

lemma round_dated: "now < t \<Longrightarrow> dated_before L t c (consume_one L now fate tp c)"
  unfolding dated_before_def using consume_one_applies[of L now fate tp c] by blast

lemma reached_before_round:
  "reached_before L t c \<Longrightarrow> c_running c \<Longrightarrow> now < t \<Longrightarrow> reached_before L t (consume_one L now fate tp c)"
  by (rule reached_before.step[OF _ consumer_step.round round_dated])

lemma reached_before_append:
  "reached_before L t c \<Longrightarrow> reached_before L t (c\<lparr>c_log := (c_log c)(tp := c_log c tp @ [m])\<rparr>)"
  by (rule reached_before.step[OF _ consumer_step.append]) (simp_all add: dated_before_def)

lemma consumer_step_log:
  assumes "consumer_step L c c'" shows "set (c_log c tp) \<subseteq> set (c_log c' tp)"
  using assms by (rule consumer_stepE) (auto simp: stop_def restart_def)

subsection \<open>What an applied record does to the denylist\<close>

lemma handle_denylist:
  assumes inv: "related_denylist_inv issued db" and h: "handle L now Works m db = (Inr True, db')"
    and honest: "m_topic m = ''token_revoked'' \<Longrightarrow> event_honest L issued (m_value m)" and now: "now < issued k"
  shows "related_denylist_inv issued db'"
    and "refuses L db k \<Longrightarrow> refuses L db' k"
    and "m_topic m = ''token_revoked'' \<Longrightarrow> k \<in> revokes_event L (m_value m) \<Longrightarrow> \<not> applied L db m \<Longrightarrow> refuses L db' k"
proof -
  have "related_denylist_inv issued db' \<and> (refuses L db k \<longrightarrow> refuses L db' k)
    \<and> (m_topic m = ''token_revoked'' \<and> k \<in> revokes_event L (m_value m) \<and> \<not> applied L db m \<longrightarrow> refuses L db' k)"
  proof (cases rule: handle_cases[of L m now Works db])
    case skipped
    with h inv show ?thesis by simp
  next
    case (success event_id db'')
    with h have "run_handler L now event_id m db = Inr db'" by simp
    from run_handler_effect[OF this] obtain hd dbh where hd: "HANDLERS L now (m_topic m) = Some hd" "hd (m_value m) db = Inr dbh"
      and rows: "rdb_revoked db' = rdb_revoked dbh" and ok: "related_db_ok db'" by auto
    have inv': "related_denylist_inv issued db'" if "related_denylist_inv issued dbh \<or> rdb_revoked dbh = rdb_revoked db"
      using that ok inv rows by (auto simp: related_denylist_inv_def)
    show ?thesis
    proof (cases "m_topic m = ''token_revoked''")
      case True
      then have "token_revoked L now (m_value m) db = dbh"
        using hd by (simp add: HANDLERS_def token_revoked_def)
      note T = token_revoked_denylist[OF inv honest[OF True], of now, unfolded this]
      from T(1) T(3)[OF now] show ?thesis using inv' rows by (simp add: refuses_iff)
    next
      case False
      then have "rdb_revoked dbh = rdb_revoked db"
        using hd by (auto simp: HANDLERS_def split: if_splits dest: apply_created_frame apply_updated_frame apply_deleted_frame)
      with inv' rows False show ?thesis by (simp add: refuses_iff)
    qed
  qed (use h in auto)
  then show "related_denylist_inv issued db'" "refuses L db k \<Longrightarrow> refuses L db' k"
    "m_topic m = ''token_revoked'' \<Longrightarrow> k \<in> revokes_event L (m_value m) \<Longrightarrow> \<not> applied L db m \<Longrightarrow> refuses L db' k"
    by blast+
qed

subsection \<open>An applied revocation stays in force\<close>

definition honest_log :: "related_lib \<Rightarrow> (string \<Rightarrow> timestamp) \<Rightarrow> consumer \<Rightarrow> bool" where
  "honest_log L issued c \<longleftrightarrow>
     (\<forall>tp. \<forall>m\<in>set (c_log c tp). m_topic m = ''token_revoked'' \<longrightarrow> event_honest L issued (m_value m))"

text \<open>Every record under the event id \<open>u\<close> revokes the token \<open>k\<close>.\<close>

definition id_revokes :: "related_lib \<Rightarrow> consumer \<Rightarrow> string \<Rightarrow> string \<Rightarrow> bool" where
  "id_revokes L c u k \<longleftrightarrow> (\<forall>tp. \<forall>m\<in>set (c_log c tp). event_id_for L m = Inr u \<longrightarrow>
     m_topic m = ''token_revoked'' \<and> k \<in> revokes_event L (m_value m))"

lemma log_facts_earlier:
  assumes "consumer_step L c c'"
  shows "honest_log L issued c' \<Longrightarrow> honest_log L issued c" "id_revokes L c' u k \<Longrightarrow> id_revokes L c u k"
  using consumer_step_log[OF assms] unfolding honest_log_def id_revokes_def by blast+

lemma applied_revocation_in_force:
  assumes "reached_before L t c" "t \<le> issued k" "honest_log L issued c" "id_revokes L c u k"
  shows "related_denylist_inv issued (c_db c) \<and> (u \<in> set (processed_ids (c_db c)) \<longrightarrow> refuses L (c_db c) k)"
  using assms
proof (induction rule: reached_before.induct)
  case start
  show ?case
    by (simp add: new_consumer_def related_denylist_inv_def processed_ids_def) (simp add: empty_related_db_def)
next
  case (step c c')
  note IH = step.IH[OF step.prems(1) log_facts_earlier(1)[OF step.hyps(2) step.prems(2)]
      log_facts_earlier(2)[OF step.hyps(2) step.prems(3)]]
  show ?case
  proof (cases "c_db c' = c_db c")
    case False
    then obtain tp m now where m: "m \<in> set (c_log c tp)" and now: "now < t"
      and h: "handle L now Works m (c_db c) = (Inr True, c_db c')"
      using step.hyps(3) by (auto simp: dated_before_def)
    have honest: "event_honest L issued (m_value m)" if "m_topic m = ''token_revoked''"
      using log_facts_earlier(1)[OF step.hyps(2) step.prems(2)] m that unfolding honest_log_def by blast
    have before: "now < issued k" using now step.prems(1) by (rule order_less_le_trans)
    note D = handle_denylist[OF IH[THEN conjunct1] h honest before]
    have "refuses L (c_db c') k" if u: "u \<in> set (processed_ids (c_db c'))"
    proof (cases "u \<in> set (processed_ids (c_db c))")
      case True
      with IH D(2) show ?thesis by blast
    next
      case new: False
      have id: "event_id_for L m = Inr u \<and> \<not> applied L (c_db c) m"
        using h u new
        by (cases rule: handle_cases[of L m now Works "c_db c"]) (auto simp: processed_ids_def dest!: run_handler_InrD(2))
      moreover have "m_topic m = ''token_revoked'' \<and> k \<in> revokes_event L (m_value m)"
        using log_facts_earlier(2)[OF step.hyps(2) step.prems(3)] m id unfolding id_revokes_def by blast
      ultimately show ?thesis using D(3) by blast
    qed
    with D(1) show ?thesis by blast
  qed (use IH in simp)
qed

text \<open>
  \<open>ids_identify\<close>: an event id stands for one event. Two records under one id, like the two that a relay
  writes for a row it sends again, agree in topic and payload.
\<close>

definition ids_identify :: "related_lib \<Rightarrow> consumer \<Rightarrow> bool" where
  "ids_identify L c \<longleftrightarrow> (\<forall>tp tp' u. \<forall>m\<in>set (c_log c tp). \<forall>m'\<in>set (c_log c tp').
     event_id_for L m = Inr u \<and> event_id_for L m' = Inr u \<longrightarrow> m_topic m = m_topic m' \<and> m_value m = m_value m')"

lemma settled_revocation_is_refused:
  assumes "reached_before L t c" "t \<le> issued k" "honest_log L issued c" "ids_identify L c"
    and off: "off < c_committed c tp" "(tp, off) \<notin> set (c_failures c)"
    and m: "m_topic (c_log c tp ! off) = ''token_revoked''" "event_revocation L (m_value (c_log c tp ! off)) = Some (k, user, e)"
  shows "refuses L (c_db c) k"
proof -
  let ?m = "c_log c tp ! off"
  from committed_is_settled[OF reached_before_reachable[OF assms(1)] off(1)] off(2)
  have len: "off < length (c_log c tp)" and "applied L (c_db c) ?m" by auto
  then obtain u where u: "event_id_for L ?m = Inr u" "u \<in> set (processed_ids (c_db c))"
    by (auto simp: applied_iff processed_ids_def)
  have mem: "?m \<in> set (c_log c tp)" using len by simp
  have "m_topic m' = ''token_revoked'' \<and> k \<in> revokes_event L (m_value m')"
    if "m' \<in> set (c_log c tp')" "event_id_for L m' = Inr u" for tp' m'
  proof -
    have "m_topic m' = m_topic ?m \<and> m_value m' = m_value ?m"
      using assms(4) that mem u(1) unfolding ids_identify_def by blast
    with m show ?thesis by (simp add: revokes_event_def)
  qed
  then have "id_revokes L c u k" unfolding id_revokes_def by blast
  from applied_revocation_in_force[OF assms(1-3) this] u(2) show ?thesis by blast
qed

lemma refused_is_401:
  assumes "decode_law J" "refuses L db k" "bearer_token h = Some token"
    and "verify J A (fst (jwk_client_of A cache)) token = Inr (JObj kvs)" "map_of kvs ''jti'' = Some (JStr k)"
  shows "fst (requires_auth J L A db view h cache) = Inr (Response 401 (Inl (''error'', ''token has been revoked'')))"
proof -
  have "row_at rt_token_id k (rdb_revoked db) \<noteq> None" using assms(2) by (simp add: refuses_def)
  with requires_auth_outcome[OF assms(1,3,4), of L db view] assms(5) show ?thesis by simp
qed

subsection \<open>What holds of revocations in the related service\<close>

text \<open>A revocation in the log, and the consumer that has read it.\<close>

definition revocation_message :: "string \<Rightarrow> json \<Rightarrow> message" where
  "revocation_message u payload = \<lparr>m_topic = ''token_revoked'', m_partition = 0, m_offset = 0,
     m_headers = [(''event_id'', Some u)], m_value = payload\<rparr>"

definition one_revocation_log :: "string \<Rightarrow> json \<Rightarrow> consumer" where
  "one_revocation_log u payload = (new_consumer empty_related_db)\<lparr>c_log :=
     (c_log (new_consumer empty_related_db))((''token_revoked'', 0) := [revocation_message u payload])\<rparr>"

lemma one_revocation_applied:
  assumes "event_revocation L payload = Some (k, u, t)" "event_id_ok eid" "now < t" "now < bound"
  shows "let c = consume_one L now Works (''token_revoked'', 0) (one_revocation_log eid payload) in
    reached_before L bound c \<and> c_log c = c_log (one_revocation_log eid payload)
    \<and> c_committed c (''token_revoked'', 0) = 1 \<and> c_failures c = []"
proof -
  let ?c = "one_revocation_log eid payload" and ?m = "revocation_message eid payload"
  have id: "event_id_for L ?m = Inr eid"
    using assms(2) by (cases eid) (simp_all add: event_id_ok_def event_id_for_def revocation_message_def decode_bytes_def)
  have ok: "related_db_ok empty_related_db" by (simp add: related_db_ok_def empty_related_db_def)
  have run: "apply_token_revoked L now payload empty_related_db = Inr (token_revoked L now payload empty_related_db)"
    unfolding token_revoked_def apply_token_revoked_reads[OF ok assms(1)] by simp
  have ok': "related_db_ok (token_revoked L now payload empty_related_db)"
    using token_revoked_denylist(1)[of "\<lambda>_. t" empty_related_db L payload now] ok assms(1)
    by (simp add: related_denylist_inv_def event_honest_def) (simp add: empty_related_db_def)
  have handler: "HANDLERS L now (m_topic ?m) = Some (apply_token_revoked L now)"
    by (simp add: HANDLERS_def revocation_message_def)
  have "apply_token_revoked L now (m_value ?m) empty_related_db = Inr (token_revoked L now payload empty_related_db)"
    using run by (simp add: revocation_message_def)
  from handle_commits[OF handler this ok' id] obtain db' where h: "handle L now Works ?m empty_related_db = (Inr True, db')"
    using assms(2) by (auto simp: revocation_message_def event_id_ok_def processed_ids_def empty_related_db_def)
  have reach: "reached_before L bound ?c"
    using reached_before_append[OF reached_before.start, of L bound "(''token_revoked'', 0)" ?m]
    by (simp add: one_revocation_log_def new_consumer_def)
  have "c_running ?c" by (simp add: one_revocation_log_def new_consumer_def)
  note reached_before_round[OF reach this assms(4), of Works "(''token_revoked'', 0)"]
  moreover have "c_committed (consume_one L now Works (''token_revoked'', 0) ?c) (''token_revoked'', 0) = 1"
    "c_failures (consume_one L now Works (''token_revoked'', 0) ?c) = []"
    using h by (simp_all add: consume_one_def one_revocation_log_def new_consumer_def Let_def)
  ultimately show ?thesis by simp
qed

text \<open>
  C26: A revocation that the related service has read holds until the token expires. In every state that the
  consumer reaches by rounds, failed and unanswered commits, crashes, restarts and second deliveries, if
  the offset of a revocation is committed and no failure was logged for it, \<open>requires_auth\<close> answers 401
  to the token, as long as the clock of the consumer has read less than the expiry.
\<close>

theorem settled_revocation_is_401:
  assumes "decode_law J" "reached_before L t c" "t \<le> issued k" "honest_log L issued c" "ids_identify L c"
    and "off < c_committed c tp" "(tp, off) \<notin> set (c_failures c)"
    and "m_topic (c_log c tp ! off) = ''token_revoked''" "event_revocation L (m_value (c_log c tp ! off)) = Some (k, user, e)"
    and "bearer_token h = Some token" "verify J A (fst (jwk_client_of A cache)) token = Inr (JObj kvs)"
    and "map_of kvs ''jti'' = Some (JStr k)"
  shows "fst (requires_auth J L A (c_db c) view h cache) = Inr (Response 401 (Inl (''error'', ''token has been revoked'')))"
  by (rule refused_is_401[OF assms(1) settled_revocation_is_refused[OF assms(2-9)] assms(10-12)])

definition sample_revocation :: json where
  "sample_revocation = JObj [(''expires_at'', JStr ''2026-07-22T11:31:31Z''), (''token_id'', JStr ''t1''), (''user_id'', JStr ''me'')]"

lemma sample_revocation_read:
  "event_revocation plain_related_lib sample_revocation = Some (''t1'', ''me'', wall_clock 2026 7 22 11 31 31)"
  by (simp add: event_revocation_def sample_revocation_def fromisoformat_example)

theorem settled_revocation_is_401_witness:
  "let c = consume_one plain_related_lib (Timestamp 5) Works (''token_revoked'', 0) (one_revocation_log ''u1'' sample_revocation)
   in c_committed c (''token_revoked'', 0) = 1
    \<and> fst (requires_auth plain_jwt_lib plain_related_lib plain_auth (c_db c)
        (\<lambda>_. Inr (Response 200 (Inr ''secret''))) (Some ''Bearer t1'') None)
      = Inr (Response 401 (Inl (''error'', ''token has been revoked'')))"
proof -
  let ?e = "wall_clock 2026 7 22 11 31 31"
  let ?c = "consume_one plain_related_lib (Timestamp 5) Works (''token_revoked'', 0) (one_revocation_log ''u1'' sample_revocation)"
  have "Timestamp 5 < ?e" by (simp add: wall_clock_def days_before_year_def days_before_month_def)
  moreover have "event_id_ok ''u1''" by (simp add: event_id_ok_def code_def)
  ultimately have c: "reached_before plain_related_lib ?e ?c" "c_log ?c = c_log (one_revocation_log ''u1'' sample_revocation)"
    "c_committed ?c (''token_revoked'', 0) = 1" "c_failures ?c = []"
    using one_revocation_applied[OF sample_revocation_read, of "''u1''" "Timestamp 5" ?e] by (simp_all add: Let_def)
  obtain kvs where v: "verify plain_jwt_lib plain_auth (fst (jwk_client_of plain_auth None)) ''t1'' = Inr (JObj kvs)"
    "map_of kvs ''jti'' = Some (JStr ''t1'')" using plain_verify by blast
  have m: "m = revocation_message ''u1'' sample_revocation" if "m \<in> set (c_log ?c tp)" for m tp
    using that by (auto simp: c(2) one_revocation_log_def new_consumer_def split: if_splits)
  have honest: "honest_log plain_related_lib (\<lambda>_. ?e) ?c"
  proof -
    have "event_honest plain_related_lib (\<lambda>_. ?e) (m_value (revocation_message ''u1'' sample_revocation))"
      by (simp add: revocation_message_def event_honest_def sample_revocation_read)
    then show ?thesis unfolding honest_log_def using m by metis
  qed
  have ids: "ids_identify plain_related_lib ?c" unfolding ids_identify_def using m by blast
  have at: "c_log ?c (''token_revoked'', 0) ! 0 = revocation_message ''u1'' sample_revocation"
    by (simp add: c(2) one_revocation_log_def new_consumer_def)
  have "fst (requires_auth plain_jwt_lib plain_related_lib plain_auth (c_db ?c)
      (\<lambda>_. Inr (Response 200 (Inr ''secret''))) (Some ''Bearer t1'') None)
    = Inr (Response 401 (Inl (''error'', ''token has been revoked'')))"
    by (rule settled_revocation_is_401[OF plain_decode_law c(1) order_refl[of "(\<lambda>_. ?e) ''t1''"] honest ids, of 0 "(''token_revoked'', 0)",
          OF _ _ _ _ plain_bearer v])
      (simp_all only: c(3,4) at, simp_all add: revocation_message_def sample_revocation_read)
  with c(3) show ?thesis by (simp only: Let_def)
qed

end
