(* ===== verification/Logout.thy ===== *)
theory Logout
  imports Access RevocationProcess RevocationConsumer
begin

section \<open>Logging out of all services\<close>

text \<open>
  POST /revoke of the auth service followed through its database, the relay of authd, the log of the topic
  user.token.revoke and the two consumers that read it, up to what the services answer to the token.
\<close>

text \<open>What a log says of the expiry of a token agrees with when the tokens really expire.\<close>

definition log_honest :: "revocation_lib \<Rightarrow> related_lib \<Rightarrow> (string \<Rightarrow> timestamp) \<Rightarrow> kafka_record list \<Rightarrow> bool" where
  "log_honest P R expiry recs \<longleftrightarrow> (\<forall>r\<in>set recs. event_honest R expiry (k_value r)
     \<and> (case revocation_of P (k_value r) of None \<Rightarrow> True | Some (k, u, t) \<Rightarrow> t = expiry k))"

text \<open>The consumer of the posts service has committed the whole log, and no purge ran at or after \<open>t\<close>.\<close>

definition caught_up :: "revocation_lib \<Rightarrow> kafka_record list \<Rightarrow> timestamp \<Rightarrow> revocation_process \<Rightarrow> bool" where
  "caught_up P recs t s \<longleftrightarrow> process_reachable P s \<and> vp_log s = map k_value recs \<and> rc_committed (vp_state s) = length recs
     \<and> list_all (\<lambda>now. now < t) (vp_purges s)"

text \<open>
  The consumer of the related service has committed every record of the log and logged no failure for
  it, its revocations come from this log, and its clock has read less than \<open>t\<close>; an event id stands for
  one event.
\<close>

definition related_caught_up :: "related_lib \<Rightarrow> kafka_record list \<Rightarrow> timestamp \<Rightarrow> consumer \<Rightarrow> bool" where
  "related_caught_up R recs t c \<longleftrightarrow> reached_before R t c \<and> ids_identify R c
     \<and> (\<forall>tp. \<forall>m\<in>set (c_log c tp). m_topic m = ''token_revoked'' \<longrightarrow> m_value m \<in> k_value ` set recs)
     \<and> (\<forall>r\<in>set recs. \<exists>tp off. c_log c tp ! off = message_of (snd tp, off) r \<and> off < c_committed c tp
          \<and> (tp, off) \<notin> set (c_failures c))"

lemma caught_up_denies:
  assumes "parse_datetime_law P" "caught_up P recs (expiry k) s" "log_honest P R expiry recs"
    and "r \<in> set recs" "revocation_of P (k_value r) = Some (k, u, t)" "k \<noteq> []"
  shows "is_denied P (rc_db (vp_state s)) k"
proof -
  obtain off where off: "off < length recs" "recs ! off = r" using assms(4) by (metis in_set_conv_nth)
  have "t' = expiry k" if "names P (vp_log s) k t'" for t'
    using that assms(2,3) by (fastforce simp: names_def caught_up_def log_honest_def)
  then show ?thesis
    using assms(2,5,6) off
    by (intro committed_in_force[OF assms(1), of s off k u t]) (auto simp: caught_up_def list_all_iff)
qed

lemma related_caught_up_refuses:
  assumes "related_caught_up R recs t c" "t \<le> expiry k" "log_honest P R expiry recs"
    and "r \<in> set recs" "k_topic r = ''token_revoked''" "event_revocation R (k_value r) = Some (k, u, e)"
  shows "refuses R (c_db c) k"
proof -
  obtain tp off where r: "c_log c tp ! off = message_of (snd tp, off) r" "off < c_committed c tp" "(tp, off) \<notin> set (c_failures c)"
    using assms(1,4) unfolding related_caught_up_def by blast
  have "event_honest R expiry (m_value m)" if "m \<in> set (c_log c tp)" "m_topic m = ''token_revoked''" for m tp
  proof -
    have "m_value m \<in> k_value ` set recs" using assms(1) that unfolding related_caught_up_def by blast
    with assms(3) show ?thesis by (auto simp: log_honest_def)
  qed
  then have "honest_log R expiry c" unfolding honest_log_def by blast
  with assms(1,2,5,6) r show ?thesis
    by (intro settled_revocation_is_refused[of R t c expiry k off tp u e])
      (simp_all add: related_caught_up_def message_of_def)
qed

text \<open>
  C10: Logging out reaches both services. When POST /revoke for an issued token is carried out, it answers 202;
  once the relay has had as many good ticks as there are queued revocations, and the consumers of both
  services have dealt with the log, the posts service raises AuthenticationFailed for the token and the
  related service answers 401, until the token expires. The consumers are the two processes with their
  crashes, restarts, failed commits and second deliveries: both have committed the whole log, and the
  one of the related service has logged no failure for a record of it.
\<close>

theorem logout_reaches_both_services:
  assumes laws: "jwt_law (lib_crypto L)" "uuid_law L" "decode_law J" "pyjwt_interop (lib_crypto L) J (sv_issuer S) now"
      "parse_datetime_law P" "reads_rfc3339 P" "trusts A (sv_issuer S)"
    and issued: "IssueAccess (lib_crypto L) (sv_issuer S) tokenID userID email issued = Inr (token, i)" "issuable (sv_issuer S) tokenID userID email"
    and expires: "n = NewNumericDate (add_duration issued (is_access_ttl (sv_issuer S)))" "0 \<le> n + unix_epoch" "numeric_time n < year_10000"
      "expiry tokenID = numeric_time n"
    and clocks: "NewNumericDate issued \<le> NewNumericDate (ca_now c)" "ca_now c < numeric_time n"
      "NewNumericDate issued \<le> NewNumericDate now" "now < numeric_time n"
    and revoke: "revoke L S c (''Bearer '' @ token) db = (r, db')" "ca_fate c 0 = Works"
      "ca_row_id c \<notin> o_id ` set (adb_outbox db)" "distinct (map o_id (adb_outbox db))"
    and relay: "list_all good_tick (until_done ts)" "length (unpublished (adb_outbox db)) < length (until_done ts)"
      "recs = ar_log (relay_Run ts \<lparr>ar_db = db', ar_log = log0\<rparr>)"
    and consumers: "log_honest P R expiry recs" "caught_up P recs (numeric_time n) s"
      "related_caught_up R recs (numeric_time n) rc"
  shows "r = writeJSON 202 [(''status'', JStr ''revocation queued'')]
    \<and> fst (authenticate J A (rc_db (vp_state s)) (Some (''Bearer '' @ token)) cache) = Inl (AuthenticationFailed ''token has been revoked'')
    \<and> fst (requires_auth J R A (c_db rc) view (Some (''Bearer '' @ token)) cache')
      = Inr (Response 401 (Inl (''error'', ''token has been revoked'')))"
proof -
  have uuids: "is_uuid tokenID" "is_uuid userID" using issued(2) by (simp_all add: issuable_def)
  have compact: "compact_token token" using jwt_lawD(1)[OF laws(1)] IssueAccess_Inr[OF issued(1)] by blast
  then have ne: "token \<noteq> []" by (simp add: compact_token_def)
  let ?e = "\<lparr>o_id = ca_row_id c, o_topic = TopicTokenRevoke, o_key = userID,
      o_payload = revocation_payload tokenID userID (numeric_time n), o_created_at = ca_db_now c, o_published_at = None\<rparr>"
  have "r = writeJSON 202 [(''status'', JStr ''revocation queued'')]"
    and box: "adb_outbox db' = adb_outbox db @ [?e]"
    using revoke revoke_own_token[OF laws(1,2) issued clocks(1) clocks(2)[unfolded expires(1)] revoke(2,3)]
      is_uuid_ascii[OF uuids(1)]
    by (auto simp: RevokeAccessToken_def exec_def row_at_None_iff expires(1))
  moreover have rec: "kafka_message ?e \<in> set recs"
    unfolding relay(3) using revocation_reaches_the_log[OF box _ _ relay(1,2)] box revoke(3,4) by simp
  obtain kvs where kvs: "claims_json (access_claims (sv_issuer S) tokenID userID email issued) = JObj kvs"
    "map_of kvs = claim_at (access_claims (sv_issuer S) tokenID userID email issued)"
    using claims_json_JObj by blast
  have v: "verify J A client token = Inr (JObj kvs)" for client
    using verify_issued[OF laws(4,7) issued clocks(3)] clocks(4) kvs(1) by (simp add: expires(1))
  have jti: "map_of kvs ''jti'' = Some (JStr tokenID)" using access_claims_json(2)[OF issued(2)] kvs(2) by simp
  note bearer = bearer_token_compact[OF compact]
  have carried: "k_value (kafka_message ?e) = revocation_payload tokenID userID (numeric_time n)" by (simp add: kafka_message_def)
  note reads = revocation_read_by_posts[OF laws(6) uuids expires(2,3)] revocation_read_by_related[OF uuids expires(2,3)]
  have "is_denied P (rc_db (vp_state s)) tokenID"
    using caught_up_denies[OF laws(5) _ consumers(1) rec] consumers(2) reads(1) is_uuid_ascii[OF uuids(1)] expires(4) carried by metis
  from denied_is_refused[OF laws(3) this bearer ne v jti]
  have "fst (authenticate J A (rc_db (vp_state s)) (Some (''Bearer '' @ token)) cache) = Inl (AuthenticationFailed ''token has been revoked'')" .
  moreover have "refuses R (c_db rc) tokenID"
    using related_caught_up_refuses[OF consumers(3) _ consumers(1) rec] reads(2) expires(4) carried
    by (simp add: kafka_message_def TopicTokenRevoke_def)
  from refused_is_401[OF laws(3) this bearer v jti]
  have "fst (requires_auth J R A (c_db rc) view (Some (''Bearer '' @ token)) cache')
      = Inr (Response 401 (Inl (''error'', ''token has been revoked'')))" .
  ultimately show ?thesis by blast
qed

text \<open>Processes that have read one revocation, and a relay that has sent one.\<close>

lemma one_revocation_caught_up:
  assumes "event_revocation R (o_payload e) = Some (k, u, t)" "event_id_ok (o_id e)" "now < t"
  shows "\<exists>c. related_caught_up R [kafka_message e] t c \<and> map m_value (c_log c (''token_revoked'', 0)) = [o_payload e]"
proof -
  let ?m = "revocation_message (o_id e) (o_payload e)"
  let ?c = "consume_one R now Works (''token_revoked'', 0) (one_revocation_log (o_id e) (o_payload e))"
  have c: "reached_before R t ?c" "c_log ?c = c_log (one_revocation_log (o_id e) (o_payload e))"
    "c_committed ?c (''token_revoked'', 0) = 1" "c_failures ?c = []"
    using one_revocation_applied[OF assms assms(3)] by (simp_all add: Let_def)
  have m: "m = ?m" if "m \<in> set (c_log ?c tp)" for m tp
    using that by (auto simp: c(2) one_revocation_log_def new_consumer_def split: if_splits)
  have log: "c_log ?c (''token_revoked'', 0) = [?m]" by (simp add: c(2) one_revocation_log_def new_consumer_def)
  have payload: "m_value ?m = o_payload e" by (simp add: revocation_message_def)
  have rec: "?m = message_of (0, 0) (kafka_message e)"
    by (simp add: revocation_message_def message_of_def kafka_message_def TopicTokenRevoke_def)
  have "ids_identify R ?c" unfolding ids_identify_def using m by blast
  moreover have "m_value m' \<in> k_value ` set [kafka_message e]" if "m' \<in> set (c_log ?c tp)" for m' tp
    using m[OF that] payload by (simp add: kafka_message_def)
  moreover have "\<exists>tp off. c_log ?c tp ! off = message_of (snd tp, off) (kafka_message e) \<and> off < c_committed ?c tp
      \<and> (tp, off) \<notin> set (c_failures ?c)"
    by (rule exI[of _ "(''token_revoked'', 0)"], rule exI[of _ 0]) (simp only: log c(3,4) rec, simp)
  ultimately have "related_caught_up R [kafka_message e] t ?c"
    unfolding related_caught_up_def using c(1) by (simp only: list.set) blast
  then show ?thesis using log payload by (intro exI[of _ ?c]) simp
qed

lemma one_revocation_read:
  assumes "revocation_of P payload = Some (k, u, t)"
  shows "\<exists>s. process_reachable P s \<and> vp_log s = [payload] \<and> rc_committed (vp_state s) = 1 \<and> vp_purges s = []"
proof -
  let ?s = "new_process\<lparr>vp_log := [payload]\<rparr>"
  have "posts_db_ok empty_posts_db" by (simp add: posts_db_ok_def empty_posts_db_def)
  from apply_revocation_stored[OF this assms]
  obtain st where st: "revocation_messages P [(numeric_time 0, False, payload)] (vp_state ?s) = (Inr (), st)" "rc_committed st = 1"
    by (simp add: new_process_def Let_def)
  have "process_reachable P ?s"
    using process_reachable.step[OF process_reachable.start process_step.publish[where payload = payload]] by (simp add: new_process_def)
  moreover have "process_step P ?s (?s\<lparr>vp_state := restart_revocations st\<rparr>)"
    by (rule process_step.interrupted[OF _ st(1)]) (simp add: next_records_def new_process_def)
  ultimately have "process_reachable P (?s\<lparr>vp_state := restart_revocations st\<rparr>)" by (rule process_reachable.step)
  with st(2) show ?thesis
    by (intro exI[of _ "?s\<lparr>vp_state := restart_revocations st\<rparr>"]) (simp add: restart_revocations_def new_process_def)
qed

lemma one_revocation_sent:
  assumes "adb_outbox db = [e]" "o_published_at e = None"
  shows "ar_log (relay_Run [Some sample_tick, None] \<lparr>ar_db = db, ar_log = []\<rparr>) = [kafka_message e]"
proof -
  have "claim_batch [] 100 (adb_outbox db) = Inr [e]" using assms by (simp add: claim_batch_def unpublished_def)
  then show ?thesis
    by (simp add: relay_Run_fold publishBatch_def write_and_mark_def ClaimOutbox_def exec_def sample_tick_def Let_def split: sum.split prod.split)
qed

theorem logout_reaches_both_services_witness:
  "\<exists>token db' (s :: revocation_process) (rc :: consumer). revoke plain_auth_lib sample_server (sample_call ''e1'' []) (''Bearer '' @ token) empty_auth_db
      = (writeJSON 202 [(''status'', JStr ''revocation queued'')], db')
    \<and> vp_log s = map k_value (ar_log (relay_Run [Some sample_tick, None] \<lparr>ar_db = db', ar_log = []\<rparr>))
    \<and> fst (authenticate sample_pyjwt plain_auth (rc_db (vp_state s)) (Some (''Bearer '' @ token)) None) = Inl (AuthenticationFailed ''token has been revoked'')
    \<and> map m_value (c_log rc (''token_revoked'', 0)) = vp_log s
    \<and> fst (requires_auth sample_pyjwt plain_related_lib plain_auth (c_db rc)
          (\<lambda>_. Inr (Response 200 (Inr ''secret''))) (Some (''Bearer '' @ token)) None)
      = Inr (Response 401 (Inl (''error'', ''token has been revoked'')))"
proof -
  obtain token where token: "IssueAccess plain_crypto (sv_issuer sample_server) token_uuid user_uuid ''Ann@x.org'' (numeric_time 1000) = Inr (token, token_uuid)"
    using sample_issued by blast
  have issued: "IssueAccess (lib_crypto plain_auth_lib) (sv_issuer sample_server) token_uuid user_uuid ''Ann@x.org'' (numeric_time 1000) = Inr (token, token_uuid)"
    and laws: "jwt_law (lib_crypto plain_auth_lib)" "uuid_law plain_auth_lib"
    "pyjwt_interop (lib_crypto plain_auth_lib) sample_pyjwt (sv_issuer sample_server) (numeric_time 1100)"
    using token by simp_all
  obtain r db' where revoke: "revoke plain_auth_lib sample_server (sample_call ''e1'' []) (''Bearer '' @ token) empty_auth_db = (r, db')"
    by (metis prod.exhaust)
  let ?p = "revocation_payload token_uuid user_uuid (numeric_time 1900)"
  let ?log = "ar_log (relay_Run [Some sample_tick, None] \<lparr>ar_db = db', ar_log = []\<rparr>)"
  have years: "0 \<le> (1900::int) + unix_epoch" "numeric_time 1900 < year_10000"
    by (simp_all add: unix_epoch_def year_10000_def numeric_time_def wall_clock_def days_before_year_def days_before_month_def)
  note reads = revocation_read_by_posts[OF iso_revocation_laws(2) sample_uuids(2,1) years]
    revocation_read_by_related[OF sample_uuids(2,1) years, of plain_related_lib]
  have "r = writeJSON 202 [(''status'', JStr ''revocation queued'')] \<and> (\<exists>e. adb_outbox db' = [e] \<and> o_published_at e = None \<and> o_payload e = ?p \<and> o_id e = ''e1'')"
    using revoke revoke_own_token[OF laws(1,2) issued sample_issuable, of "sample_call ''e1'' []" empty_auth_db] sample_ttl is_uuid_ascii[OF sample_uuids(2)]
    by (auto simp: RevokeAccessToken_def exec_def empty_auth_db_def)
  then obtain e where r: "r = writeJSON 202 [(''status'', JStr ''revocation queued'')]" and e: "adb_outbox db' = [e]" "o_published_at e = None" "o_payload e = ?p"
      "o_id e = ''e1''"
    by blast
  have sent: "?log = [kafka_message e]" "map k_value ?log = [?p]"
    using one_revocation_sent[OF e(1,2)] e(3) by (simp_all add: kafka_message_def)
  obtain s where s: "process_reachable iso_revocation_lib s" "vp_log s = [?p]" "rc_committed (vp_state s) = 1" "vp_purges s = []"
    using one_revocation_read[OF reads(1)] by blast
  have honest: "log_honest iso_revocation_lib plain_related_lib (\<lambda>_. numeric_time 1900) ?log"
    using sent reads e(3) by (simp add: log_honest_def event_honest_def kafka_message_def)
  have read: "caught_up iso_revocation_lib ?log (numeric_time 1900) s" using s sent by (simp add: caught_up_def)
  obtain rc where rc: "related_caught_up plain_related_lib ?log (numeric_time 1900) rc" "map m_value (c_log rc (''token_revoked'', 0)) = [?p]"
  proof -
    have "numeric_time 1001 < numeric_time 1900" "event_id_ok (o_id e)" by (simp_all add: numeric_time_def e(4) event_id_ok_def code_def)
    from one_revocation_caught_up[OF reads(2)[folded e(3)] this(2,1)] show thesis using that e(3) sent(1) by metis
  qed
  have box: "adb_outbox empty_auth_db = []" by (simp add: empty_auth_db_def)
  have "r = writeJSON 202 [(''status'', JStr ''revocation queued'')]
    \<and> fst (authenticate sample_pyjwt plain_auth (rc_db (vp_state s)) (Some (''Bearer '' @ token)) None) = Inl (AuthenticationFailed ''token has been revoked'')
    \<and> fst (requires_auth sample_pyjwt plain_related_lib plain_auth (c_db rc)
          (\<lambda>_. Inr (Response 200 (Inr ''secret''))) (Some (''Bearer '' @ token)) None)
      = Inr (Response 401 (Inl (''error'', ''token has been revoked'')))"
    by (rule logout_reaches_both_services[OF laws(1,2) sample_decode_law laws(3) iso_revocation_laws(1,2) sample_trusted issued sample_issuable
          sample_ttl[symmetric] years _ _ _ _ _ revoke _ _ _ _ _ refl honest read rc(1)])
      (simp_all add: box unpublished_def)
  with revoke r sent(2) s(2) rc(2) show ?thesis
    by (intro exI[of _ token] exI[of _ db'] exI[of _ s] exI[of _ rc] conjI) (simp_all only:)
qed

end
