(* ===== verification/Spec2Isabelle.thy ===== *)
theory Spec2Isabelle
  imports System Relays RelatedAuth RevocationProcess AlembicEnv Urls TestTokens Wire Interleaving Logout
begin

text \<open>
  The program. Two services share no database and no call: the posts service (Django, src/services/posts)
  owns the posts, the related service (Flask, src/services/related) keeps a copy of them with a similarity
  score for every pair of titles. Every write of the posts service puts a row into its outbox in the same
  transaction; the relay (src/services/relay) moves outbox rows to Kafka, at least once; the consumer of
  the related service applies them and remembers their ids, so that a second delivery does nothing. A
  third service (Go, src/services/auth) registers users, issues and revokes tokens; both Python services
  verify tokens locally and keep a denylist that its token_revoked events fill. The development models
  all three, the relay and the migrations.

  The theories, in import order, and the code they model.
   Prelude: exceptions and results, instants, association lists, tables with a key, and what becomes of
    a transaction (db_fate): it works, fails, or is carried out without an answer.
   PyStrings, Json, IsoTime: the operations of Python's str, of JSON values and of
    datetime.fromisoformat that the services use.
   Settings: posts/config/settings.py (env_bool, the secret key, hosts, the security block), the
    module constants of relay.py, consumer.py and jwtauth.py, and the Kafka client configurations.
   Similarity: STOPWORDS, clean and similarity of consumer.py.
   RelatedApp: the models and routes of app.py. A database is a record of tables, a table a list of
    rows, a constraint of the models a predicate (related_db_ok) that flush checks.
   Handlers: apply_created, apply_updated, apply_deleted, apply_token_revoked and HANDLERS.
   Relations: the exceptions of the handlers, what they compute on the payloads of the posts service,
    and the contract of the related column (relations_ok).
   Consumer: event_id_for, handle under each fate of its transaction, and the loop of main with crashes,
    restarts and signals as an inductive step relation; the locale deduplicating, interpreted on handle.
   PostsService: models.py, serializers.py and views.py. A view is an action: it returns a value or an
    exception and the database; atomic is transaction.atomic.
   Mirror: the abstract specification, a table of posts and its changes; every accepted request is
    one change, recorded as one event.
   Relay: claim_batch, mark_published, publish_batch, run_once and main of relay.py; the locale
    outbox, interpreted on the passes of the relay.
   Relays: several relays at once. A pass is a transaction of steps (claim, send, commit, abort) that
    interleave with those of other relays and with the requests.
   JsonText: json.dumps and json.loads. Wire: the serializer of the relay and the deserializer of the
    consumers, and the consumer on bytes.
   Pipeline: the handlers refine the changes of the specification; requests, relay and consumer put
    together, one after the other.
   Interleaving: what a handler needs of an event depends on the events with its key only.
   System: the same parts interleaved: a step of the system is a request, a pass of a relay, a record of
    the auth service, or a step of the consumer, in any order (system_step).
   PostsAuth: posts/jwtauth.py and posts/urls.py. RelatedAuth: related/jwtauth.py and the denylist of
    the related service. Denylist: the locale denylist, interpreted on the consumers of revocations
    of both services. Revocations: the command consume_revocations and purge_expired_revocations;
    RevocationProcess: the command as a process that crashes, is stopped and starts again;
    RevocationConsumer: the consumer of the related service, seen from its denylist.
   TestTokens: the factory of tokens and the fake JWKS client of posts/testauth.py.
   Urls: config/urls.py, the routes of both services from the path of a request, create_app, and the
    entry points manage.py, wsgi.py and asgi.py.
   Schema: the Django models and migrations, the SQLAlchemy models and the Alembic revisions.
   AlembicEnv: related/migrations/env.py, with the interpolation of ConfigParser.
   GoText, GoTime: what the auth service uses of Go's standard library: base 64 and hexadecimal, trimming,
    Atoi and Sscanf, 64 bit durations, RFC 3339.
   AuthTokens: tokens.go and password.go of auth/internal/auth (IssueAccess, Verify, PublicJWKS, the refresh
    tokens, HashPassword and VerifyPassword). AuthStore: auth/internal/store and its migration 0001_init.sql;
    a function of the store is an operation on the three tables under the fates of its statements.
    AuthApi: internal/api, a handler from the members of the request to the reply and the
    database. AuthRelay: cmd/authd/relay.go, as a second interpretation of the locale draining_outbox,
    and main.go.
   Access: the tokens of the auth service at the two Python services. Logout: a revocation followed from
    POST /revoke through the relay and the two consumer processes to the answers of both services.

  What the lemmas show. Of the whole system, in every reachable state: system_loses_nothing,
  related_rows_come_from_events, undisturbed_post_arrives, published_events_are_handled, and
  system_can_catch_up. services_in_step, redelivery_is_harmless, key_order_is_enough and
  requests_reach_the_related_table: the copy agrees with the original after any requests, with any
  redelivery, in any order that keeps the events of a slug in order, through the relay;
  events_survive_the_wire: through the bytes of Kafka; scores_stay_complete: so do the scores;
  posts_have_pages: every post is served by both services.
  outbox_is_the_change_log, view_writes_row_and_event: row and event are written together. handle_atomic,
  handle_idempotent, committed_is_settled: effect and event id are committed together, also when the answer
  to the commit is lost, and an offset is committed only when every record below it was applied or its failure logged. relay_at_least_once,
  relay_drains, relay_keeps_order, published_is_stored, relay_outage: what one relay promises;
  relays_hold_apart, one_record_per_success, run_once_refines_steps: what several do.
  relations_after_create, _update, _delete: the scores stay complete and symmetric.
  authenticate_accepts_only_verified, writes_need_a_token, requires_auth_protects,
  denied_exactly_if_revoked, committed_revocation_is_refused, settled_revocation_is_401,
  posts_refuses_revoked, related_refuses_revoked, production_is_secure, factory_token_is_accepted and _is_refused: access. Of the auth service:
  password_round_trip, registered_user_can_log_in, refresh_token_works_once, revocation_ends_the_sessions,
  revocation_is_all_or_nothing, revocations_reach_the_log, migrations_run_once, connectWithRetry_returns;
  together with the services that trust it, issued_token_opens_both_services and
  logout_reaches_both_services. url_survives_the_configuration,
  upgrade_is_all_or_nothing, downgrades_undo_upgrades, related_revisions_build_the_models: the database
  of the related service. Other properties state what the code does where its comments promise more:
  failed_record_is_passed, handle_raises_only, delete_overtaking_create_resurrects,
  rename_leaves_stale_entries, failed_send_reorders, unreadable_expiry_blocks, unreadable_record_blocks,
  large_ids_are_refused, refresh_under_way_survives, revoked_token_is_taken_again,
  instances_publish_twice, expires_in_ignores_the_setting.

  Parameters. Packages that are not under src are arguments, with what the code relies on as named
  hypotheses: the cosine of strsimpy (cosine_law, cosine_symmetric), the serializer of Django REST
  framework (validate_law, slug_law), PyJWT (decode_law, pyjwt_law), Django's parse_datetime
  (parse_datetime_law), the classes of the REST framework that the settings name (drf_lib; read_only_law
  speaks of IsAuthenticatedOrReadOnly only), the conversions of SQLAlchemy
  (related_lib), Alembic's run_migrations. For the auth service: RSA signatures, SHA-256, Argon2 and
  golang-jwt (record crypto, jwt_law, argon2_law), google/uuid and the lower function of Postgres
  (auth_lib, uuid_law), the PEM files (pem_lib), what PyJWT makes of tokens of golang-jwt (pyjwt_interop)
  and that parse_datetime reads RFC 3339 (reads_rfc3339). Kafka is what happens to a send (fate), the records of a
  partition and the offsets of a consumer; a pass of the relay comes with the locks, failures and clock
  it meets.

  Fuel and bounds. Every definition is total; the loops of the processes are lists of rounds (relay_main)
  or step relations (consumer_step, process_step, fleet_step, system_step); upgrade_head follows at most
  as many revisions as there are; references between configuration values are followed to a depth of ten,
  as ConfigParser does; the parser of JSON texts is allowed twice as many nested calls as a text has
  characters, which json_loads_returns shows to be enough. Integer columns of the related service hold
  32 bits, so services_in_step counts fewer than 2147483647 requests. connectWithRetry is given the
  attempts of its loop; connectWithRetry_returns shows that 32 are enough.

  Not modelled: characters above U+00FF, fractions in event payloads, floating point rounding of scores
  (they are reals), logging, CORS headers, the admin site (a parameter) and the test cases; of the auth
  service TLS, timeouts and the graceful shutdown of its HTTP server, the cleaning of paths by ServeMux and
  the JSON text of request bodies (the model starts from the value). Python's limit on nested calls
  (json.loads raises RecursionError on a text nested about a thousand deep) and the refusal of the
  character NUL in text columns by Postgres (bind_text accepts it) are left out. A request reads the clock
  once. A commit of the consumer's transaction may be carried out and still be reported as failed
  (the fate Unanswered of handle); a commit of a request or a relay pass either happens or is reported as
  failed. The constraints of the auth database are guards of the statements in AuthStore, because
  Postgres checks them and not the Go code. The
  system theory lets requests and relay passes take effect one at a time; Relays takes the passes apart.
  SQL leaves the order of rows with equal created_at open; the model takes table order.
\<close>

section \<open>The two services stay in step\<close>

text \<open>Requests to evaluate on: create a post, retitle it, create another, destroy the first.\<close>

definition sample_ops :: "(request \<times> view_op) list" where
  "sample_ops =
     [(sample_request ''u1'' 1, Create (sample_data ''kafka basics'' ''s1'')),
      (sample_request ''u2'' 2, Update ''s1'' (sample_data ''kafka for all'' ''s1'')),
      (sample_request ''u3'' 3, Create (sample_data ''baking bread'' ''s2'')),
      (sample_request ''u4'' 4, Destroy ''s1'')]"

lemma plain_validate_law [simp]: "validate_law plain_posts_lib"
  by (auto simp: validate_law_def plain_posts_lib_def split: option.splits if_splits)

lemma sample_ops_ok [simp]:
  "\<forall>(req, op)\<in>set sample_ops. event_id_ok (req_uuid req)" "length sample_ops < 2147483647"
  "sorted (map (\<lambda>(req, op). req_now req) sample_ops)"
  by (simp_all add: sample_ops_def sample_request_def event_id_ok_def code_def)

text \<open>
  C2: Eventual consistency. After any requests to the posts service, a related service that starts
  empty and gets the events of the outbox in order, at whatever places of the log and whatever times,
  applies every one of them and has the same posts, under the same ids.
\<close>

theorem services_in_step:
  assumes "cosine_law (lib_cosine R)" "validate_law P"
    and "\<forall>(req, op)\<in>set ops. event_id_ok (req_uuid req)" "length ops < 2147483647"
  shows "let posts = run_views P ops empty_posts_db;
             related = fold (deliver R) (deliveries clock place (events posts)) empty_related_db
         in related_mirror (rdb_posts related) = posts_mirror (pdb_posts posts)
          \<and> processed_ids related = map o_id (pdb_outbox posts) \<and> related_db_ok related"
  using pipeline_in_order[OF assms, of clock place] by (simp add: Let_def in_step_def)

theorem services_in_step_witness:
  "let posts = run_views plain_posts_lib sample_ops empty_posts_db;
       related = fold (deliver plain_related_lib) (deliveries (\<lambda>_. Timestamp 9) (\<lambda>_. (0, 0)) (events posts)) empty_related_db
   in related_mirror (rdb_posts related) = posts_mirror (pdb_posts posts)
    \<and> processed_ids related = map o_id (pdb_outbox posts) \<and> related_db_ok related"
  by (rule services_in_step) simp_all

text \<open>
  C3: Delivery at least once is enough. If the events arrive in order for the first time, and any event
  that has arrived may arrive again at any later moment, the related service ends in the very state
  that one delivery of each would give.
\<close>

theorem redelivery_is_harmless:
  assumes "cosine_law (lib_cosine R)" "validate_law P"
    and "\<forall>(req, op)\<in>set ops. event_id_ok (req_uuid req)" "length ops < 2147483647"
    and "redelivers (delivered R) (deliveries clock place (events (run_views P ops empty_posts_db))) ds"
  shows "fold (deliver R) ds empty_related_db
      = fold (deliver R) (deliveries clock place (events (run_views P ops empty_posts_db))) empty_related_db
    \<and> related_mirror (rdb_posts (fold (deliver R) ds empty_related_db))
      = posts_mirror (pdb_posts (run_views P ops empty_posts_db))"
proof -
  note order = pipeline_in_order[OF assms(1-4), of clock place]
  have "fold (deliver R) ds empty_related_db
      = fold (deliver R) (deliveries clock place (events (run_views P ops empty_posts_db))) empty_related_db"
    using consumer.exactly_once[OF assms(5)] order by blast
  with order show ?thesis by (simp add: in_step_def)
qed

text \<open>
  C6: The scores arrive with the posts. If no request renames a post, then after any requests the related
  service that got the events in order has, for every post, exactly the scores against all the other
  posts, under their slugs.
\<close>

theorem scores_stay_complete:
  assumes "cosine_law (lib_cosine R)" "cosine_symmetric (lib_cosine R)" "validate_law P"
    and "\<forall>(req, op)\<in>set ops. event_id_ok (req_uuid req) \<and> keeps_slug P op" "length ops < 2147483647"
    and "related = fold (deliver R) (deliveries clock place (events (run_views P ops empty_posts_db))) empty_related_db"
  shows "\<forall>p\<in>set (rdb_posts related). \<forall>s. map_of (rp_related p) s =
    (case row_at rp_slug s (rdb_posts related) of
       None \<Rightarrow> None
     | Some q \<Rightarrow> if rp_id q = rp_id p then None else Some (score (lib_cosine R) (rp_title p) (rp_title q)))"
  using pipeline_relations[OF assms(1-5), of clock place]
  unfolding relations_ok_def relation_entry_def assms(6) .

lemma sample_ops_keep_slug: "\<forall>(req, op)\<in>set sample_ops. event_id_ok (req_uuid req) \<and> keeps_slug plain_posts_lib op"
  by (simp add: sample_ops_def sample_request_def event_id_ok_def code_def plain_posts_lib_def text_field_def
      sample_data_def split: option.splits if_splits)

theorem scores_stay_complete_witness:
  "let related = fold (deliver plain_related_lib) (deliveries (\<lambda>_. Timestamp 9) (\<lambda>_. (0, 0))
         (events (run_views plain_posts_lib sample_ops empty_posts_db))) empty_related_db
   in \<forall>p\<in>set (rdb_posts related). \<forall>s. map_of (rp_related p) s =
    (case row_at rp_slug s (rdb_posts related) of
       None \<Rightarrow> None
     | Some q \<Rightarrow> if rp_id q = rp_id p then None else Some (score (lib_cosine plain_related_lib) (rp_title p) (rp_title q)))"
  unfolding Let_def
  by (rule scores_stay_complete[OF plain_related_lib_laws plain_validate_law sample_ops_keep_slug sample_ops_ok(2) refl])

text \<open>Every delivery twice in a row, and then everything once more.\<close>

definition stuttered :: "'a list \<Rightarrow> 'a list" where
  "stuttered ms = concat (map (\<lambda>m. [m, m]) ms) @ ms"

lemma redelivers_stuttered: "redelivers seen ms (stuttered ms)"
proof -
  have twice: "redelivers seen ms (concat (map (\<lambda>m. [m, m]) ms))"
  proof (induction ms rule: rev_induct)
    case Nil
    show ?case by (simp add: redelivers.redelivers_Nil)
  next
    case (snoc m ms)
    from redelivers.redelivers_again[OF redelivers.redelivers_new[OF snoc], of m m m]
    show ?case by simp
  qed
  have "redelivers seen ms (concat (map (\<lambda>m. [m, m]) ms) @ ns)" if "set ns \<subseteq> set ms" for ns
    using that
  proof (induction ns rule: rev_induct)
    case (snoc n ns)
    from redelivers.redelivers_again[of seen ms "concat (map (\<lambda>m. [m, m]) ms) @ ns" n n] snoc
    show ?case by simp
  qed (simp add: twice)
  then show ?thesis by (simp add: stuttered_def)
qed

theorem redelivery_is_harmless_witness:
  "let es = deliveries (\<lambda>_. Timestamp 9) (\<lambda>_. (0, 0)) (events (run_views plain_posts_lib sample_ops empty_posts_db))
   in fold (deliver plain_related_lib) (stuttered es) empty_related_db = fold (deliver plain_related_lib) es empty_related_db
    \<and> related_mirror (rdb_posts (fold (deliver plain_related_lib) (stuttered es) empty_related_db))
      = posts_mirror (pdb_posts (run_views plain_posts_lib sample_ops empty_posts_db))"
  unfolding Let_def by (rule redelivery_is_harmless) (simp_all add: redelivers_stuttered)

text \<open>
  C4: The order of each key is enough. If no request renames a post, the events may arrive in any order in
  which those with the same key, the slug, arrive as the outbox has them, each of them again at any later
  moment: the related service has the posts of the posts service.
\<close>

theorem key_order_is_enough:
  assumes "cosine_law (lib_cosine R)" "validate_law P"
    and "\<forall>(req, op)\<in>set ops. event_id_ok (req_uuid req) \<and> keeps_slug P op" "length ops < 2147483647"
    and "\<forall>k. of_key k rows = of_key k (pdb_outbox (run_views P ops empty_posts_db))"
    and "redelivers (delivered R) (deliveries_of clock place rows) ds"
  shows "related_mirror (rdb_posts (fold (deliver R) ds empty_related_db)) = posts_mirror (pdb_posts (run_views P ops empty_posts_db))"
proof -
  let ?db = "run_views P ops empty_posts_db"
  have "history (pdb_outbox ?db)" using requests_make_history[OF assms(2-4)] by blast
  note all = interleaved_mirror[OF assms(1) this, of rows clock place]
  have "fold (deliver R) ds empty_related_db = fold (deliver R) (deliveries_of clock place rows) empty_related_db"
    using consumer.exactly_once[OF assms(6)] all assms(5) by blast
  moreover have "posts_mirror (pdb_posts ?db) = replay (pdb_outbox ?db) Map.empty" using run_views_changelog by blast
  ultimately show ?thesis using all assms(5) by simp
qed

text \<open>The post that is created last comes first.\<close>

theorem key_order_is_enough_witness:
  "let posts = run_views plain_posts_lib sample_ops empty_posts_db;
       rows = of_key ''s2'' (pdb_outbox posts) @ filter (\<lambda>e. o_key e \<noteq> ''s2'') (pdb_outbox posts)
   in related_mirror (rdb_posts (fold (deliver plain_related_lib) (stuttered (deliveries_of (\<lambda>_. Timestamp 9) (\<lambda>_. (0, 0)) rows)) empty_related_db))
      = posts_mirror (pdb_posts posts)"
proof -
  let ?out = "pdb_outbox (run_views plain_posts_lib sample_ops empty_posts_db)"
  have order: "\<forall>k. of_key k (of_key ''s2'' ?out @ filter (\<lambda>e. o_key e \<noteq> ''s2'') ?out) = of_key k ?out"
  proof
    fix k
    show "of_key k (of_key ''s2'' ?out @ filter (\<lambda>e. o_key e \<noteq> ''s2'') ?out) = of_key k ?out"
      by (cases "k = ''s2''") (auto simp: of_key_def filter_empty_conv intro!: filter_cong)
  qed
  show ?thesis
    unfolding Let_def
    by (rule key_order_is_enough[OF plain_related_lib_laws(1) plain_validate_law sample_ops_keep_slug sample_ops_ok(2) order redelivers_stuttered])
qed

text \<open>
  From the request to the related table. If the clock of the requests does not go back and the relay
  reaches the broker in as many passes as there are events, the log holds the events of the outbox in
  order, and a consumer that applies the log has the posts of the posts service.
\<close>

lemma requests_reach_the_related_table:
  assumes "cosine_law (lib_cosine R)" "validate_law P"
    and "\<forall>(req, op)\<in>set ops. event_id_ok (req_uuid req)" "length ops < 2147483647"
    and "sorted (map (\<lambda>(req, op). req_now req) ops)"
    and "\<forall>p\<in>set ps. good_pass (b, p)" "length (pdb_outbox (run_views P ops empty_posts_db)) \<le> length ps"
  shows "let posts = run_views P ops empty_posts_db; log = relayed b ps posts
         in log = events posts
          \<and> related_mirror (rdb_posts (fold (deliver R) (deliveries clock place log) empty_related_db))
              = posts_mirror (pdb_posts posts)"
proof -
  let ?posts = "run_views P ops empty_posts_db"
  have "relayed b ps ?posts = events ?posts"
  proof (rule relayed_in_order[OF _ run_views_unpublished _ assms(6,7)])
    show "posts_db_ok ?posts" using run_views_changelog by blast
    show "sorted (map o_created_at (pdb_outbox ?posts))" using outbox_by_age[OF assms(5)] by blast
  qed
  then show ?thesis
    using pipeline_in_order[OF assms(1-4), of clock place] by (simp add: Let_def in_step_def)
qed

lemma outbox_length: "length (pdb_outbox (run_views L ops empty_posts_db)) \<le> length ops"
proof (induction ops rule: rev_induct)
  case (snoc o1 ops)
  obtain req op where o1: "o1 = (req, op)" by fastforce
  obtain r db' where r: "run_view L req op (run_views L ops empty_posts_db) = (r, db')" by fastforce
  have next_db: "run_views L (ops @ [o1]) empty_posts_db = db'" using r by (simp add: o1 run_views_snoc)
  have "posts_db_ok (run_views L ops empty_posts_db)" using run_views_changelog by blast
  then show ?case
    unfolding next_db
    using snoc.IH r run_view_rejected[of L req op _ _ db'] run_view_accepted[of _ L req op _ db']
    by (cases r) (fastforce simp: same_rows_def)+
qed (simp add: empty_posts_db_def)

lemma requests_reach_the_related_table_witness:
  "let posts = run_views plain_posts_lib sample_ops empty_posts_db;
       log = relayed 2 (replicate 4 (sample_pass (\<lambda>_. delivers))) posts
   in log = events posts
    \<and> related_mirror (rdb_posts (fold (deliver plain_related_lib) (deliveries (\<lambda>_. Timestamp 9) (\<lambda>_. (0, 0)) log) empty_related_db))
        = posts_mirror (pdb_posts posts)"
  by (rule requests_reach_the_related_table)
    (use outbox_length[of plain_posts_lib sample_ops] in \<open>simp_all add: sample_ops_def[THEN arg_cong[where f = length]]\<close>)

section \<open>Events of one post out of order\<close>

text \<open>
  An update may overtake the creation of its post. The update of an unknown post creates it; when
  the created event arrives, it is acknowledged and changes nothing: the post is as the update says.
\<close>

lemma update_may_overtake_create:
  assumes "cosine_law (lib_cosine L)" "related_db_ok db" "fields_fit i title img body slug"
    and "row_at rp_id i (rdb_posts db) = None" "row_at rp_slug slug (rdb_posts db) = None"
    and "m_topic mu = TOPIC_UPDATED" "m_value mu = post_payload i title img body slug extra"
    and "m_topic mc = TOPIC_CREATED" "m_value mc = post_payload i title' img' body' slug' extra'"
    and "event_id_for L mu = Inr u" "event_id_for L mc = Inr c" "u \<noteq> c" "length u \<le> 64" "length c \<le> 64"
    and "{u, c} \<inter> set (processed_ids db) = {}"
  shows "\<exists>db1 db2. handle L now Works mu db = (Inr True, db1) \<and> handle L now' Works mc db1 = (Inr True, db2)
    \<and> related_mirror (rdb_posts db2) = (related_mirror (rdb_posts db))(i \<mapsto> (title, Some img, Some body, slug))"
proof -
  have i: "int32 i" using assms(3) by (simp add: fields_fit_def)
  obtain db1 where db1: "handle L now Works mu db = (Inr True, db1)" "related_db_ok db1"
    "processed_ids db1 = processed_ids db @ [u]"
    "related_mirror (rdb_posts db1) = (related_mirror (rdb_posts db))(i \<mapsto> (title, Some img, Some body, slug))"
    using handle_put[OF assms(1-3,6,7,10) _ assms(13,4,5), of now] assms(15) by auto
  have known: "row_at rp_id i (rdb_posts db1) \<noteq> None"
    using fun_cong[OF db1(4), of i] by (auto simp: related_mirror_def)
  have "c \<notin> set (processed_ids db1)" using db1(3) assms(12,15) by auto
  from handle_create_known[OF db1(2) i known assms(8,9,11) this assms(14), of now'] db1 show ?thesis by auto
qed

definition post_message :: "string \<Rightarrow> string \<Rightarrow> json \<Rightarrow> message" where
  "post_message topic u v = \<lparr>m_topic = topic, m_partition = 0, m_offset = 0, m_headers = [(''event_id'', Some u)], m_value = v\<rparr>"

lemma post_message_fields [simp]: "m_topic (post_message t u v) = t" "m_value (post_message t u v) = v"
  "u \<noteq> [] \<Longrightarrow> list_all (\<lambda>c. code c < 128) u \<Longrightarrow> event_id_for L (post_message t u v) = Inr u"
  by (cases u; simp add: post_message_def event_id_for_def decode_bytes_def)+

lemma sample_fit: "fields_fit 1 ''kafka'' ''i'' ''b'' ''s1''"
  by (simp add: fields_fit_def int32_def)

lemma update_may_overtake_create_witness:
  "\<exists>db1 db2. handle plain_related_lib (Timestamp 1) Works (post_message TOPIC_UPDATED ''u2'' (post_payload 1 ''kafka'' ''i'' ''b'' ''s1'' [])) empty_related_db = (Inr True, db1)
    \<and> handle plain_related_lib (Timestamp 2) Works (post_message TOPIC_CREATED ''u1'' (post_payload 1 ''old'' ''i'' ''b'' ''s1'' [])) db1 = (Inr True, db2)
    \<and> related_mirror (rdb_posts db2) = (related_mirror (rdb_posts empty_related_db))(1 \<mapsto> (''kafka'', Some ''i'', Some ''b'', ''s1''))"
  by (rule update_may_overtake_create[OF plain_related_lib_laws(1) empty_related_db_ok sample_fit,
        where u = "''u2''" and c = "''u1''"])
    (simp_all add: empty_related_db_def processed_ids_def code_def)

text \<open>
  C35: A deletion must not overtake the creation of its post. If the deleted event is applied first, it
  finds nothing to delete; the created event then stores the post, which the posts service no longer
  has. Both events are acknowledged, so nothing repairs it.
\<close>

theorem delete_overtaking_create_resurrects:
  assumes "cosine_law (lib_cosine L)" "related_db_ok db" "fields_fit i title img body slug"
    and "row_at rp_id i (rdb_posts db) = None" "row_at rp_slug slug (rdb_posts db) = None"
    and "m_topic md = TOPIC_DELETED" "getitem (m_value md) ''slug'' = Inr (JStr slug)"
    and "m_topic mc = TOPIC_CREATED" "m_value mc = post_payload i title img body slug extra"
    and "event_id_for L md = Inr d" "event_id_for L mc = Inr c" "d \<noteq> c" "length d \<le> 64" "length c \<le> 64"
    and "{d, c} \<inter> set (processed_ids db) = {}"
  shows "\<exists>db1 db2. handle L now Works md db = (Inr True, db1) \<and> handle L now' Works mc db1 = (Inr True, db2)
    \<and> related_mirror (rdb_posts db2) i = Some (title, Some img, Some body, slug)"
proof -
  obtain db1 where db1: "handle L now Works md db = (Inr True, db1)" "related_db_ok db1"
    "processed_ids db1 = processed_ids db @ [d]" "related_mirror (rdb_posts db1) = related_mirror (rdb_posts db)"
    using handle_delete_unknown[OF assms(2,6,7,10) _ assms(13,5), of now] assms(15) by auto
  have id: "row_at rp_id i (rdb_posts db1) = None"
    using fun_cong[OF db1(4), of i] assms(4) by (simp add: related_mirror_def)
  have "rp_slug r \<noteq> slug" if r: "r \<in> set (rdb_posts db1)" for r
  proof -
    have "row_at rp_id (rp_id r) (rdb_posts db1) = Some r"
      by (rule row_at_distinct[OF related_db_ok_distinct(1)[OF db1(2)] r])
    then obtain q where q: "row_at rp_id (rp_id r) (rdb_posts db) = Some q" "rp_slug q = rp_slug r"
      using fun_cong[OF db1(4), of "rp_id r"]
      by (cases "row_at rp_id (rp_id r) (rdb_posts db)") (auto simp: related_mirror_def related_fields_def)
    then have "q \<in> set (rdb_posts db)" using row_at_SomeD by metis
    then show ?thesis using assms(5) q(2) unfolding row_at_None_iff by (metis imageI)
  qed
  then have slug: "row_at rp_slug slug (rdb_posts db1) = None" by (auto simp: row_at_None_iff)
  have "c \<notin> set (processed_ids db1)" using db1(3) assms(12,15) by auto
  from handle_create_new[OF assms(1) db1(2) assms(3,8,9,11) this assms(14) id slug, of now'] db1 show ?thesis by auto
qed

theorem delete_overtaking_create_resurrects_witness:
  "\<exists>db1 db2. handle plain_related_lib (Timestamp 1) Works (post_message TOPIC_DELETED ''u2'' (JObj [(''id'', JInt 1), (''slug'', JStr ''s1'')])) empty_related_db = (Inr True, db1)
    \<and> handle plain_related_lib (Timestamp 2) Works (post_message TOPIC_CREATED ''u1'' (post_payload 1 ''kafka'' ''i'' ''b'' ''s1'' [])) db1 = (Inr True, db2)
    \<and> related_mirror (rdb_posts db2) 1 = Some (''kafka'', Some ''i'', Some ''b'', ''s1'')"
  by (rule delete_overtaking_create_resurrects[OF plain_related_lib_laws(1) empty_related_db_ok sample_fit,
        where d = "''u2''" and c = "''u1''"])
    (simp_all add: empty_related_db_def processed_ids_def code_def)

section \<open>Revoked tokens are refused\<close>

text \<open>
  C29: A revoked token stays out, whatever happens to the process that reads the revocations. In every
  state it can reach, through crashes, exceptions, signals and restarts, \<open>authenticate\<close> refuses a verified
  token that a committed record revokes, until a purge runs after an expiry the log gives for it.
\<close>

theorem committed_revocation_is_refused:
  assumes "decode_law J" "parse_datetime_law L" "process_reachable L s"
    and "off < rc_committed (vp_state s)" "revocation_of L (vp_log s ! off) = Some (k, u, t)" "k \<noteq> []"
    and "\<forall>t'. names L (vp_log s) k t' \<longrightarrow> (\<forall>now\<in>set (vp_purges s). now < t')"
    and "bearer_token h = Some token" "token \<noteq> []"
    and "verify J S (fst (jwk_client_of S cache)) token = Inr (JObj kvs)" "map_of kvs ''jti'' = Some (JStr k)"
  shows "fst (authenticate J S (rc_db (vp_state s)) h cache) = Inl (AuthenticationFailed ''token has been revoked'')"
proof -
  have "is_denied L (rc_db (vp_state s)) k" by (rule committed_in_force[OF assms(2-7)])
  from denied_is_refused[OF assms(1) this assms(8-11)] show ?thesis .
qed

theorem committed_revocation_is_refused_witness:
  "fst (authenticate plain_jwt_lib plain_auth (rc_db (vp_state revoked_process)) (Some ''Bearer t1'') None)
    = Inl (AuthenticationFailed ''token has been revoked'')"
proof -
  obtain kvs where v: "verify plain_jwt_lib plain_auth (fst (jwk_client_of plain_auth None)) ''t1'' = Inr (JObj kvs)"
    "map_of kvs ''jti'' = Some (JStr ''t1'')"
    using plain_verify by blast
  have committed: "1 < rc_committed (vp_state revoked_process)" by (simp add: revoked_process_def)
  have revokes: "revocation_of plain_revocation_lib (vp_log revoked_process ! 1) = Some (''t1'', ''me'', Timestamp 100)"
    by (simp add: revoked_process_def)
  have "vp_purges revoked_process = [Timestamp 3]" by (simp add: revoked_process_def)
  then have "\<forall>t'. names plain_revocation_lib (vp_log revoked_process) ''t1'' t' \<longrightarrow> (\<forall>now\<in>set (vp_purges revoked_process). now < t')"
    by (auto dest!: revoked_process_names)
  from committed_revocation_is_refused[OF plain_decode_law plain_revocation_law revoked_process_reachable committed revokes _ this
      plain_bearer _ v] show ?thesis by simp
qed

text \<open>
  And by the related service: once its consumer has applied the revocation, a protected view answers
  401 to the token, until it expires.
\<close>

lemma revoked_token_is_refused_by_related:
  assumes "decode_law J" "related_denylist_inv issued db"
    and "\<forall>(now, payload)\<in>set xs. event_honest L issued payload \<and> now < issued k"
    and "\<exists>(now, payload)\<in>set xs. k \<in> revokes_event L payload"
    and "bearer_token h = Some token"
    and "verify J S (fst (jwk_client_of S cache)) token = Inr (JObj kvs)" "map_of kvs ''jti'' = Some (JStr k)"
  shows "fst (requires_auth J L S (fold (\<lambda>(now, payload). token_revoked L now payload) xs db) view h cache)
    = Inr (Response 401 (Inl (''error'', ''token has been revoked'')))"
  by (rule related_refuses_revoked[OF assms])

definition sample_revoked_event :: json where
  "sample_revoked_event = JObj [(''token_id'', JStr ''t1''), (''user_id'', JStr ''me''), (''expires_at'', JStr ''2026-07-22T11:31:31Z'')]"

lemma sample_event_revocation [simp]:
  "event_revocation plain_related_lib sample_revoked_event = Some (''t1'', ''me'', wall_clock 2026 7 22 11 31 31)"
  by (simp add: event_revocation_def sample_revoked_event_def fromisoformat_example bind_text_def)

lemma revoked_token_is_refused_by_related_witness:
  "fst (requires_auth plain_jwt_lib plain_related_lib plain_auth
      (fold (\<lambda>(now, payload). token_revoked plain_related_lib now payload) [(Timestamp 1, sample_revoked_event)] empty_related_db)
      (\<lambda>_. Inr (Response 200 (Inr ''secret''))) (Some ''Bearer t1'') None)
    = Inr (Response 401 (Inl (''error'', ''token has been revoked'')))"
proof -
  obtain kvs where v: "verify plain_jwt_lib plain_auth (fst (jwk_client_of plain_auth None)) ''t1'' = Inr (JObj kvs)"
    "map_of kvs ''jti'' = Some (JStr ''t1'')"
    using plain_verify by blast
  have inv: "related_denylist_inv (\<lambda>_. wall_clock 2026 7 22 11 31 31) empty_related_db"
    by (simp add: related_denylist_inv_def) (simp add: empty_related_db_def)
  have late: "Timestamp 1 < wall_clock 2026 7 22 11 31 31"
    by (simp add: wall_clock_def days_before_year_def days_before_month_def)
  show ?thesis
    by (rule revoked_token_is_refused_by_related[OF plain_decode_law inv _ _ plain_bearer v])
      (simp_all add: event_honest_def revokes_event_def late)
qed

end
